(* ===== verification/Prelude.thy ===== *)
theory Prelude
  imports Main "HOL-Library.Word" "HOL-Library.Sublist"
begin

text \<open>
  Shared vocabulary of the development: results of fallible Go functions, Go's
  64-bit integer arithmetic, the parts of the packages \<open>strings\<close> and \<open>strconv\<close>
  the sources use, and the generic lemmas on lists, options and maps the
  component theories rely on.

  A Go \<open>string\<close> (and a \<open>[]byte\<close>) is a \<^typ>\<open>string\<close>: a list of \<^typ>\<open>char\<close>,
  and a \<^typ>\<open>char\<close> is one byte. A Go \<open>int\<close> or \<open>int64\<close> is an \<^typ>\<open>int\<close> on which
  \<open>wrap64\<close> is applied wherever the code adds or multiplies values that can leave
  the 64-bit range; an unsigned 32-bit value is a \<^typ>\<open>32 word\<close>.
\<close>

named_theorems go_defs \<open>definitions of one-line Go helpers, unfolded by the component proofs\<close>

type_synonym bytes = string
type_synonym u32 = "32 word"
type_synonym u8 = "8 word"

text \<open>A \<open>time.Time\<close> is kept as the RFC 3339 text that its JSON encoding gives.\<close>

type_synonym time = string

section \<open>Results\<close>

text \<open>A Go pair \<open>(T, error)\<close> is a sum: \<open>Inl\<close> the error, \<open>Inr\<close> the value.\<close>

type_synonym ('e, 'a) result = "'e + 'a"

definition rbind :: "('e, 'a) result \<Rightarrow> ('a \<Rightarrow> ('e, 'b) result) \<Rightarrow> ('e, 'b) result" where
  "rbind r f = (case r of Inl e \<Rightarrow> Inl e | Inr a \<Rightarrow> f a)"

lemma rbind_simps [simp]:
  "rbind (Inl e) f = Inl e"
  "rbind (Inr a) f = f a"
  by (simp_all add: rbind_def)

lemma rbind_eq_Inr_iff: "rbind r f = Inr b \<longleftrightarrow> (\<exists>a. r = Inr a \<and> f a = Inr b)"
  by (cases r) auto

section \<open>64-bit integers\<close>

definition wrap64 :: "int \<Rightarrow> int" where
  "wrap64 x = (x + 2 ^ 63) mod 2 ^ 64 - 2 ^ 63"

definition int64_range :: "int \<Rightarrow> bool" where
  "int64_range x \<longleftrightarrow> - (2 ^ 63) \<le> x \<and> x < 2 ^ 63"

lemma wrap64_id: "int64_range x \<Longrightarrow> wrap64 x = x"
  by (simp add: wrap64_def int64_range_def)

lemma wrap64_range: "int64_range (wrap64 x)"
proof -
  have "0 \<le> (x + 2 ^ 63) mod 2 ^ 64" and "(x + 2 ^ 63) mod 2 ^ 64 < (2::int) ^ 64"
    by simp_all
  then show ?thesis
    unfolding wrap64_def int64_range_def by simp
qed

text \<open>Go's integer division truncates towards zero.\<close>

definition go_div :: "int \<Rightarrow> int \<Rightarrow> int" where
  "go_div a b = sgn a * sgn b * (\<bar>a\<bar> div \<bar>b\<bar>)"

lemma go_div_nonneg: "0 \<le> a \<Longrightarrow> 0 < b \<Longrightarrow> go_div a b = a div b"
  by (cases "a = 0") (simp_all add: go_div_def sgn_if)

section \<open>Strings\<close>

text \<open>The byte value of a character, as an integer (binary numerals evaluate fast).\<close>

definition code :: "char \<Rightarrow> int" where
  "code c = of_char c"

definition has_prefix :: "string \<Rightarrow> string \<Rightarrow> bool" where
  \<comment> \<open>\<open>strings.HasPrefix(s, p)\<close>\<close>
  "has_prefix s p \<longleftrightarrow> take (length p) s = p"

definition trim_prefix :: "string \<Rightarrow> string \<Rightarrow> string" where
  \<comment> \<open>\<open>strings.TrimPrefix(s, p)\<close>\<close>
  "trim_prefix s p = (if has_prefix s p then drop (length p) s else s)"

lemma has_prefix_iff: "has_prefix s p \<longleftrightarrow> prefix p s"
  by (metis append_eq_conv_conj append_take_drop_id has_prefix_def prefix_def)

definition dropWhileEnd :: "('a \<Rightarrow> bool) \<Rightarrow> 'a list \<Rightarrow> 'a list" where
  "dropWhileEnd P xs = rev (dropWhile P (rev xs))"

lemma dropWhileEnd_last: "dropWhileEnd P xs \<noteq> [] \<Longrightarrow> \<not> P (last (dropWhileEnd P xs))"
  by (simp add: dropWhileEnd_def last_rev hd_dropWhile)

section \<open>Decimal numerals\<close>

definition digit_char :: "nat \<Rightarrow> char" where
  "digit_char d = ''0123456789'' ! d"

fun dec_digits :: "nat \<Rightarrow> string" where
  "dec_digits n =
     (if n < 10 then [digit_char n] else dec_digits (n div 10) @ [digit_char (n mod 10)])"

declare dec_digits.simps [simp del]

definition itoa :: "int \<Rightarrow> string" where
  \<comment> \<open>\<open>strconv.Itoa\<close>, \<open>strconv.FormatInt(_, 10)\<close> and the verb \<open>%d\<close>\<close>
  "itoa i = (if i < 0 then CHR ''-'' # dec_digits (nat (- i)) else dec_digits (nat i))"

fun dec_val :: "nat \<Rightarrow> string \<Rightarrow> nat option" where
  "dec_val acc [] = Some acc"
| "dec_val acc (c # cs) =
     (if 48 \<le> code c \<and> code c \<le> 57 then dec_val (10 * acc + nat (code c - 48)) cs else None)"

definition atoi :: "string \<Rightarrow> int option" where
  \<comment> \<open>\<open>strconv.Atoi\<close>: an optional sign, at least one digit, 64-bit range\<close>
  "atoi s =
     (let (neg, ds) = (case s of [] \<Rightarrow> (False, [])
                       | c # cs \<Rightarrow> if c = CHR ''-'' then (True, cs)
                                   else if c = CHR ''+'' then (False, cs) else (False, s))
      in if ds = [] then None
         else case dec_val 0 ds of
           None \<Rightarrow> None
         | Some n \<Rightarrow> (let i = (if neg then - int n else int n)
                      in if int64_range i then Some i else None))"

lemma less_10_cases:
  "(n::nat) < 10 \<Longrightarrow> n = 0 \<or> n = 1 \<or> n = 2 \<or> n = 3 \<or> n = 4 \<or> n = 5 \<or> n = 6 \<or> n = 7 \<or> n = 8 \<or> n = 9"
  by arith

lemma code_digit_char: "d < 10 \<Longrightarrow> code (digit_char d) = 48 + int d"
  by (drule less_10_cases) (auto simp: digit_char_def code_def)

lemma dec_val_append:
  "dec_val acc (xs @ ys) = (case dec_val acc xs of None \<Rightarrow> None | Some a \<Rightarrow> dec_val a ys)"
  by (induction xs arbitrary: acc) auto

lemma dec_val_digits [simp]: "dec_val 0 (dec_digits n) = Some n"
proof (induction n rule: dec_digits.induct)
  case (1 n)
  show ?case
  proof (cases "n < 10")
    case True
    then show ?thesis by (simp add: dec_digits.simps [of n] code_digit_char)
  next
    case False
    with 1 show ?thesis
      by (simp add: dec_digits.simps [of n] dec_val_append code_digit_char)
  qed
qed

lemma dec_digits_not_Nil [simp]: "dec_digits n \<noteq> []"
  by (subst dec_digits.simps) simp

lemma digits_in_dec_digits: "c \<in> set (dec_digits n) \<Longrightarrow> 48 \<le> code c \<and> code c \<le> 57"
proof (induction n rule: dec_digits.induct)
  case (1 n)
  then show ?case
    by (cases "n < 10") (auto simp: dec_digits.simps [of n] code_digit_char)
qed

lemma hd_dec_digits: "hd (dec_digits n) \<noteq> CHR ''-''" "hd (dec_digits n) \<noteq> CHR ''+''"
  using digits_in_dec_digits [of "hd (dec_digits n)" n] by (auto simp: code_def)

lemma dec_digits_Cons: "\<exists>c cs. dec_digits n = c # cs \<and> c \<noteq> CHR ''-'' \<and> c \<noteq> CHR ''+''"
  using hd_dec_digits [of n] by (cases "dec_digits n") auto

text \<open>The two directions of \<open>strconv\<close> agree on every 64-bit integer.\<close>

lemma atoi_itoa: "int64_range i \<Longrightarrow> atoi (itoa i) = Some i"
proof (cases "i < 0")
  case True
  then show "int64_range i \<Longrightarrow> ?thesis" by (simp add: atoi_def itoa_def)
next
  case False
  obtain c cs where d: "dec_digits (nat i) = c # cs" "c \<noteq> CHR ''-''" "c \<noteq> CHR ''+''"
    using dec_digits_Cons by blast
  with False have "itoa i = c # cs" by (simp add: itoa_def)
  moreover have "dec_val 0 (c # cs) = Some (nat i)"
    using dec_val_digits [of "nat i"] d(1) by simp
  ultimately show "int64_range i \<Longrightarrow> ?thesis" using d False
    by (simp add: atoi_def del: dec_val.simps)
qed

lemma dec_digits_inject [simp]: "dec_digits a = dec_digits b \<longleftrightarrow> a = b"
  by (metis dec_val_digits option.inject)

lemma dec_digits_neq_minus [simp]: "dec_digits n \<noteq> CHR ''-'' # zs"
  using hd_dec_digits(1) [of n] by auto

lemma itoa_inject [simp]: "itoa i = itoa j \<longleftrightarrow> i = j"
  using dec_digits_neq_minus [symmetric] by (auto simp: itoa_def)

end
