(* ===== verification/Json.thy ===== *)
theory Json
  imports Prelude "HOL-Library.Char_ord" "HOL-Library.List_Lexorder"
begin

text \<open>
  The part of Go's \<open>encoding/json\<close> the wire protocol uses, on bytes: the string
  encoder with its escapes (HTML escaping on, as in \<open>json.Marshal\<close>), UTF-8
  decoding as in \<open>unicode/utf8\<close>, a compact printer, and a validating parser.
  Objects keep their members in order; duplicate keys are kept, because the struct
  decoder lets the last one win. The main lemma is that parsing what was printed gives
  the printed value back, with every invalid UTF-8 byte replaced by U+FFFD.
\<close>

section \<open>UTF-8\<close>

definition cont :: "char \<Rightarrow> bool" where
  "cont c \<longleftrightarrow> 128 \<le> code c \<and> code c \<le> 191"

text \<open>
  Length of the valid multi-byte sequence at the head of a byte string, 0 if there is
  none. As in \<open>unicode/utf8\<close>, the lead byte gives the length and the range the
  second byte must lie in; the other bytes are plain continuation bytes.
\<close>

definition utf8_lead :: "int \<Rightarrow> nat \<times> int \<times> int" where
  "utf8_lead a =
     (if 194 \<le> a \<and> a \<le> 223 then (2, 128, 191)
      else if a = 224 then (3, 160, 191)
      else if a = 237 then (3, 128, 159)
      else if 225 \<le> a \<and> a \<le> 239 then (3, 128, 191)
      else if a = 240 then (4, 144, 191)
      else if 241 \<le> a \<and> a \<le> 243 then (4, 128, 191)
      else if a = 244 then (4, 128, 143)
      else (0, 0, 0))"

definition utf8_len :: "bytes \<Rightarrow> nat" where
  "utf8_len s = (case s of
      a # b # r \<Rightarrow>
        (case utf8_lead (code a) of (n, lo, hi) \<Rightarrow>
          (if 2 \<le> n \<and> n \<le> length s \<and> lo \<le> code b \<and> code b \<le> hi \<and> list_all cont (take (n - 2) r)
           then n else 0))
    | _ \<Rightarrow> 0)"

lemma utf8_len_le: "utf8_len s \<le> length s"
  by (auto simp: utf8_len_def split: list.splits prod.splits)

lemma utf8_len_take: "utf8_len s = n \<Longrightarrow> 0 < n \<Longrightarrow> utf8_len (take n s @ x) = n"
  by (auto simp: utf8_len_def take_Cons' split: list.splits prod.splits if_splits)

text \<open>A byte string as a sequence of chunks: ASCII bytes, valid multi-byte runes, invalid bytes.\<close>

datatype chunk = Ascii char | Rune bytes | Bad char

function (sequential) utf8_chunks :: "bytes \<Rightarrow> chunk list" where
  "utf8_chunks [] = []"
| "utf8_chunks (c # s) =
     (if code c < 128 then Ascii c # utf8_chunks s
      else if utf8_len (c # s) = 0 then Bad c # utf8_chunks s
      else Rune (take (utf8_len (c # s)) (c # s)) # utf8_chunks (drop (utf8_len (c # s)) (c # s)))"
  by pat_completeness auto
termination by (relation "measure length") auto

declare utf8_chunks.simps(2) [simp del]

text \<open>U+FFFD in UTF-8.\<close>

definition replacement :: bytes where
  "replacement = [CHR 0xEF, CHR 0xBF, CHR 0xBD]"

fun san_chunk :: "chunk \<Rightarrow> bytes" where
  "san_chunk (Ascii c) = [c]"
| "san_chunk (Rune b) = b"
| "san_chunk (Bad c) = replacement"

definition to_valid :: "bytes \<Rightarrow> bytes" where
  "to_valid s = concat (map san_chunk (utf8_chunks s))"

fun chunk_ok :: "chunk \<Rightarrow> bool" where
  "chunk_ok (Ascii c) \<longleftrightarrow> code c < 128"
| "chunk_ok (Rune b) \<longleftrightarrow> b \<noteq> [] \<and> 128 \<le> code (hd b) \<and> (\<forall>x. utf8_len (b @ x) = length b)"
| "chunk_ok (Bad c) \<longleftrightarrow> 128 \<le> code c"

definition valid_utf8 :: "bytes \<Rightarrow> bool" where
  "valid_utf8 s \<longleftrightarrow> (\<forall>ch \<in> set (utf8_chunks s). \<not> (\<exists>c. ch = Bad c))"

lemma utf8_chunks_ok: "ch \<in> set (utf8_chunks s) \<Longrightarrow> chunk_ok ch"
proof (induction s rule: utf8_chunks.induct)
  case 1
  then show ?case by simp
next
  case (2 c s)
  let ?n = "utf8_len (c # s)"
  have "?n \<noteq> 0 \<Longrightarrow> utf8_len (take ?n (c # s) @ x) = min (length (c # s)) ?n" for x
    using utf8_len_take [of "c # s" ?n x] utf8_len_le [of "c # s"] by simp
  with 2 show ?case
    by (auto simp: utf8_chunks.simps(2) [of c s] take_Cons' split: if_splits)
qed

lemma to_valid_id: "valid_utf8 s \<Longrightarrow> to_valid s = s"
proof (induction s rule: utf8_chunks.induct)
  case 1
  then show ?case by (simp add: to_valid_def)
next
  case (2 c s)
  then show ?case
    by (auto simp: to_valid_def valid_utf8_def utf8_chunks.simps(2) [of c s] split: if_splits)
qed

lemma ascii_valid_utf8: "\<forall>c \<in> set s. code c < 128 \<Longrightarrow> valid_utf8 s"
  by (induction s) (auto simp: valid_utf8_def utf8_chunks.simps(2))

section \<open>String literals\<close>

abbreviation (input) BS :: char where "BS \<equiv> CHR 0x5C"
abbreviation (input) DQ :: char where "DQ \<equiv> CHR 0x22"

definition hex_char :: "nat \<Rightarrow> char" where
  "hex_char d = ''0123456789abcdef'' ! d"

definition hex_val :: "char \<Rightarrow> int option" where
  "hex_val c =
     (if 48 \<le> code c \<and> code c \<le> 57 then Some (code c - 48)
      else if 97 \<le> code c \<and> code c \<le> 102 then Some (code c - 87)
      else if 65 \<le> code c \<and> code c \<le> 70 then Some (code c - 55)
      else None)"

definition hex4 :: "bytes \<Rightarrow> int option" where
  "hex4 s = (case s of
      a # b # c # d # _ \<Rightarrow>
        (case (hex_val a, hex_val b, hex_val c, hex_val d) of
           (Some w, Some x, Some y, Some z) \<Rightarrow> Some (4096 * w + 256 * x + 16 * y + z)
         | _ \<Rightarrow> None)
    | _ \<Rightarrow> None)"

text \<open>\<open>utf8.EncodeRune\<close> for a code point that is not a surrogate.\<close>

definition utf8_enc :: "int \<Rightarrow> bytes" where
  "utf8_enc r =
     (if r < 128 then [char_of r]
      else if r < 2048 then [char_of (192 + r div 64), char_of (128 + r mod 64)]
      else if r < 65536 then
        [char_of (224 + r div 4096), char_of (128 + r div 64 mod 64), char_of (128 + r mod 64)]
      else
        [char_of (240 + r div 262144), char_of (128 + r div 4096 mod 64),
         char_of (128 + r div 64 mod 64), char_of (128 + r mod 64)])"

fun enc_chunk :: "chunk \<Rightarrow> bytes" where
  "enc_chunk (Ascii c) =
     (if c = DQ \<or> c = BS then [BS, c]
      else if c = CHR 0x08 then [BS, CHR ''b'']
      else if c = CHR 0x0C then [BS, CHR ''f'']
      else if c = CHR 0x0A then [BS, CHR ''n'']
      else if c = CHR 0x0D then [BS, CHR ''r'']
      else if c = CHR 0x09 then [BS, CHR ''t'']
      else if code c < 32 \<or> c = CHR ''<'' \<or> c = CHR ''>'' \<or> c = CHR ''&'' then
        [BS, CHR ''u'', CHR ''0'', CHR ''0'', hex_char (nat (code c div 16)), hex_char (nat (code c mod 16))]
      else [c])"
| "enc_chunk (Rune b) =
     (if b = [CHR 0xE2, CHR 0x80, CHR 0xA8] then BS # ''u2028''
      else if b = [CHR 0xE2, CHR 0x80, CHR 0xA9] then BS # ''u2029''
      else b)"
| "enc_chunk (Bad c) = BS # ''ufffd''"

definition enc_str :: "bytes \<Rightarrow> bytes" where
  "enc_str s = DQ # concat (map enc_chunk (utf8_chunks s)) @ [DQ]"

text \<open>A string literal is at most six times as long as the string, plus its quotes.\<close>

lemma length_enc_chunk:
  "length (enc_chunk (Ascii c)) \<le> 6" "b \<noteq> [] \<Longrightarrow> length (enc_chunk (Rune b)) \<le> 6 * length b"
  "length (enc_chunk (Bad c)) = 6"
  by simp_all

lemma length_enc_str: "length (enc_str s) \<le> 6 * length s + 2"
proof -
  have "length (concat (map enc_chunk (utf8_chunks s))) \<le> 6 * length s"
  proof (induction s rule: utf8_chunks.induct)
    case (2 c s)
    let ?n = "utf8_len (c # s)"
    consider "code c < 128" | "\<not> code c < 128" "?n = 0" | "\<not> code c < 128" "?n \<noteq> 0" by blast
    then show ?case
    proof cases
      case 1
      with 2(1) length_enc_chunk(1) [of c] show ?thesis
        by (simp add: utf8_chunks.simps(2) [of c s] del: enc_chunk.simps)
    next
      case 2
      with \<open>\<not> code c < 128 \<Longrightarrow> ?n = 0 \<Longrightarrow> _\<close> length_enc_chunk(3) [of c] show ?thesis
        by (simp add: utf8_chunks.simps(2) [of c s] del: enc_chunk.simps)
    next
      case 3
      have "length (take ?n (c # s)) = ?n" using utf8_len_le [of "c # s"] by simp
      with 3 length_enc_chunk(2) [of "take ?n (c # s)"]
      have "length (enc_chunk (Rune (take ?n (c # s)))) \<le> 6 * ?n" by (metis length_0_conv)
      moreover have "length (concat (map enc_chunk (utf8_chunks (drop ?n (c # s))))) \<le> 6 * (length (c # s) - ?n)"
        using 2(3) [OF 3] by (simp only: length_drop)
      moreover have "utf8_chunks (c # s) = Rune (take ?n (c # s)) # utf8_chunks (drop ?n (c # s))"
        using 3 by (simp only: utf8_chunks.simps(2) [of c s] if_False)
      ultimately show ?thesis
        using utf8_len_le [of "c # s"] by (simp only: list.map concat.simps length_append)
    qed
  qed simp
  then show ?thesis by (simp add: enc_str_def)
qed

text \<open>What follows a backslash inside a string literal.\<close>

definition dec_escape :: "bytes \<Rightarrow> (bytes \<times> bytes) option" where
  "dec_escape s = (case s of
      [] \<Rightarrow> None
    | c # r \<Rightarrow>
       (if c = DQ \<or> c = BS \<or> c = CHR ''/'' then Some ([c], r)
        else if c = CHR ''b'' then Some ([CHR 0x08], r)
        else if c = CHR ''f'' then Some ([CHR 0x0C], r)
        else if c = CHR ''n'' then Some ([CHR 0x0A], r)
        else if c = CHR ''r'' then Some ([CHR 0x0D], r)
        else if c = CHR ''t'' then Some ([CHR 0x09], r)
        else if c = CHR ''u'' then
          (case hex4 r of
             None \<Rightarrow> None
           | Some v \<Rightarrow>
              (let r' = drop 4 r in
               if 55296 \<le> v \<and> v \<le> 57343 then
                 (case (take 2 r', hex4 (drop 2 r')) of
                    ([b, u], Some v') \<Rightarrow>
                      (if b = BS \<and> u = CHR ''u'' \<and> v \<le> 56319 \<and> 56320 \<le> v' \<and> v' \<le> 57343
                       then Some (utf8_enc (65536 + (v - 55296) * 1024 + (v' - 56320)), drop 6 r')
                       else Some (replacement, r'))
                  | _ \<Rightarrow> Some (replacement, r'))
               else Some (utf8_enc v, r')))
        else None))"

lemma dec_escape_shorter: "dec_escape s = Some (o', r) \<Longrightarrow> length r < length s"
  by (auto simp: dec_escape_def Let_def split: list.splits if_splits option.splits prod.splits)

text \<open>The rest of a string literal after its opening quote: its contents and what follows it.\<close>

function (sequential) parse_str :: "bytes \<Rightarrow> (bytes \<times> bytes) option" where
  "parse_str [] = None"
| "parse_str (c # s) =
     (if c = DQ then Some ([], s)
      else if c = BS then
        (case dec_escape s of
           None \<Rightarrow> None
         | Some (b, r) \<Rightarrow> map_option (\<lambda>(o', r'). (b @ o', r')) (parse_str r))
      else if code c < 32 then None
      else if code c < 128 then map_option (\<lambda>(o', r'). (c # o', r')) (parse_str s)
      else if utf8_len (c # s) = 0 then map_option (\<lambda>(o', r'). (replacement @ o', r')) (parse_str s)
      else map_option (\<lambda>(o', r'). (take (utf8_len (c # s)) (c # s) @ o', r'))
             (parse_str (drop (utf8_len (c # s)) (c # s))))"
  by pat_completeness auto
termination by (relation "measure length") (auto dest: dec_escape_shorter)

declare parse_str.simps(2) [simp del]

lemma parse_str_shorter: "parse_str s = Some (o', r) \<Longrightarrow> length r < length s"
proof (induction s arbitrary: o' r rule: parse_str.induct)
  case 1
  then show ?case by simp
next
  case (2 c s)
  then show ?case
    by (auto simp: parse_str.simps(2) [of c s] split: if_splits option.splits
        dest!: dec_escape_shorter) fastforce+
qed

lemma hex_val_char: "d < 16 \<Longrightarrow> hex_val (hex_char d) = Some (int d)"
proof -
  assume "d < 16"
  then have "d < 10 \<or> d = 10 \<or> d = 11 \<or> d = 12 \<or> d = 13 \<or> d = 14 \<or> d = 15" by arith
  then show ?thesis
    by (auto dest!: less_10_cases simp: hex_char_def hex_val_def code_def)
qed

lemma code_range: "0 \<le> code c" "code c < 256"
  by (simp_all add: code_def of_char_def horner_sum_simps flip: of_bool_def)

lemma char_of_code [simp]: "char_of (code c) = c"
  by (simp add: code_def)

lemma code_inject: "code c = code d \<longleftrightarrow> c = d"
  by (metis char_of_code)

lemma hex4_low_byte:
  "hex4 (CHR ''0'' # CHR ''0'' # hex_char (nat (code c div 16)) # hex_char (nat (code c mod 16)) # rest)
   = Some (code c)"
proof -
  have "nat (code c div 16) < 16" and "nat (code c mod 16) < 16"
    using code_range [of c] by (simp_all add: nat_less_iff)
  then have "hex_val (hex_char (nat (code c div 16))) = Some (code c div 16)"
    and "hex_val (hex_char (nat (code c mod 16))) = Some (code c mod 16)"
    using hex_val_char code_range [of c] by (simp_all add: pos_imp_zdiv_nonneg_iff)
  moreover have "hex_val (CHR ''0'') = Some 0" by (simp add: hex_val_def code_def)
  ultimately show ?thesis by (simp add: hex4_def)
qed

lemma dec_escape_u:
  assumes "hex4 r = Some v" and "v < 55296"
  shows "dec_escape (CHR ''u'' # r) = Some (utf8_enc v, drop 4 r)"
  using assms by (simp add: dec_escape_def Let_def)

lemma parse_str_escape:
  assumes "dec_escape s = Some (b, r)"
  shows "parse_str (BS # s) = map_option (\<lambda>(o', r'). (b @ o', r')) (parse_str r)"
  using assms by (simp add: parse_str.simps(2))

lemma parse_enc_Ascii:
  assumes "code c < 128"
  shows "parse_str (enc_chunk (Ascii c) @ rest)
         = map_option (\<lambda>(o', r). (c # o', r)) (parse_str rest)"
proof (cases "(code c < 32 \<or> c = CHR ''<'' \<or> c = CHR ''>'' \<or> c = CHR ''&'') \<and>
              c \<notin> {DQ, BS, CHR 0x08, CHR 0x0C, CHR 0x0A, CHR 0x0D, CHR 0x09}")
  case True
  let ?h = "CHR ''0'' # CHR ''0'' # hex_char (nat (code c div 16)) # hex_char (nat (code c mod 16)) # rest"
  from assms have "dec_escape (CHR ''u'' # ?h) = Some ([c], rest)"
    using dec_escape_u [OF hex4_low_byte [of c rest]] by (simp add: utf8_enc_def)
  from parse_str_escape [OF this] True show ?thesis by simp
next
  case False
  with assms show ?thesis
    by (auto simp: parse_str.simps(2) dec_escape_def)
qed

lemma parse_enc_Rune:
  assumes "chunk_ok (Rune b)"
  shows "parse_str (enc_chunk (Rune b) @ rest)
         = map_option (\<lambda>(o', r). (b @ o', r)) (parse_str rest)"
proof -
  have esc: "hex4 (''2028'' @ rest) = Some 8232" "hex4 (''2029'' @ rest) = Some 8233"
    by (simp_all add: hex4_def hex_val_def code_def)
  have enc: "utf8_enc 8232 = [CHR 0xE2, CHR 0x80, CHR 0xA8]" "utf8_enc 8233 = [CHR 0xE2, CHR 0x80, CHR 0xA9]"
    by code_simp+
  from assms obtain c b' where b: "b = c # b'" and c: "128 \<le> code c"
    and len: "utf8_len (c # b' @ rest) = Suc (length b')"
    by (cases b) auto
  have "c \<noteq> DQ" "c \<noteq> BS" using c by (auto simp: code_def)
  then have "parse_str (b @ rest) = map_option (\<lambda>(o', r). (b @ o', r)) (parse_str rest)"
    using b c len by (simp add: parse_str.simps(2))
  moreover have
    "parse_str (BS # CHR ''u'' # ''2028'' @ rest) = map_option (\<lambda>(o', r). (utf8_enc 8232 @ o', r)) (parse_str rest)"
    "parse_str (BS # CHR ''u'' # ''2029'' @ rest) = map_option (\<lambda>(o', r). (utf8_enc 8233 @ o', r)) (parse_str rest)"
    using dec_escape_u [OF esc(1)] dec_escape_u [OF esc(2)]
    by (simp_all add: parse_str_escape)
  ultimately show ?thesis by (simp add: enc)
qed

lemma parse_enc_Bad:
  "parse_str (enc_chunk (Bad c) @ rest) = map_option (\<lambda>(o', r). (replacement @ o', r)) (parse_str rest)"
proof -
  have "dec_escape (''ufffd'' @ rest) = Some (utf8_enc 65533, rest)"
    by (simp add: dec_escape_def hex4_def hex_val_def code_def)
  moreover have "utf8_enc 65533 = replacement" by code_simp
  ultimately show ?thesis by (simp add: parse_str_escape)
qed

lemma parse_enc_chunk:
  assumes "chunk_ok ch"
  shows "parse_str (enc_chunk ch @ rest) = map_option (\<lambda>(o', r). (san_chunk ch @ o', r)) (parse_str rest)"
proof (cases ch)
  case (Ascii c)
  with assms show ?thesis using parse_enc_Ascii [of c rest] by (simp del: enc_chunk.simps)
next
  case (Rune b)
  with assms show ?thesis using parse_enc_Rune [of b rest] by (simp del: enc_chunk.simps)
next
  case (Bad c)
  then show ?thesis using parse_enc_Bad [of c rest] by (simp del: enc_chunk.simps)
qed

lemma parse_enc_chunks:
  "\<forall>ch \<in> set chs. chunk_ok ch \<Longrightarrow>
   parse_str (concat (map enc_chunk chs) @ DQ # rest) = Some (concat (map san_chunk chs), rest)"
  by (induction chs) (simp_all add: parse_enc_chunk parse_str.simps(2) del: enc_chunk.simps)

text \<open>Decoding an encoded string gives it back with invalid bytes replaced.\<close>

lemma parse_str_enc_str: "parse_str (tl (enc_str s) @ rest) = Some (to_valid s, rest)"
  using parse_enc_chunks [of "utf8_chunks s" rest] utf8_chunks_ok
  by (simp add: enc_str_def to_valid_def)

section \<open>Values\<close>

datatype json =
    JNull
  | JBool bool
  | JNum bytes
  | JStr bytes
  | JArr "json list"
  | JObj "(bytes \<times> json) list"

text \<open>Compact printing, as \<open>json.Marshal\<close> does.\<close>

fun jprint :: "json \<Rightarrow> bytes"
  and jprint_elems :: "json list \<Rightarrow> bytes"
  and jprint_members :: "(bytes \<times> json) list \<Rightarrow> bytes" where
  "jprint JNull = ''null''"
| "jprint (JBool b) = (if b then ''true'' else ''false'')"
| "jprint (JNum n) = n"
| "jprint (JStr s) = enc_str s"
| "jprint (JArr vs) = CHR ''['' # jprint_elems vs @ '']''"
| "jprint (JObj ms) = CHR ''{'' # jprint_members ms @ ''}''"
| "jprint_elems [] = []"
| "jprint_elems [v] = jprint v"
| "jprint_elems (v # w # vs) = jprint v @ CHR '','' # jprint_elems (w # vs)"
| "jprint_members [] = []"
| "jprint_members [(k, v)] = enc_str k @ CHR '':'' # jprint v"
| "jprint_members ((k, v) # m # ms) = enc_str k @ CHR '':'' # jprint v @ CHR '','' # jprint_members (m # ms)"

definition skip_ws :: "bytes \<Rightarrow> bytes" where
  "skip_ws s = dropWhile (\<lambda>c. c = CHR '' '' \<or> c = CHR 0x09 \<or> c = CHR 0x0A \<or> c = CHR 0x0D) s"

definition is_digit :: "char \<Rightarrow> bool" where
  "is_digit c \<longleftrightarrow> 48 \<le> code c \<and> code c \<le> 57"

text \<open>
  The JSON number grammar: an optional minus sign, an integer part without leading
  zeros, an optional fraction, an optional exponent. Gives the literal and the rest.
\<close>

definition num_int :: "bytes \<Rightarrow> (bytes \<times> bytes) option" where
  "num_int s = (case s of
      [] \<Rightarrow> None
    | c # r \<Rightarrow> if c = CHR ''0'' then Some ([c], r)
               else if is_digit c then Some (c # takeWhile is_digit r, dropWhile is_digit r)
               else None)"

definition num_frac :: "bytes \<Rightarrow> (bytes \<times> bytes) option" where
  "num_frac s = (case s of
      c # r \<Rightarrow> if c = CHR ''.''
               then (if takeWhile is_digit r = [] then None
                     else Some (c # takeWhile is_digit r, dropWhile is_digit r))
               else Some ([], s)
    | [] \<Rightarrow> Some ([], s))"

definition num_exp :: "bytes \<Rightarrow> (bytes \<times> bytes) option" where
  "num_exp s = (case s of
      c # r \<Rightarrow>
        if c = CHR ''e'' \<or> c = CHR ''E''
        then (let (sg, r1) = (case r of d # r' \<Rightarrow> if d = CHR ''+'' \<or> d = CHR ''-'' then ([d], r') else ([], r)
                              | [] \<Rightarrow> ([], r))
              in if takeWhile is_digit r1 = [] then None
                 else Some (c # sg @ takeWhile is_digit r1, dropWhile is_digit r1))
        else Some ([], s)
    | [] \<Rightarrow> Some ([], s))"

definition parse_num :: "bytes \<Rightarrow> (bytes \<times> bytes) option" where
  "parse_num s =
     (let (sg, s1) = (case s of c # r \<Rightarrow> if c = CHR ''-'' then ([c], r) else ([], s) | [] \<Rightarrow> ([], s)) in
      case num_int s1 of None \<Rightarrow> None | Some (i, s2) \<Rightarrow>
      case num_frac s2 of None \<Rightarrow> None | Some (f, s3) \<Rightarrow>
      case num_exp s3 of None \<Rightarrow> None | Some (e, s4) \<Rightarrow> Some (sg @ i @ f @ e, s4))"

definition parse_lit :: "bytes \<Rightarrow> json \<Rightarrow> bytes \<Rightarrow> (json \<times> bytes) option" where
  "parse_lit w v s = (if has_prefix s w then Some (v, drop (length w) s) else None)"

text \<open>The decoder refuses more than this many open arrays and objects.\<close>

definition maxNestingDepth :: nat where
  "maxNestingDepth = 10000"

text \<open>
  The parser: \<open>f\<close> is fuel (lemma \<open>parse_fuel\<close>: more than twice the length of the input is enough), \<open>d\<close> the number
  of containers already open.
\<close>

fun parse_val :: "nat \<Rightarrow> nat \<Rightarrow> bytes \<Rightarrow> (json \<times> bytes) option"
  and parse_elems :: "nat \<Rightarrow> nat \<Rightarrow> bytes \<Rightarrow> (json list \<times> bytes) option"
  and parse_members :: "nat \<Rightarrow> nat \<Rightarrow> bytes \<Rightarrow> ((bytes \<times> json) list \<times> bytes) option" where
  "parse_val 0 d s = None"
| "parse_val (Suc f) d s = (case skip_ws s of
      [] \<Rightarrow> None
    | c # r \<Rightarrow>
       (if c = DQ then map_option (\<lambda>(o', r'). (JStr o', r')) (parse_str r)
        else if c = CHR ''{'' then
          (if d \<ge> maxNestingDepth then None
           else case skip_ws r of
             [] \<Rightarrow> None
           | c' # r' \<Rightarrow> if c' = CHR ''}'' then Some (JObj [], r')
                        else map_option (\<lambda>(ms, r''). (JObj ms, r'')) (parse_members f (Suc d) r))
        else if c = CHR ''['' then
          (if d \<ge> maxNestingDepth then None
           else case skip_ws r of
             [] \<Rightarrow> None
           | c' # r' \<Rightarrow> if c' = CHR '']'' then Some (JArr [], r')
                        else map_option (\<lambda>(vs, r''). (JArr vs, r'')) (parse_elems f (Suc d) r))
        else if c = CHR ''t'' then parse_lit ''true'' (JBool True) (c # r)
        else if c = CHR ''f'' then parse_lit ''false'' (JBool False) (c # r)
        else if c = CHR ''n'' then parse_lit ''null'' JNull (c # r)
        else map_option (\<lambda>(n, r'). (JNum n, r')) (parse_num (c # r))))"
| "parse_elems 0 d s = None"
| "parse_elems (Suc f) d s = (case parse_val f d s of
      None \<Rightarrow> None
    | Some (v, r) \<Rightarrow> (case skip_ws r of
        [] \<Rightarrow> None
      | c # r' \<Rightarrow> if c = CHR '']'' then Some ([v], r')
                  else if c = CHR '','' then map_option (\<lambda>(vs, r''). (v # vs, r'')) (parse_elems f d r')
                  else None))"
| "parse_members 0 d s = None"
| "parse_members (Suc f) d s = (case skip_ws s of
      [] \<Rightarrow> None
    | q # r0 \<Rightarrow> if q \<noteq> DQ then None
      else (case parse_str r0 of
        None \<Rightarrow> None
      | Some (k, r1) \<Rightarrow> (case skip_ws r1 of
          [] \<Rightarrow> None
        | cl # r2 \<Rightarrow> if cl \<noteq> CHR '':'' then None
          else (case parse_val f d r2 of
            None \<Rightarrow> None
          | Some (v, r3) \<Rightarrow> (case skip_ws r3 of
              [] \<Rightarrow> None
            | c # r4 \<Rightarrow> if c = CHR ''}'' then Some ([(k, v)], r4)
                        else if c = CHR '','' then map_option (\<lambda>(ms, r''). ((k, v) # ms, r'')) (parse_members f d r4)
                        else None)))))"

definition json_parse :: "bytes \<Rightarrow> json option" where
  "json_parse s = (case parse_val (Suc (2 * length s)) 0 s of
      None \<Rightarrow> None
    | Some (v, r) \<Rightarrow> if skip_ws r = [] then Some v else None)"

section \<open>Printing and parsing agree\<close>

text \<open>Values the encoder prints: every number is a printed integer.\<close>

fun jwf :: "json \<Rightarrow> bool"
  and jwf_elems :: "json list \<Rightarrow> bool"
  and jwf_members :: "(bytes \<times> json) list \<Rightarrow> bool" where
  "jwf (JNum n) \<longleftrightarrow> (\<exists>i. n = itoa i)"
| "jwf (JArr vs) \<longleftrightarrow> jwf_elems vs"
| "jwf (JObj ms) \<longleftrightarrow> jwf_members ms"
| "jwf _ \<longleftrightarrow> True"
| "jwf_elems [] \<longleftrightarrow> True"
| "jwf_elems (v # vs) \<longleftrightarrow> jwf v \<and> jwf_elems vs"
| "jwf_members [] \<longleftrightarrow> True"
| "jwf_members ((k, v) # ms) \<longleftrightarrow> jwf v \<and> jwf_members ms"

fun jdepth :: "json \<Rightarrow> nat"
  and jdepth_elems :: "json list \<Rightarrow> nat"
  and jdepth_members :: "(bytes \<times> json) list \<Rightarrow> nat" where
  "jdepth (JArr vs) = Suc (jdepth_elems vs)"
| "jdepth (JObj ms) = Suc (jdepth_members ms)"
| "jdepth _ = 0"
| "jdepth_elems [] = 0"
| "jdepth_elems (v # vs) = max (jdepth v) (jdepth_elems vs)"
| "jdepth_members [] = 0"
| "jdepth_members ((k, v) # ms) = max (jdepth v) (jdepth_members ms)"

text \<open>The value with every string made valid UTF-8.\<close>

fun jsan :: "json \<Rightarrow> json"
  and jsan_elems :: "json list \<Rightarrow> json list"
  and jsan_members :: "(bytes \<times> json) list \<Rightarrow> (bytes \<times> json) list" where
  "jsan (JStr s) = JStr (to_valid s)"
| "jsan (JArr vs) = JArr (jsan_elems vs)"
| "jsan (JObj ms) = JObj (jsan_members ms)"
| "jsan v = v"
| "jsan_elems [] = []"
| "jsan_elems (v # vs) = jsan v # jsan_elems vs"
| "jsan_members [] = []"
| "jsan_members ((k, v) # ms) = (to_valid k, jsan v) # jsan_members ms"

text \<open>What may follow a printed value inside a document.\<close>

definition delim :: "bytes \<Rightarrow> bool" where
  "delim s \<longleftrightarrow> s = [] \<or> hd s = CHR '','' \<or> hd s = CHR ''}'' \<or> hd s = CHR '']''"

lemma skip_ws_Cons [simp]:
  "c \<notin> {CHR '' '', CHR 0x09, CHR 0x0A, CHR 0x0D} \<Longrightarrow> skip_ws (c # s) = c # s"
  by (simp add: skip_ws_def)

lemma dec_digits_shape:
  "\<exists>c cs. dec_digits n = c # cs \<and> is_digit c \<and> (\<forall>x \<in> set cs. is_digit x) \<and> (c = CHR ''0'' \<longrightarrow> cs = [])"
proof -
  obtain c cs where d: "dec_digits n = c # cs" using dec_digits_Cons by blast
  have digs: "\<forall>x \<in> set (c # cs). is_digit x"
    using digits_in_dec_digits [of _ n] d by (auto simp: is_digit_def)
  have "hd (dec_digits m) \<noteq> CHR ''0''" if "m \<noteq> 0" for m
    using that
  proof (induction m rule: dec_digits.induct)
    case (1 m)
    then show ?case
      using less_10_cases [of m] by (cases "m < 10")
        (auto simp: dec_digits.simps [of m] digit_char_def hd_append)
  qed
  then have "c = CHR ''0'' \<Longrightarrow> n = 0" using d by (metis list.sel(1))
  then have "c = CHR ''0'' \<Longrightarrow> cs = []"
    using d by (simp add: dec_digits.simps [of 0])
  with d digs show ?thesis by auto
qed

lemma delim_num_rest:
  assumes "delim rest"
  shows "takeWhile is_digit rest = []" "dropWhile is_digit rest = rest"
    "num_frac rest = Some ([], rest)" "num_exp rest = Some ([], rest)"
  using assms by (cases rest; auto simp: delim_def is_digit_def code_def num_frac_def num_exp_def)+

lemma num_int_digits:
  assumes "delim rest"
  shows "num_int (dec_digits n @ rest) = Some (dec_digits n, rest)"
proof -
  obtain c cs where d: "dec_digits n = c # cs" "is_digit c" "\<forall>x \<in> set cs. is_digit x"
    "c = CHR ''0'' \<longrightarrow> cs = []"
    using dec_digits_shape by blast
  then show ?thesis
    using delim_num_rest(1,2) [OF assms]
    by (cases "c = CHR ''0''") (simp_all add: num_int_def takeWhile_append dropWhile_append)
qed

lemma parse_num_itoa:
  assumes "delim rest"
  shows "parse_num (itoa i @ rest) = Some (itoa i, rest)"
proof -
  obtain c cs where d: "dec_digits (nat i) = c # cs" "c \<noteq> CHR ''-''"
    using dec_digits_Cons by blast
  show ?thesis
    using num_int_digits [OF assms, of "nat (- i)"] num_int_digits [OF assms, of "nat i"] d
    by (simp add: parse_num_def itoa_def delim_num_rest [OF assms])
qed

lemma itoa_Cons: "\<exists>c cs. itoa i = c # cs \<and> (c = CHR ''-'' \<or> is_digit c)"
  using dec_digits_shape [of "nat i"] by (auto simp: itoa_def)

lemma parse_val_num:
  assumes "delim rest" and "0 < f"
  shows "parse_val f d (itoa i @ rest) = Some (JNum (itoa i), rest)"
proof -
  obtain c cs where c: "itoa i = c # cs" "c = CHR ''-'' \<or> is_digit c" using itoa_Cons by blast
  from c(2) have "c \<notin> {CHR '' '', CHR 0x09, CHR 0x0A, CHR 0x0D}"
    "c \<notin> {DQ, CHR ''{'', CHR ''['', CHR ''t'', CHR ''f'', CHR ''n''}"
    by (auto simp: is_digit_def code_def)
  with parse_num_itoa [OF assms(1), of i] c assms(2) show ?thesis
    by (cases f) auto
qed

lemma jprint_Cons:
  "jwf v \<Longrightarrow> \<exists>c cs. jprint v = c # cs \<and>
     c \<notin> {CHR '' '', CHR 0x09, CHR 0x0A, CHR 0x0D, CHR '']'', CHR ''}''}"
proof (cases v)
  case (JNum n)
  then show "jwf v \<Longrightarrow> ?thesis"
    using itoa_Cons by (fastforce simp: is_digit_def code_def)
qed (auto simp: enc_str_def)

lemma enc_str_Cons: "enc_str s = DQ # tl (enc_str s)"
  by (simp add: enc_str_def)

lemma itoa_not_Nil [simp]: "itoa i \<noteq> []"
  by (simp add: itoa_def)

lemma parse_val_arr:
  assumes "jwf_elems vs" and "vs \<noteq> []" and "d < maxNestingDepth"
    and "parse_elems g (Suc d) (jprint_elems vs @ CHR '']'' # rest) = Some (ws, rest)"
  shows "parse_val (Suc g) d (jprint (JArr vs) @ rest) = Some (JArr ws, rest)"
proof -
  obtain v vs' where vs: "vs = v # vs'" using assms(2) by (cases vs) auto
  then obtain c cs where "skip_ws (jprint_elems vs @ CHR '']'' # rest) = c # cs" "c \<noteq> CHR '']''"
    using assms(1) jprint_Cons [of v] by (cases vs') auto
  with assms(3,4) show ?thesis by simp
qed

lemma parse_val_obj:
  assumes "ms \<noteq> []" and "d < maxNestingDepth"
    and "parse_members g (Suc d) (jprint_members ms @ CHR ''}'' # rest) = Some (ns, rest)"
  shows "parse_val (Suc g) d (jprint (JObj ms) @ rest) = Some (JObj ns, rest)"
proof -
  obtain k v ms' where "ms = (k, v) # ms'" using assms(1) by (cases ms) auto
  then obtain cs where "skip_ws (jprint_members ms @ CHR ''}'' # rest) = DQ # cs"
    by (cases ms') (auto simp: enc_str_def)
  with assms(2,3) show ?thesis by simp
qed

lemma parse_elems_step:
  assumes "parse_val g d (s @ c # r) = Some (v, c # r)" and "c = CHR '']'' \<or> c = CHR '',''"
  shows "parse_elems (Suc g) d (s @ c # r) =
    (if c = CHR '']'' then Some ([v], r) else map_option (\<lambda>(vs, r'). (v # vs, r')) (parse_elems g d r))"
  using assms by auto

lemma parse_members_step:
  assumes "parse_val g d (s @ c # r) = Some (v, c # r)" and "c = CHR ''}'' \<or> c = CHR '',''"
  shows "parse_members (Suc g) d (enc_str k @ CHR '':'' # s @ c # r) =
    (if c = CHR ''}'' then Some ([(to_valid k, v)], r)
     else map_option (\<lambda>(ms, r'). ((to_valid k, v) # ms, r')) (parse_members g d r))"
proof -
  have "parse_str (tl (enc_str k) @ CHR '':'' # s @ c # r) = Some (to_valid k, CHR '':'' # s @ c # r)"
    by (rule parse_str_enc_str)
  then show ?thesis
    using assms by (subst enc_str_Cons) auto
qed

lemma parse_print:
  shows "jwf v \<Longrightarrow> d + jdepth v \<le> maxNestingDepth \<Longrightarrow> length (jprint v) \<le> f \<Longrightarrow> delim rest \<Longrightarrow>
      parse_val f d (jprint v @ rest) = Some (jsan v, rest)"
    and "jwf_elems vs \<Longrightarrow> vs \<noteq> [] \<Longrightarrow> d + jdepth_elems vs \<le> maxNestingDepth \<Longrightarrow>
      length (jprint_elems vs) < f \<Longrightarrow>
      parse_elems f d (jprint_elems vs @ CHR '']'' # rest) = Some (jsan_elems vs, rest)"
    and "jwf_members ms \<Longrightarrow> ms \<noteq> [] \<Longrightarrow> d + jdepth_members ms \<le> maxNestingDepth \<Longrightarrow>
      length (jprint_members ms) < f \<Longrightarrow>
      parse_members f d (jprint_members ms @ CHR ''}'' # rest) = Some (jsan_members ms, rest)"
proof (induction v and vs and ms arbitrary: f d rest and f d rest and f d rest
       rule: jprint_jprint_elems_jprint_members.induct)
  case 1
  then show ?case by (cases f) (simp_all add: parse_lit_def has_prefix_def)
next
  case (2 b)
  then show ?case by (cases f; cases b) (simp_all add: parse_lit_def has_prefix_def)
next
  case (3 n)
  then obtain i where i: "n = itoa i" by auto
  with 3 have "0 < f" by (cases "itoa i") auto
  with 3 i show ?case by (simp add: parse_val_num)
next
  case (4 s)
  then show ?case
    using parse_str_enc_str [of s rest] by (cases f) (auto simp: enc_str_def)
next
  case (5 vs)
  then obtain g where f: "f = Suc g" by (cases f) auto
  with 5 have "vs \<noteq> [] \<Longrightarrow> parse_val f d (jprint (JArr vs) @ rest) = Some (JArr (jsan_elems vs), rest)"
    unfolding f by (intro parse_val_arr) auto
  with f 5 show ?case by (cases "vs = []") simp_all
next
  case (6 ms)
  then obtain g where f: "f = Suc g" by (cases f) auto
  with 6 have "ms \<noteq> [] \<Longrightarrow> parse_val f d (jprint (JObj ms) @ rest) = Some (JObj (jsan_members ms), rest)"
    unfolding f by (intro parse_val_obj) auto
  with f 6 show ?case by (cases "ms = []") simp_all
next
  case (8 v)
  then show ?case by (cases f) (simp_all add: parse_elems_step delim_def)
next
  case (9 v w vs)
  then show ?case by (cases f) (simp_all add: parse_elems_step delim_def)
next
  case (11 k v)
  then show ?case by (cases f) (simp_all add: parse_members_step delim_def del: parse_members.simps)
next
  case (12 k v m ms)
  then show ?case by (cases f) (simp_all add: parse_members_step delim_def del: parse_members.simps)
qed simp_all

lemma json_parse_print:
  assumes "jwf v" and "jdepth v \<le> maxNestingDepth"
  shows "json_parse (jprint v) = Some (jsan v)"
  using parse_print(1) [of v 0 "Suc (2 * length (jprint v))" "[]"] assms
  by (simp add: json_parse_def delim_def skip_ws_def del: parse_val.simps)

section \<open>The fuel is enough\<close>

lemma skip_ws_length: "length (skip_ws s) \<le> length s"
  by (simp add: skip_ws_def length_dropWhile_le)

lemma skip_ws_Cons_length: "skip_ws s = c # r \<Longrightarrow> length r < length s"
  using skip_ws_length [of s] by simp

lemma parse_num_shorter: "parse_num s = Some (n, r) \<Longrightarrow> length r < length s"
proof -
  have i: "num_int t = Some (x, y) \<Longrightarrow> length y < length t" for t x y
    using length_dropWhile_le [of is_digit "tl t"]
    by (auto simp: num_int_def split: list.splits if_splits)
  have f: "num_frac t = Some (x, y) \<Longrightarrow> length y \<le> length t" for t x y
    using length_dropWhile_le [of is_digit "tl t"]
    by (auto simp: num_frac_def split: list.splits if_splits)
  have e: "num_exp t = Some (x, y) \<Longrightarrow> length y \<le> length t" for t x y
    using length_dropWhile_le [of is_digit "tl t"] length_dropWhile_le [of is_digit "tl (tl t)"]
    by (auto simp: num_exp_def Let_def split: list.splits if_splits)
  assume "parse_num s = Some (n, r)"
  then show ?thesis
    by (auto simp: parse_num_def Let_def split: option.splits prod.splits list.splits if_splits
        dest!: i f e)
qed

lemma parse_lit_shorter: "parse_lit w v s = Some (v', r) \<Longrightarrow> w \<noteq> [] \<Longrightarrow> length r < length s"
  by (cases s) (auto simp: parse_lit_def has_prefix_def split: if_splits)

lemmas parse_shorter_facts =
  parse_num_shorter parse_lit_shorter parse_str_shorter skip_ws_Cons_length

lemma parse_shorter:
  shows "parse_val f d s = Some (v, r) \<Longrightarrow> length r < length s"
    and "parse_elems f d s = Some (vs, r) \<Longrightarrow> length r < length s"
    and "parse_members f d s = Some (ms, r) \<Longrightarrow> length r < length s"
proof (induction f d s and f d s and f d s arbitrary: v r and vs r and ms r
       rule: parse_val_parse_elems_parse_members.induct)
  case (2 f d s)
  then show ?case
    by (auto split: list.splits if_splits dest!: parse_shorter_facts) fastforce+
next
  case (4 f d s)
  then show ?case
    by (auto split: list.splits if_splits option.splits dest!: parse_shorter_facts) fastforce+
next
  case (6 f d s)
  then show ?case
    by (auto split: list.splits if_splits option.splits dest!: parse_shorter_facts) fastforce+
qed simp_all

definition fuel_irrelevant :: "nat \<Rightarrow> nat \<Rightarrow> bool" where
  "fuel_irrelevant f g \<longleftrightarrow> (\<forall>d s.
     (2 * length s < f \<and> 2 * length s < g \<longrightarrow> parse_val f d s = parse_val g d s) \<and>
     (2 * length s + 1 < f \<and> 2 * length s + 1 < g \<longrightarrow> parse_elems f d s = parse_elems g d s) \<and>
     (2 * length s + 1 < f \<and> 2 * length s + 1 < g \<longrightarrow> parse_members f d s = parse_members g d s))"

lemma fuel_irrelevantD:
  assumes "fuel_irrelevant f g"
  shows "2 * length s < f \<Longrightarrow> 2 * length s < g \<Longrightarrow> parse_val f d s = parse_val g d s"
    and "2 * length s + 1 < f \<Longrightarrow> 2 * length s + 1 < g \<Longrightarrow> parse_elems f d s = parse_elems g d s"
    and "2 * length s + 1 < f \<Longrightarrow> 2 * length s + 1 < g \<Longrightarrow> parse_members f d s = parse_members g d s"
  using assms unfolding fuel_irrelevant_def by blast+

lemma fuel_val:
  assumes "fuel_irrelevant f g" and "2 * length s < Suc f" and "2 * length s < Suc g"
  shows "parse_val (Suc f) d s = parse_val (Suc g) d s"
proof -
  have "2 * length r + 1 < f \<and> 2 * length r + 1 < g" if "skip_ws s = c # r" for c r
    using skip_ws_Cons_length [OF that] assms(2,3) by linarith
  then have "parse_elems f d' r = parse_elems g d' r \<and> parse_members f d' r = parse_members g d' r"
    if "skip_ws s = c # r" for c r d'
    using that fuel_irrelevantD(2,3) [OF assms(1)] by blast
  then show ?thesis by (simp split: list.splits)
qed

lemma fuel_elems:
  assumes "fuel_irrelevant f g" and "2 * length s + 1 < Suc f" and "2 * length s + 1 < Suc g"
  shows "parse_elems (Suc f) d s = parse_elems (Suc g) d s"
proof -
  have v: "parse_val f d s = parse_val g d s"
    using fuel_irrelevantD(1) [OF assms(1)] assms(2,3) by simp
  have "parse_elems f d r' = parse_elems g d r'"
    if "parse_val g d s = Some (v, r)" and "skip_ws r = c # r'" for v r c r'
    using parse_shorter(1) [OF that(1)] skip_ws_Cons_length [OF that(2)]
      fuel_irrelevantD(2) [OF assms(1), of r' d] assms(2,3) by linarith
  then show ?thesis by (simp add: v split: option.splits list.splits)
qed

lemma fuel_members:
  assumes "fuel_irrelevant f g" and "2 * length s + 1 < Suc f" and "2 * length s + 1 < Suc g"
  shows "parse_members (Suc f) d s = parse_members (Suc g) d s"
proof -
  have v: "parse_val f d r2 = parse_val g d r2"
    if "skip_ws s = q # r0" "parse_str r0 = Some (k, r1)" "skip_ws r1 = c # r2" for q r0 k r1 c r2
    using skip_ws_Cons_length [OF that(1)] parse_str_shorter [OF that(2)] skip_ws_Cons_length [OF that(3)]
      fuel_irrelevantD(1) [OF assms(1), of r2 d] assms(2,3) by linarith
  have m: "parse_members f d r4 = parse_members g d r4"
    if "skip_ws s = q # r0" "parse_str r0 = Some (k, r1)" "skip_ws r1 = c # r2"
      "parse_val g d r2 = Some (v, r3)" "skip_ws r3 = c' # r4" for q r0 k r1 c r2 v r3 c' r4
    using skip_ws_Cons_length [OF that(1)] parse_str_shorter [OF that(2)] skip_ws_Cons_length [OF that(3)]
      parse_shorter(1) [OF that(4)] skip_ws_Cons_length [OF that(5)]
      fuel_irrelevantD(3) [OF assms(1), of r4 d] assms(2,3) by linarith
  show ?thesis
    using v m by (simp split: option.splits list.splits)
qed

lemma fuel_irrelevant_all: "fuel_irrelevant f g"
proof (induction f arbitrary: g)
  case 0
  then show ?case by (simp add: fuel_irrelevant_def)
next
  case (Suc f)
  show ?case
  proof (cases g)
    case 0
    then show ?thesis by (simp add: fuel_irrelevant_def)
  next
    case (Suc h)
    with Suc.IH [of h] show ?thesis
      unfolding fuel_irrelevant_def [of "Suc f"] using fuel_val fuel_elems fuel_members by blast
  qed
qed

lemma parse_fuel: "2 * length s < f \<Longrightarrow> parse_val f d s = parse_val (Suc (2 * length s)) d s"
  by (rule fuel_irrelevantD(1) [OF fuel_irrelevant_all]) simp_all

section \<open>Filling structs\<close>

text \<open>
  Member names are matched against field names exactly or up to case folding; two
  non-ASCII runes (the Kelvin sign and the long s) fold to ASCII letters.
\<close>

definition ascii_upper :: "char \<Rightarrow> char" where
  "ascii_upper c = (if 97 \<le> code c \<and> code c \<le> 122 then char_of (code c - 32) else c)"

fun fold_name :: "bytes \<Rightarrow> bytes" where
  "fold_name [] = []"
| "fold_name (c # s) =
     (if c = CHR 0xE2 \<and> take 2 s = [CHR 0x84, CHR 0xAA] then CHR ''K'' # fold_name (drop 2 s)
      else if c = CHR 0xC5 \<and> take 1 s = [CHR 0xBF] then CHR ''S'' # fold_name (drop 1 s)
      else ascii_upper c # fold_name s)"

definition dec_string :: "bytes \<Rightarrow> json \<Rightarrow> (string, bytes) result" where
  "dec_string old j = (case j of JStr s \<Rightarrow> Inr s | JNull \<Rightarrow> Inr old | _ \<Rightarrow> Inl ''type'')"

definition dec_int :: "int \<Rightarrow> json \<Rightarrow> (string, int) result" where
  "dec_int old j = (case j of
      JNum n \<Rightarrow> (case atoi n of Some i \<Rightarrow> Inr i | None \<Rightarrow> Inl ''type'')
    | JNull \<Rightarrow> Inr old
    | _ \<Rightarrow> Inl ''type'')"

text \<open>A Go \<open>map[string]string\<close> is kept as its entries in increasing key order.\<close>

type_synonym gomap = "(bytes \<times> bytes) list"

fun gput :: "bytes \<Rightarrow> bytes \<Rightarrow> gomap \<Rightarrow> gomap" where
  "gput k v [] = [(k, v)]"
| "gput k v ((k', v') # m) =
     (if k < k' then (k, v) # (k', v') # m
      else if k = k' then (k, v) # m
      else (k', v') # gput k v m)"

definition gomap_ok :: "gomap \<Rightarrow> bool" where
  "gomap_ok m \<longleftrightarrow> sorted_wrt (<) (map fst m)"

fun dec_map_members :: "gomap \<Rightarrow> (bytes \<times> json) list \<Rightarrow> (string, gomap) result" where
  "dec_map_members m [] = Inr m"
| "dec_map_members m ((k, j) # r) = rbind (dec_string [] j) (\<lambda>v. dec_map_members (gput k v m) r)"

definition dec_map :: "gomap \<Rightarrow> json \<Rightarrow> (string, gomap) result" where
  "dec_map old j = (case j of
      JObj ms \<Rightarrow> dec_map_members old ms
    | JNull \<Rightarrow> Inr []
    | _ \<Rightarrow> Inl ''type'')"

fun fill_members ::
  "('a \<Rightarrow> bytes \<Rightarrow> json \<Rightarrow> (string, 'a) result) \<Rightarrow> 'a \<Rightarrow> (bytes \<times> json) list \<Rightarrow> (string, 'a) result" where
  "fill_members setf a [] = Inr a"
| "fill_members setf a ((k, j) # r) = rbind (setf a k j) (\<lambda>a'. fill_members setf a' r)"

definition json_unmarshal ::
  "'a \<Rightarrow> ('a \<Rightarrow> bytes \<Rightarrow> json \<Rightarrow> (string, 'a) result) \<Rightarrow> bytes \<Rightarrow> (string, 'a) result" where
  "json_unmarshal zero setf b = (case json_parse b of
      None \<Rightarrow> Inl ''syntax''
    | Some JNull \<Rightarrow> Inr zero
    | Some (JObj ms) \<Rightarrow> fill_members setf zero ms
    | Some _ \<Rightarrow> Inl ''type'')"

lemma map_of_gput: "map_of (gput k v m) = (map_of m)(k \<mapsto> v)"
  by (induction k v m rule: gput.induct) (auto simp: fun_eq_iff)

lemma set_gput: "set (map fst (gput k v m)) = insert k (set (map fst m))"
  by (induction k v m rule: gput.induct) auto

lemma gomap_ok_gput: "gomap_ok m \<Longrightarrow> gomap_ok (gput k v m)"
  unfolding gomap_ok_def
proof (induction k v m rule: gput.induct)
  case (2 k v k' v' m)
  then show ?case using set_gput [of k v m] by auto
qed simp

lemma gput_last: "\<forall>k' \<in> set (map fst m). k' < k \<Longrightarrow> gput k v m = m @ [(k, v)]"
  by (induction k v m rule: gput.induct) auto

lemma dec_map_members_id:
  "gomap_ok (m @ e) \<Longrightarrow> dec_map_members m (map (\<lambda>(k, v). (k, JStr v)) e) = Inr (m @ e)"
proof (induction e arbitrary: m)
  case (Cons kv e)
  obtain k v where kv: "kv = (k, v)" by (cases kv)
  have "\<forall>k' \<in> set (map fst m). k' < k"
    using Cons.prems kv by (auto simp: gomap_ok_def sorted_wrt_append)
  then have "gput k v m = m @ [(k, v)]" by (rule gput_last)
  with Cons.IH [of "m @ [(k, v)]"] Cons.prems show ?case
    by (simp add: kv dec_string_def)
qed simp

end
