(* ===== verification/Protocol.thy ===== *)
theory Protocol
  imports Json
begin

unbundle bit_operations_syntax

text \<open>
  The wire format of \<open>internal/protocol/protocol.go\<close>: length-prefixed JSON frames.
  A message type is given to the framing functions by its codec (the two functions
  \<open>json.Marshal\<close> and \<open>json.Unmarshal\<close> at that type); the locale \<open>codec\<close> states what
  framing needs of it, and is interpreted on the codecs of \<open>ExecutionRequest\<close> and
  \<open>ResponseFrame\<close>. Writers are state transformers that may fail; readers are a finite
  byte stream followed by its end (end of file or an error).
\<close>

section \<open>Messages\<close>

definition MaxFrameSize :: nat where
  "MaxFrameSize = 16 * 2 ^ 20"

definition DefaultPort :: u32 where
  "DefaultPort = 5005"

definition KindExec :: string where "KindExec = ''exec''"
definition KindPing :: string where "KindPing = ''ping''"

record ExecutionRequest =
  er_ID :: string
  er_Kind :: string
  er_Script :: string
  er_TimeoutSec :: int
  er_Workdir :: string
  er_Env :: gomap

definition FrameOutput :: string where "FrameOutput = ''output''"
definition FrameExit :: string where "FrameExit = ''exit''"
definition FrameError :: string where "FrameError = ''error''"
definition FramePong :: string where "FramePong = ''pong''"

lemmas kind_defs = KindExec_def KindPing_def FrameOutput_def FrameExit_def FrameError_def FramePong_def

record ResponseFrame =
  rf_ID :: string
  rf_Kind :: string
  rf_Data :: string
  rf_ExitCode :: int
  rf_Error :: string

definition Terminal :: "ResponseFrame \<Rightarrow> bool" where
  "Terminal f \<longleftrightarrow> rf_Kind f = FrameExit \<or> rf_Kind f = FrameError \<or> rf_Kind f = FramePong"

text \<open>Zero values, and frames with only the fields of one kind set.\<close>

definition zeroRequest :: ExecutionRequest where
  "zeroRequest = \<lparr>er_ID = [], er_Kind = [], er_Script = [], er_TimeoutSec = 0, er_Workdir = [], er_Env = []\<rparr>"

definition zeroFrame :: ResponseFrame where
  "zeroFrame = \<lparr>rf_ID = [], rf_Kind = [], rf_Data = [], rf_ExitCode = 0, rf_Error = []\<rparr>"

section \<open>The JSON codecs of the two message types\<close>

definition omit_str :: "bytes \<Rightarrow> bytes \<Rightarrow> (bytes \<times> json) list" where
  \<comment> \<open>a string field with \<open>omitempty\<close>\<close>
  "omit_str k s = (if s = [] then [] else [(k, JStr s)])"

definition omit_int :: "bytes \<Rightarrow> int \<Rightarrow> (bytes \<times> json) list" where
  "omit_int k i = (if i = 0 then [] else [(k, JNum (itoa i))])"

definition omit_map :: "bytes \<Rightarrow> gomap \<Rightarrow> (bytes \<times> json) list" where
  "omit_map k m = (if m = [] then [] else [(k, JObj (map (\<lambda>(x, v). (x, JStr v)) m))])"

definition requestJSON :: "ExecutionRequest \<Rightarrow> json" where
  "requestJSON r = JObj ((''id'', JStr (er_ID r)) # omit_str ''kind'' (er_Kind r)
      @ omit_str ''script'' (er_Script r) @ omit_int ''timeout_sec'' (er_TimeoutSec r)
      @ omit_str ''workdir'' (er_Workdir r) @ omit_map ''env'' (er_Env r))"

definition frameJSON :: "ResponseFrame \<Rightarrow> json" where
  "frameJSON f = JObj ((''id'', JStr (rf_ID f)) # (''kind'', JStr (rf_Kind f))
      # omit_str ''data'' (rf_Data f) @ omit_int ''exit_code'' (rf_ExitCode f)
      @ omit_str ''error'' (rf_Error f))"

definition set_request :: "ExecutionRequest \<Rightarrow> bytes \<Rightarrow> json \<Rightarrow> (string, ExecutionRequest) result" where
  "set_request r k j =
     (let n = fold_name k in
      if n = ''ID'' then rbind (dec_string (er_ID r) j) (\<lambda>v. Inr (r\<lparr>er_ID := v\<rparr>))
      else if n = ''KIND'' then rbind (dec_string (er_Kind r) j) (\<lambda>v. Inr (r\<lparr>er_Kind := v\<rparr>))
      else if n = ''SCRIPT'' then rbind (dec_string (er_Script r) j) (\<lambda>v. Inr (r\<lparr>er_Script := v\<rparr>))
      else if n = ''TIMEOUT_SEC'' then rbind (dec_int (er_TimeoutSec r) j) (\<lambda>v. Inr (r\<lparr>er_TimeoutSec := v\<rparr>))
      else if n = ''WORKDIR'' then rbind (dec_string (er_Workdir r) j) (\<lambda>v. Inr (r\<lparr>er_Workdir := v\<rparr>))
      else if n = ''ENV'' then rbind (dec_map (er_Env r) j) (\<lambda>v. Inr (r\<lparr>er_Env := v\<rparr>))
      else Inr r)"

definition set_frame :: "ResponseFrame \<Rightarrow> bytes \<Rightarrow> json \<Rightarrow> (string, ResponseFrame) result" where
  "set_frame f k j =
     (let n = fold_name k in
      if n = ''ID'' then rbind (dec_string (rf_ID f) j) (\<lambda>v. Inr (f\<lparr>rf_ID := v\<rparr>))
      else if n = ''KIND'' then rbind (dec_string (rf_Kind f) j) (\<lambda>v. Inr (f\<lparr>rf_Kind := v\<rparr>))
      else if n = ''DATA'' then rbind (dec_string (rf_Data f) j) (\<lambda>v. Inr (f\<lparr>rf_Data := v\<rparr>))
      else if n = ''EXIT_CODE'' then rbind (dec_int (rf_ExitCode f) j) (\<lambda>v. Inr (f\<lparr>rf_ExitCode := v\<rparr>))
      else if n = ''ERROR'' then rbind (dec_string (rf_Error f) j) (\<lambda>v. Inr (f\<lparr>rf_Error := v\<rparr>))
      else Inr f)"

definition marshalRequest :: "ExecutionRequest \<Rightarrow> (string, bytes) result" where
  "marshalRequest r = Inr (jprint (requestJSON r))"

definition unmarshalRequest :: "bytes \<Rightarrow> (string, ExecutionRequest) result" where
  "unmarshalRequest b = json_unmarshal zeroRequest set_request b"

definition marshalFrame :: "ResponseFrame \<Rightarrow> (string, bytes) result" where
  "marshalFrame f = Inr (jprint (frameJSON f))"

definition unmarshalFrame :: "bytes \<Rightarrow> (string, ResponseFrame) result" where
  "unmarshalFrame b = json_unmarshal zeroFrame set_frame b"

text \<open>What a value is after one trip: invalid UTF-8 bytes become U+FFFD.\<close>

definition norm_env :: "gomap \<Rightarrow> gomap" where
  "norm_env m = fold (\<lambda>(k, v). gput (to_valid k) (to_valid v)) m []"

definition normRequest :: "ExecutionRequest \<Rightarrow> ExecutionRequest" where
  "normRequest r = r\<lparr>er_ID := to_valid (er_ID r), er_Kind := to_valid (er_Kind r),
     er_Script := to_valid (er_Script r), er_Workdir := to_valid (er_Workdir r),
     er_Env := norm_env (er_Env r)\<rparr>"

definition normFrame :: "ResponseFrame \<Rightarrow> ResponseFrame" where
  "normFrame f = f\<lparr>rf_ID := to_valid (rf_ID f), rf_Kind := to_valid (rf_Kind f),
     rf_Data := to_valid (rf_Data f), rf_Error := to_valid (rf_Error f)\<rparr>"

text \<open>Go's typing of the values: an \<open>int\<close> has 64 bits.\<close>

definition request_ok :: "ExecutionRequest \<Rightarrow> bool" where
  "request_ok r \<longleftrightarrow> int64_range (er_TimeoutSec r)"

definition frame_ok :: "ResponseFrame \<Rightarrow> bool" where
  "frame_ok f \<longleftrightarrow> int64_range (rf_ExitCode f)"

lemma fill_members_append:
  "fill_members setf a (xs @ ys) = rbind (fill_members setf a xs) (\<lambda>a'. fill_members setf a' ys)"
  by (induction setf a xs rule: fill_members.induct) (auto simp: rbind_def split: sum.splits)

lemma jsan_members_append: "jsan_members (xs @ ys) = jsan_members xs @ jsan_members ys"
  by (induction xs) auto

lemma jwf_members_append: "jwf_members (xs @ ys) \<longleftrightarrow> jwf_members xs \<and> jwf_members ys"
  by (induction xs) auto

lemma jdepth_members_append:
  "jdepth_members (xs @ ys) = max (jdepth_members xs) (jdepth_members ys)"
  by (induction xs) auto

lemma to_valid_Nil [simp]: "to_valid [] = []"
  by (simp add: to_valid_def)

lemma env_members [simp]:
  "jwf_members (map (\<lambda>(x, v). (x, JStr v)) m)"
  "jdepth_members (map (\<lambda>(x, v). (x, JStr v)) m) = 0"
  "jsan_members (map (\<lambda>(x, v). (x, JStr v)) m) = map (\<lambda>(x, v). (to_valid x, JStr (to_valid v))) m"
  by (induction m) auto

lemma dec_env:
  "dec_map_members acc (map (\<lambda>(x, v). (to_valid x, JStr (to_valid v))) m)
   = Inr (fold (\<lambda>(k, v). gput (to_valid k) (to_valid v)) m acc)"
  by (induction m arbitrary: acc) (auto simp: dec_string_def)

lemmas omit_defs = omit_str_def omit_int_def omit_map_def
lemmas member_appends = fill_members_append jsan_members_append jwf_members_append jdepth_members_append

lemma fold_names:
  "fold_name ''id'' = ''ID''" "fold_name ''kind'' = ''KIND''" "fold_name ''script'' = ''SCRIPT''"
  "fold_name ''timeout_sec'' = ''TIMEOUT_SEC''" "fold_name ''workdir'' = ''WORKDIR''"
  "fold_name ''env'' = ''ENV''" "fold_name ''data'' = ''DATA''"
  "fold_name ''exit_code'' = ''EXIT_CODE''" "fold_name ''error'' = ''ERROR''"
  by code_simp+

lemma valid_names:
  "to_valid ''id'' = ''id''" "to_valid ''kind'' = ''kind''" "to_valid ''script'' = ''script''"
  "to_valid ''timeout_sec'' = ''timeout_sec''" "to_valid ''workdir'' = ''workdir''"
  "to_valid ''env'' = ''env''" "to_valid ''data'' = ''data''"
  "to_valid ''exit_code'' = ''exit_code''" "to_valid ''error'' = ''error''"
  by (auto intro!: to_valid_id ascii_valid_utf8 simp: code_def)

lemma set_frame_simps:
  "set_frame f ''id'' (JStr s) = Inr (f\<lparr>rf_ID := s\<rparr>)"
  "set_frame f ''kind'' (JStr s) = Inr (f\<lparr>rf_Kind := s\<rparr>)"
  "set_frame f ''data'' (JStr s) = Inr (f\<lparr>rf_Data := s\<rparr>)"
  "int64_range i \<Longrightarrow> set_frame f ''exit_code'' (JNum (itoa i)) = Inr (f\<lparr>rf_ExitCode := i\<rparr>)"
  "set_frame f ''error'' (JStr s) = Inr (f\<lparr>rf_Error := s\<rparr>)"
  unfolding set_frame_def fold_names by (simp_all add: dec_string_def dec_int_def atoi_itoa)

lemma set_request_simps:
  "set_request r ''id'' (JStr s) = Inr (r\<lparr>er_ID := s\<rparr>)"
  "set_request r ''kind'' (JStr s) = Inr (r\<lparr>er_Kind := s\<rparr>)"
  "set_request r ''script'' (JStr s) = Inr (r\<lparr>er_Script := s\<rparr>)"
  "int64_range i \<Longrightarrow> set_request r ''timeout_sec'' (JNum (itoa i)) = Inr (r\<lparr>er_TimeoutSec := i\<rparr>)"
  "set_request r ''workdir'' (JStr s) = Inr (r\<lparr>er_Workdir := s\<rparr>)"
  "set_request r ''env'' (JObj ms) = rbind (dec_map_members (er_Env r) ms) (\<lambda>v. Inr (r\<lparr>er_Env := v\<rparr>))"
  unfolding set_request_def fold_names by (simp_all add: dec_string_def dec_int_def dec_map_def atoi_itoa)

lemma unmarshal_marshal_frame:
  assumes "frame_ok f"
  shows "unmarshalFrame (jprint (frameJSON f)) = Inr (normFrame f)"
proof -
  have "jwf (frameJSON f)" "jdepth (frameJSON f) \<le> maxNestingDepth"
    by (auto simp: frameJSON_def omit_defs maxNestingDepth_def)
  then have "json_parse (jprint (frameJSON f)) = Some (jsan (frameJSON f))"
    by (rule json_parse_print)
  moreover have "jsan (frameJSON f) = JObj (jsan_members (case frameJSON f of JObj ms \<Rightarrow> ms | _ \<Rightarrow> []))"
    by (simp add: frameJSON_def)
  moreover have "fill_members set_frame zeroFrame (jsan_members (case frameJSON f of JObj ms \<Rightarrow> ms | _ \<Rightarrow> []))
      = Inr (normFrame f)"
    using assms by (simp add: frameJSON_def omit_defs member_appends set_frame_simps valid_names
        zeroFrame_def normFrame_def frame_ok_def)
  ultimately show ?thesis
    by (simp add: unmarshalFrame_def json_unmarshal_def)
qed

lemma unmarshal_marshal_request:
  assumes "request_ok r"
  shows "unmarshalRequest (jprint (requestJSON r)) = Inr (normRequest r)"
proof -
  have "jwf (requestJSON r)" "jdepth (requestJSON r) \<le> maxNestingDepth"
    by (auto simp: requestJSON_def omit_defs maxNestingDepth_def)
  then have "json_parse (jprint (requestJSON r)) = Some (jsan (requestJSON r))"
    by (rule json_parse_print)
  moreover have "jsan (requestJSON r) = JObj (jsan_members (case requestJSON r of JObj ms \<Rightarrow> ms | _ \<Rightarrow> []))"
    by (simp add: requestJSON_def)
  moreover have "fill_members set_request zeroRequest (jsan_members (case requestJSON r of JObj ms \<Rightarrow> ms | _ \<Rightarrow> []))
      = Inr (normRequest r)"
    using assms by (simp add: requestJSON_def omit_defs member_appends set_request_simps valid_names
        dec_env zeroRequest_def normRequest_def norm_env_def request_ok_def)
  ultimately show ?thesis
    by (simp add: unmarshalRequest_def json_unmarshal_def)
qed

section \<open>Byte order\<close>

definition PutUint32 :: "u32 \<Rightarrow> bytes" where
  \<comment> \<open>\<open>binary.BigEndian.PutUint32\<close>: the four bytes, most significant first\<close>
  "PutUint32 v = map (\<lambda>k. char_of (uint (drop_bit k v))) [24, 16, 8, 0]"

definition Uint32 :: "bytes \<Rightarrow> u32" where
  \<comment> \<open>\<open>binary.BigEndian.Uint32\<close> on four bytes\<close>
  "Uint32 b = (case b of
      [b0, b1, b2, b3] \<Rightarrow>
        of_char b3 OR push_bit 8 (of_char b2) OR push_bit 16 (of_char b1) OR push_bit 24 (of_char b0)
    | _ \<Rightarrow> 0)"

lemma length_PutUint32 [simp]: "length (PutUint32 v) = 4"
  by (simp add: PutUint32_def)

lemma PutUint32_not_Nil [simp]: "PutUint32 v \<noteq> []"
  by (simp add: PutUint32_def)

lemma Uint32_PutUint32: "Uint32 (PutUint32 v) = v"
proof -
  have oc: "(of_char (char_of (uint w)) :: u32) = take_bit 8 w" for w :: u32
  proof -
    have "(of_char (char_of (uint w)) :: int) = take_bit 8 (uint w)"
      by (simp add: take_bit_eq_mod)
    also have "\<dots> = uint (take_bit 8 w)" by (simp only: unsigned_take_bit_eq)
    finally have "word_of_int (of_char (char_of (uint w))) = take_bit 8 w"
      by (simp only: word_of_int_uint)
    then show ?thesis by (simp only: of_int_of_char)
  qed
  show ?thesis
  proof (rule bit_word_eqI)
    fix n :: nat
    assume "n < LENGTH(32)"
    then consider "n < 8" | "8 \<le> n" "n < 16" | "16 \<le> n" "n < 24" | "24 \<le> n" "n < 32"
      by fastforce
    then show "bit (Uint32 (PutUint32 v)) n = bit v n"
      by cases (auto simp: Uint32_def PutUint32_def oc bit_simps)
  qed
qed

section \<open>Framing\<close>

datatype wire_error =
    EOF
  | UnexpectedEOF
  | IOError string
  | ErrFrameTooLarge
  | MarshalError string
  | WriteHeader string
  | WritePayload string
  | ReadPayload wire_error
  | UnmarshalError string

text \<open>
  A writer takes bytes and a state to an optional error and the new state.
  \<open>bytes.Buffer\<close> appends and never fails.
\<close>

type_synonym 'w writer = "bytes \<Rightarrow> 'w \<Rightarrow> string option \<times> 'w"

definition buf_write :: "bytes writer" where
  "buf_write b w = (None, w @ b)"

definition WriteMessage ::
  "('v \<Rightarrow> (string, bytes) result) \<Rightarrow> 'w writer \<Rightarrow> 'w \<Rightarrow> 'v \<Rightarrow> wire_error option \<times> 'w" where
  "WriteMessage marshal wr w v = (case marshal v of
      Inl e \<Rightarrow> (Some (MarshalError e), w)
    | Inr payload \<Rightarrow>
       (if length payload > MaxFrameSize then (Some ErrFrameTooLarge, w)
        else case wr (PutUint32 (of_nat (length payload))) w of
          (Some e, w1) \<Rightarrow> (Some (WriteHeader e), w1)
        | (None, w1) \<Rightarrow> (case wr payload w1 of
             (Some e, w2) \<Rightarrow> (Some (WritePayload e), w2)
           | (None, w2) \<Rightarrow> (None, w2))))"

text \<open>A reader: the bytes that will still arrive, and what ends the stream.\<close>

record reader =
  rd_buf :: bytes
  rd_end :: "string option"

definition ReadFull :: "nat \<Rightarrow> reader \<Rightarrow> (wire_error, bytes) result \<times> reader" where
  \<comment> \<open>\<open>io.ReadFull\<close>: exactly \<open>n\<close> bytes, or \<open>EOF\<close> if none came, or \<open>UnexpectedEOF\<close>\<close>
  "ReadFull n r =
     (if n \<le> length (rd_buf r) then (Inr (take n (rd_buf r)), r\<lparr>rd_buf := drop n (rd_buf r)\<rparr>)
      else (Inl (case rd_end r of
                   Some e \<Rightarrow> IOError e
                 | None \<Rightarrow> if rd_buf r = [] then EOF else UnexpectedEOF),
            r\<lparr>rd_buf := []\<rparr>))"

definition ReadMessage ::
  "(bytes \<Rightarrow> (string, 'v) result) \<Rightarrow> reader \<Rightarrow> (wire_error, 'v) result \<times> reader" where
  "ReadMessage unmarshal r = (case ReadFull 4 r of
      (Inl e, r1) \<Rightarrow> (Inl e, r1)
    | (Inr hdr, r1) \<Rightarrow>
       (let n = unat (Uint32 hdr) in
        if n > MaxFrameSize then (Inl ErrFrameTooLarge, r1)
        else case ReadFull n r1 of
          (Inl e, r2) \<Rightarrow> (Inl (ReadPayload e), r2)
        | (Inr payload, r2) \<Rightarrow> (case unmarshal payload of
             Inl e \<Rightarrow> (Inl (UnmarshalError e), r2)
           | Inr v \<Rightarrow> (Inr v, r2))))"

text \<open>
  \<open>FrameWriter.Write\<close> holds the mutex across header and payload, so the writes of
  several goroutines happen one whole frame after the other, in lock order.
\<close>

definition FrameWriter_Write ::
  "('v \<Rightarrow> (string, bytes) result) \<Rightarrow> 'w writer \<Rightarrow> 'v \<Rightarrow> 'w \<Rightarrow> wire_error option \<times> 'w" where
  "FrameWriter_Write marshal wr v w = WriteMessage marshal wr w v"

fun write_frames :: "('v \<Rightarrow> (string, bytes) result) \<Rightarrow> 'w writer \<Rightarrow> 'v list \<Rightarrow> 'w \<Rightarrow> wire_error option \<times> 'w" where
  "write_frames marshal wr [] w = (None, w)"
| "write_frames marshal wr (v # vs) w = (case FrameWriter_Write marshal wr v w of
      (Some e, w1) \<Rightarrow> (Some e, w1)
    | (None, w1) \<Rightarrow> write_frames marshal wr vs w1)"

text \<open>Reading messages until the first error, as a client's receive loop does.\<close>

fun read_frames :: "nat \<Rightarrow> (bytes \<Rightarrow> (string, 'v) result) \<Rightarrow> reader \<Rightarrow> 'v list \<times> wire_error option" where
  "read_frames 0 unmarshal r = ([], None)"
| "read_frames (Suc n) unmarshal r = (case ReadMessage unmarshal r of
      (Inl e, r1) \<Rightarrow> ([], Some e)
    | (Inr v, r1) \<Rightarrow> map_prod ((#) v) id (read_frames n unmarshal r1))"

section \<open>What framing needs of a codec\<close>

text \<open>The bytes of one frame.\<close>

definition frame_bytes :: "bytes \<Rightarrow> bytes" where
  "frame_bytes payload = PutUint32 (of_nat (length payload)) @ payload"

lemma unat_frame_length:
  "length payload \<le> MaxFrameSize \<Longrightarrow> unat (of_nat (length payload) :: u32) = length payload"
  by (simp add: unat_of_nat MaxFrameSize_def)

lemma WriteMessage_buf:
  assumes "marshal v = Inr p"
  shows "WriteMessage marshal buf_write w v =
    (if length p > MaxFrameSize then (Some ErrFrameTooLarge, w) else (None, w @ frame_bytes p))"
  using assms by (simp add: WriteMessage_def buf_write_def frame_bytes_def)

lemma ReadMessage_frame_bytes:
  assumes "length p \<le> MaxFrameSize" and "unmarshal p = Inr v"
  shows "ReadMessage unmarshal \<lparr>rd_buf = frame_bytes p @ rest, rd_end = e\<rparr>
    = (Inr v, \<lparr>rd_buf = rest, rd_end = e\<rparr>)"
  using assms
  by (simp add: ReadMessage_def ReadFull_def frame_bytes_def Uint32_PutUint32 unat_frame_length)

text \<open>
  A codec: marshalling never fails, and unmarshalling what was marshalled from a
  well-typed value gives the value up to \<open>norm\<close>.
\<close>

locale codec =
  fixes marshal :: "'v \<Rightarrow> (string, bytes) result"
    and unmarshal :: "bytes \<Rightarrow> (string, 'v) result"
    and norm :: "'v \<Rightarrow> 'v"
    and typed :: "'v \<Rightarrow> bool"
  assumes marshal_total: "\<exists>p. marshal v = Inr p"
    and unmarshal_marshal: "typed v \<Longrightarrow> marshal v = Inr p \<Longrightarrow> unmarshal p = Inr (norm v)"
begin

lemma write_buf_cases:
  obtains p where "marshal v = Inr p" "length p > MaxFrameSize"
      "WriteMessage marshal buf_write w v = (Some ErrFrameTooLarge, w)"
  | p where "marshal v = Inr p" "length p \<le> MaxFrameSize"
      "WriteMessage marshal buf_write w v = (None, w @ frame_bytes p)"
  using marshal_total [of v] WriteMessage_buf [of marshal v _ w] by (metis not_le)

lemma read_written:
  assumes "typed v" and "WriteMessage marshal buf_write w v = (None, w')"
  shows "\<exists>b. w' = w @ b \<and> (\<forall>rest e.
    ReadMessage unmarshal \<lparr>rd_buf = b @ rest, rd_end = e\<rparr> = (Inr (norm v), \<lparr>rd_buf = rest, rd_end = e\<rparr>))"
proof (cases rule: write_buf_cases [of v w])
  case (1 p)
  with assms(2) show ?thesis by simp
next
  case (2 p)
  then have "unmarshal p = Inr (norm v)" using assms(1) unmarshal_marshal by blast
  with 2 assms(2) show ?thesis
    using ReadMessage_frame_bytes [OF 2(2)] by auto
qed

lemma read_frames_written:
  assumes "\<forall>v \<in> set vs. typed v" and "write_frames marshal buf_write vs w = (None, w')"
  shows "\<exists>b. w' = w @ b \<and>
    read_frames (Suc (length vs)) unmarshal \<lparr>rd_buf = b, rd_end = None\<rparr> = (map norm vs, Some EOF)"
  using assms
proof (induction vs arbitrary: w)
  case Nil
  then show ?case by (simp add: ReadMessage_def ReadFull_def)
next
  case (Cons v vs)
  from Cons.prems obtain w1 where w1: "WriteMessage marshal buf_write w v = (None, w1)"
      "write_frames marshal buf_write vs w1 = (None, w')"
    by (auto simp: FrameWriter_Write_def split: prod.splits option.splits)
  with Cons.prems read_written [of v w w1] obtain b where b: "w1 = w @ b"
    "\<And>rest e. ReadMessage unmarshal \<lparr>rd_buf = b @ rest, rd_end = e\<rparr> = (Inr (norm v), \<lparr>rd_buf = rest, rd_end = e\<rparr>)"
    by auto
  from Cons.IH [OF _ w1(2)] Cons.prems obtain b' where "w' = w1 @ b'"
    "read_frames (Suc (length vs)) unmarshal \<lparr>rd_buf = b', rd_end = None\<rparr> = (map norm vs, Some EOF)"
    by auto
  with b show ?case by (intro exI [of _ "b @ b'"]) simp
qed

end

interpretation frame_codec: codec marshalFrame unmarshalFrame normFrame frame_ok
  by unfold_locales (auto simp: marshalFrame_def unmarshal_marshal_frame)

interpretation request_codec: codec marshalRequest unmarshalRequest normRequest request_ok
  by unfold_locales (auto simp: marshalRequest_def unmarshal_marshal_request)

section \<open>Properties of the wire format\<close>

definition frame_utf8 :: "ResponseFrame \<Rightarrow> bool" where
  "frame_utf8 f \<longleftrightarrow> valid_utf8 (rf_ID f) \<and> valid_utf8 (rf_Kind f) \<and> valid_utf8 (rf_Data f) \<and> valid_utf8 (rf_Error f)"

definition request_utf8 :: "ExecutionRequest \<Rightarrow> bool" where
  "request_utf8 r \<longleftrightarrow> valid_utf8 (er_ID r) \<and> valid_utf8 (er_Kind r) \<and> valid_utf8 (er_Script r) \<and>
     valid_utf8 (er_Workdir r) \<and> gomap_ok (er_Env r) \<and>
     (\<forall>(k, v) \<in> set (er_Env r). valid_utf8 k \<and> valid_utf8 v)"

lemma normFrame_id: "frame_utf8 f \<Longrightarrow> normFrame f = f"
  by (simp add: normFrame_def frame_utf8_def to_valid_id)

lemma norm_env_id:
  assumes "gomap_ok m" and "\<forall>(k, v) \<in> set m. valid_utf8 k \<and> valid_utf8 v"
  shows "norm_env m = m"
proof -
  have "Inr (norm_env m) = dec_map_members [] (map (\<lambda>(x, v). (to_valid x, JStr (to_valid v))) m)"
    by (simp add: dec_env norm_env_def)
  also have "\<dots> = dec_map_members [] (map (\<lambda>(x, v). (x, JStr v)) m)"
    using assms(2) by (intro arg_cong [where f = "dec_map_members []"] map_cong) (auto simp: to_valid_id)
  also have "\<dots> = Inr m" using dec_map_members_id [of "[]" m] assms(1) by simp
  finally show ?thesis by simp
qed

lemma normRequest_id: "request_utf8 r \<Longrightarrow> normRequest r = r"
  by (simp add: normRequest_def request_utf8_def to_valid_id norm_env_id)

text \<open>
  C9: Frames written one after the other through a \<open>FrameWriter\<close> (whatever goroutines
  they come from, in lock order) are read back by \<open>ReadMessage\<close> as exactly the same
  sequence of response frames, followed by a clean end of file. The frames may hold any
  bytes; each invalid UTF-8 byte arrives as U+FFFD, and a frame of valid UTF-8 arrives
  unchanged.
\<close>

theorem response_stream_roundtrip:
  assumes "\<forall>f \<in> set fs. frame_ok f"
    and "write_frames marshalFrame buf_write fs w = (None, w')"
  shows "\<exists>b. w' = w @ b \<and>
      read_frames (Suc (length fs)) unmarshalFrame \<lparr>rd_buf = b, rd_end = None\<rparr> = (map normFrame fs, Some EOF) \<and>
      ((\<forall>f \<in> set fs. frame_utf8 f) \<longrightarrow> map normFrame fs = fs)"
  using frame_codec.read_frames_written [OF assms] by (auto simp: map_idI normFrame_id)

definition exFrames :: "ResponseFrame list" where
  "exFrames = [zeroFrame\<lparr>rf_ID := ''1'', rf_Kind := FrameOutput, rf_Data := ''hi''\<rparr>,
     zeroFrame\<lparr>rf_ID := ''1'', rf_Kind := FrameExit, rf_ExitCode := 7\<rparr>]"

lemma exFrames_ok: "\<forall>f \<in> set exFrames. frame_ok f \<and> frame_utf8 f"
  by (auto simp: exFrames_def frame_ok_def frame_utf8_def int64_range_def zeroFrame_def kind_defs
      code_def intro!: ascii_valid_utf8)

lemma exFrames_short: "list_all (\<lambda>f. length (jprint (frameJSON f)) \<le> 64) exFrames"
  by code_simp

lemma exFrames_written: "\<exists>w. write_frames marshalFrame buf_write exFrames [] = (None, w)"
proof -
  have "write_frames marshalFrame buf_write fs w
      = (None, w @ concat (map (\<lambda>f. frame_bytes (jprint (frameJSON f))) fs))"
    if "list_all (\<lambda>f. length (jprint (frameJSON f)) \<le> 64) fs" for fs w
    using that
    by (induction fs arbitrary: w)
      (auto simp: FrameWriter_Write_def WriteMessage_buf [where p = "jprint (frameJSON _)"]
        marshalFrame_def MaxFrameSize_def)
  with exFrames_short show ?thesis by blast
qed

theorem response_stream_roundtrip_witness:
  "\<exists>b. read_frames (Suc (length exFrames)) unmarshalFrame \<lparr>rd_buf = b, rd_end = None\<rparr> = (exFrames, Some EOF)"
proof -
  obtain w where "write_frames marshalFrame buf_write exFrames [] = (None, w)"
    using exFrames_written by blast
  from response_stream_roundtrip [OF _ this] exFrames_ok show ?thesis by auto
qed

text \<open>
  A request the host sends arrives in the guest as the same request: what
  \<open>WriteMessage\<close> put on the connection, \<open>ReadMessage\<close> takes off it again, leaving the
  bytes behind it untouched.
\<close>

theorem request_roundtrip:
  assumes "request_ok r" and "request_utf8 r"
    and "WriteMessage marshalRequest buf_write w r = (None, w')"
  shows "\<exists>b. w' = w @ b \<and>
      ReadMessage unmarshalRequest \<lparr>rd_buf = b @ rest, rd_end = e\<rparr> = (Inr r, \<lparr>rd_buf = rest, rd_end = e\<rparr>)"
  using request_codec.read_written [OF assms(1,3)] normRequest_id [OF assms(2)] by auto

definition exRequest :: ExecutionRequest where
  "exRequest = zeroRequest\<lparr>er_ID := ''req-1'', er_Kind := KindExec, er_Script := ''echo hello && ls'',
     er_TimeoutSec := 5, er_Workdir := ''/workspace'', er_Env := [(''FOO'', ''bar'')]\<rparr>"

lemma exRequest_written: "\<exists>w. WriteMessage marshalRequest buf_write [] exRequest = (None, w)"
proof -
  have "length (jprint (requestJSON exRequest)) \<le> 150" by code_simp
  then show ?thesis
    by (simp add: WriteMessage_buf [where p = "jprint (requestJSON _)"] marshalRequest_def MaxFrameSize_def)
qed

theorem request_roundtrip_witness:
  "\<exists>b. ReadMessage unmarshalRequest \<lparr>rd_buf = b @ ''tail'', rd_end = None\<rparr>
      = (Inr exRequest, \<lparr>rd_buf = ''tail'', rd_end = None\<rparr>)"
proof -
  obtain w where w: "WriteMessage marshalRequest buf_write [] exRequest = (None, w)"
    using exRequest_written by blast
  have "request_ok exRequest" and "request_utf8 exRequest"
    by (auto simp: exRequest_def zeroRequest_def request_ok_def request_utf8_def int64_range_def kind_defs
        gomap_ok_def code_def intro!: ascii_valid_utf8)
  from request_roundtrip [OF this w, of "''tail''" None] show ?thesis by blast
qed

text \<open>
  C10: The frame cap holds on both sides. \<open>WriteMessage\<close> refuses a payload above
  \<open>MaxFrameSize\<close> and writes nothing, whatever the writer does; \<open>ReadMessage\<close> refuses a
  header announcing more than \<open>MaxFrameSize\<close> bytes after consuming the four header
  bytes only, whatever follows them; and every message it accepts was announced with at
  most \<open>MaxFrameSize\<close> payload bytes.
\<close>

theorem frame_size_capped:
  "(marshal v = Inr p \<and> length p > MaxFrameSize \<longrightarrow>
      WriteMessage marshal wr w v = (Some ErrFrameTooLarge, w)) \<and>
   (length hdr = 4 \<and> unat (Uint32 hdr) > MaxFrameSize \<longrightarrow>
      ReadMessage unmarshal \<lparr>rd_buf = hdr @ rest, rd_end = e\<rparr>
        = (Inl ErrFrameTooLarge, \<lparr>rd_buf = rest, rd_end = e\<rparr>)) \<and>
   (ReadMessage unmarshal r = (Inr x, r') \<longrightarrow>
      (\<exists>n \<le> MaxFrameSize. rd_buf r' = drop (4 + n) (rd_buf r) \<and> 4 + n \<le> length (rd_buf r)
         \<and> unmarshal (take n (drop 4 (rd_buf r))) = Inr x))"
proof (intro conjI impI)
  assume "ReadMessage unmarshal r = (Inr x, r')"
  then show "\<exists>n \<le> MaxFrameSize. rd_buf r' = drop (4 + n) (rd_buf r) \<and> 4 + n \<le> length (rd_buf r)
         \<and> unmarshal (take n (drop 4 (rd_buf r))) = Inr x"
    by (intro exI [of _ "unat (Uint32 (take 4 (rd_buf r)))"])
      (auto simp: ReadMessage_def ReadFull_def Let_def add.commute split: prod.splits sum.splits if_splits)
qed (simp_all add: WriteMessage_def ReadMessage_def ReadFull_def)

theorem frame_size_capped_witness:
  "WriteMessage (\<lambda>_. Inr (replicate (16 * 2 ^ 20 + 1) CHR ''x'')) buf_write ''old'' ()
     = (Some ErrFrameTooLarge, ''old'') \<and>
   ReadMessage unmarshalFrame \<lparr>rd_buf = [CHR 0x01, CHR 0x00, CHR 0x00, CHR 0x01] @ ''rest'', rd_end = None\<rparr>
     = (Inl ErrFrameTooLarge, \<lparr>rd_buf = ''rest'', rd_end = None\<rparr>)"
proof -
  have "length (replicate (16 * 2 ^ 20 + 1) CHR ''x'') > MaxFrameSize"
    unfolding length_replicate MaxFrameSize_def by simp
  moreover have "Uint32 [CHR 0x01, CHR 0x00, CHR 0x00, CHR 0x01] = 16777217"
    by (simp add: Uint32_def)
  ultimately show ?thesis
    using frame_size_capped
      [where marshal = "\<lambda>_. Inr (replicate (16 * 2 ^ 20 + 1) CHR ''x'')" and wr = buf_write
         and p = "replicate (16 * 2 ^ 20 + 1) CHR ''x''" and w = "''old''" and v = "()"
         and hdr = "[CHR 0x01, CHR 0x00, CHR 0x00, CHR 0x01]" and rest = "''rest''" and e = None
         and unmarshal = unmarshalFrame]
    by (simp add: MaxFrameSize_def del: replicate.simps)
qed

text \<open>
  A frame cut short is never taken for a message. On any strict prefix of a frame
  \<open>ReadMessage\<close> fails: with a bare \<open>EOF\<close> when nothing arrived, with
  \<open>UnexpectedEOF\<close> inside the header, and with the wrapped error of the payload read
  after it.
\<close>

theorem truncated_frame_refused:
  assumes "length p \<le> MaxFrameSize" and "k < length (frame_bytes p)"
  shows "fst (ReadMessage unmarshal \<lparr>rd_buf = take k (frame_bytes p), rd_end = None\<rparr>) =
    Inl (if k = 0 then EOF else if k < 4 then UnexpectedEOF
         else if k = 4 then ReadPayload EOF else ReadPayload UnexpectedEOF)"
proof (cases "k < 4")
  case True
  then show ?thesis by (auto simp: ReadMessage_def ReadFull_def frame_bytes_def)
next
  case False
  with assms(2) have "\<not> length p \<le> k - 4" by (simp add: frame_bytes_def)
  with False assms show ?thesis
    by (auto simp: ReadMessage_def ReadFull_def frame_bytes_def Let_def Uint32_PutUint32 unat_frame_length)
qed

theorem truncated_frame_refused_witness:
  "fst (ReadMessage unmarshalFrame \<lparr>rd_buf = take 6 (frame_bytes ''null''), rd_end = None\<rparr>)
     = Inl (ReadPayload UnexpectedEOF)"
  using truncated_frame_refused [of "''null''" 6 unmarshalFrame]
  by (simp add: MaxFrameSize_def frame_bytes_def)

end
