(* ===== verification/GuestAgent.thy ===== *)
theory GuestAgent
  imports Protocol
begin

text \<open>
  The in-guest agent, \<open>cmd/guest-agent/guest_agent.go\<close>: its configuration, the
  environment of a script, the output stream writer with its cap and chunking, the
  execution of one script and the handling of one connection.

  What the guest kernel does with a command is a parameter: \<open>os\<close> maps the prepared
  command and its timeout to an \<open>outcome\<close> (did it start, under which pid, the pieces of
  output copied to the stream writer, how it ended, did the deadline pass). Frames go to
  a frame writer \<open>fw\<close>, the locked \<open>FrameWriter\<close> of the connection.
\<close>

type_synonym 'w frame_writer = "ResponseFrame \<Rightarrow> 'w \<Rightarrow> wire_error option \<times> 'w"

section \<open>Configuration\<close>

record AgentConfig =
  ac_Port :: u32
  ac_UID :: u32
  ac_GID :: u32
  ac_Shell :: string
  ac_Workdir :: string
  ac_DefaultTimeout :: int
  ac_MaxTimeout :: int
  ac_MaxOutput :: int
  ac_ChunkSize :: int

definition Second :: int where
  "Second = 1000000000"

definition envStr :: "(string \<Rightarrow> string option) \<Rightarrow> string \<Rightarrow> string \<Rightarrow> string" where
  "envStr env key def = (case env key of Some v \<Rightarrow> v | None \<Rightarrow> def)"

definition envInt :: "(string \<Rightarrow> string option) \<Rightarrow> string \<Rightarrow> int \<Rightarrow> int" where
  "envInt env key def = (case env key of
      Some v \<Rightarrow> (case atoi v of Some n \<Rightarrow> n | None \<Rightarrow> def)
    | None \<Rightarrow> def)"

text \<open>
  \<open>env\<close> is the process environment; \<open>iflag\<close> and \<open>sflag\<close> are the values the command
  line sets (\<open>flag.Parse\<close>), which win over the defaults taken from the environment.
\<close>

definition loadConfig ::
  "(string \<Rightarrow> string option) \<Rightarrow> (string \<Rightarrow> int option) \<Rightarrow> (string \<Rightarrow> string option) \<Rightarrow> AgentConfig" where
  "loadConfig env iflag sflag =
     (let fi = (\<lambda>name key def. case iflag name of Some n \<Rightarrow> n | None \<Rightarrow> envInt env key def);
          fs = (\<lambda>name key def. case sflag name of Some s \<Rightarrow> s | None \<Rightarrow> envStr env key def) in
      \<lparr>ac_Port = word_of_int (fi ''port'' ''AGENT_VSOCK_PORT'' (uint DefaultPort)),
       ac_UID = word_of_int (fi ''uid'' ''AGENT_UID'' 1000),
       ac_GID = word_of_int (fi ''gid'' ''AGENT_GID'' 1000),
       ac_Shell = fs ''shell'' ''AGENT_SHELL'' ''/bin/bash'',
       ac_Workdir = fs ''workdir'' ''AGENT_WORKDIR'' ''/workspace'',
       ac_DefaultTimeout = wrap64 (fi ''default-timeout'' ''AGENT_DEFAULT_TIMEOUT_SEC'' 30 * Second),
       ac_MaxTimeout = wrap64 (fi ''max-timeout'' ''AGENT_MAX_TIMEOUT_SEC'' 300 * Second),
       ac_MaxOutput = fi ''max-output'' ''AGENT_MAX_OUTPUT_BYTES'' (4 * 2 ^ 20),
       ac_ChunkSize = fi ''chunk'' ''AGENT_CHUNK_BYTES'' (32 * 2 ^ 10)\<rparr>)"

section \<open>The environment of a script\<close>

text \<open>
  Go iterates over a map in an unspecified order; the list below is in key order, and
  what is proved of it concerns the set of its entries.
\<close>

definition baseEnv :: "AgentConfig \<Rightarrow> gomap" where
  "baseEnv cfg = fold (\<lambda>(k, v). gput k v)
     [(''PATH'', ''/usr/local/sbin:/usr/local/bin:/usr/sbin:/usr/bin:/sbin:/bin''),
      (''HOME'', ac_Workdir cfg), (''PWD'', ac_Workdir cfg), (''SHELL'', ac_Shell cfg),
      (''TERM'', ''xterm-256color''), (''LANG'', ''C.UTF-8'')] []"

definition overlayEnv :: "AgentConfig \<Rightarrow> gomap \<Rightarrow> gomap" where
  "overlayEnv cfg extra = fold (\<lambda>(k, v). gput k v) extra (baseEnv cfg)"

definition sanitizedEnv :: "AgentConfig \<Rightarrow> gomap \<Rightarrow> string list" where
  "sanitizedEnv cfg extra = map (\<lambda>(k, v). k @ ''='' @ v) (overlayEnv cfg extra)"

section \<open>The stream writer\<close>

record streamWriter =
  sw_id :: string
  sw_max :: int
  sw_chunk :: int
  sw_written :: int
  sw_truncated :: bool

definition newStreamWriter :: "string \<Rightarrow> int \<Rightarrow> int \<Rightarrow> streamWriter" where
  "newStreamWriter sid mx chunk =
     \<lparr>sw_id = sid, sw_max = mx, sw_chunk = (if chunk \<le> 0 then 32 * 2 ^ 10 else chunk),
      sw_written = 0, sw_truncated = False\<rparr>"

definition outputFrame :: "string \<Rightarrow> bytes \<Rightarrow> ResponseFrame" where
  "outputFrame i b = zeroFrame\<lparr>rf_ID := i, rf_Kind := FrameOutput, rf_Data := b\<rparr>"

text \<open>
  The chunking loop. A chunk size that is not positive would make it spin (or panic on a
  negative slice bound): the model then gives \<open>None\<close>. Otherwise it returns the error of
  the first failed frame, if any, with the states reached.
\<close>

function send_chunks ::
  "'w frame_writer \<Rightarrow> streamWriter \<Rightarrow> bytes \<Rightarrow> 'w \<Rightarrow> (wire_error option \<times> streamWriter \<times> 'w) option" where
  "send_chunks fw s p w =
     (if p = [] then Some (None, s, w)
      else if sw_chunk s \<le> 0 then None
      else let c = (if int (length p) > sw_chunk s then take (nat (sw_chunk s)) p else p)
           in case fw (outputFrame (sw_id s) c) w of
                (Some e, w') \<Rightarrow> Some (Some e, s, w')
              | (None, w') \<Rightarrow> send_chunks fw (s\<lparr>sw_written := sw_written s + int (length c)\<rparr>)
                                (drop (length c) p) w')"
  by pat_completeness auto
termination by (relation "measure (\<lambda>(fw, s, p, w). length p)") (auto simp: min_def)

declare send_chunks.simps [simp del]

definition streamWriter_Write ::
  "'w frame_writer \<Rightarrow> bytes \<Rightarrow> streamWriter \<Rightarrow> 'w \<Rightarrow> (int \<times> wire_error option \<times> streamWriter \<times> 'w) option" where
  "streamWriter_Write fw p s w =
     (let n = int (length p) in
      if sw_truncated s then Some (n, None, s, w)
      else let over = (sw_max s > 0 \<and> sw_written s + int (length p) > sw_max s);
               p' = (if over
                     then (let allow = sw_max s - sw_written s in if allow > 0 then take (nat allow) p else [])
                     else p);
               s' = (if over then s\<lparr>sw_truncated := True\<rparr> else s)
           in map_option (\<lambda>r. (n, r)) (send_chunks fw s' p' w))"

text \<open>\<open>os/exec\<close> copies the pipe piece by piece and stops at the first write error.\<close>

fun copy_output ::
  "'w frame_writer \<Rightarrow> bytes list \<Rightarrow> streamWriter \<Rightarrow> 'w \<Rightarrow> (streamWriter \<times> 'w) option" where
  "copy_output fw [] s w = Some (s, w)"
| "copy_output fw (p # ps) s w = (case streamWriter_Write fw p s w of
      None \<Rightarrow> None
    | Some (n, Some e, s', w') \<Rightarrow> Some (s', w')
    | Some (n, None, s', w') \<Rightarrow> copy_output fw ps s' w')"

section \<open>Running a script\<close>

text \<open>\<open>time.Duration.String\<close>.\<close>

definition frac_digits :: "nat \<Rightarrow> nat \<Rightarrow> string" where
  "frac_digits prec v =
     (let ds = dec_digits (v mod 10 ^ prec);
          padded = replicate (prec - length ds) CHR ''0'' @ ds;
          trimmed = dropWhileEnd (\<lambda>c. c = CHR ''0'') padded
      in if trimmed = [] then [] else CHR ''.'' # trimmed)"

definition durString :: "int \<Rightarrow> string" where
  "durString d =
     (let u = nat \<bar>d\<bar>; sg = (if d < 0 then ''-'' else []) in
      if u = 0 then ''0s''
      else if u < 1000 then sg @ dec_digits u @ ''ns''
      else if u < 1000000 then sg @ dec_digits (u div 1000) @ frac_digits 3 u @ [CHR 0xC2, CHR 0xB5, CHR ''s'']
      else if u < 1000000000 then sg @ dec_digits (u div 1000000) @ frac_digits 6 u @ ''ms''
      else let secs = u div 1000000000; mins = secs div 60; hours = mins div 60 in
        sg @ (if hours > 0 then dec_digits hours @ ''h'' else [])
           @ (if mins > 0 then dec_digits (mins mod 60) @ ''m'' else [])
           @ dec_digits (secs mod 60) @ frac_digits 9 u @ ''s'')"

record exec_cmd =
  cmd_Path :: string
  cmd_Args :: "string list"
  cmd_Dir :: string
  cmd_Env :: "string list"
  cmd_Setpgid :: bool
  cmd_Uid :: u32
  cmd_Gid :: u32
  cmd_NoSetGroups :: bool

datatype wait_result = WaitOK | WaitExit int | WaitError string

datatype outcome =
    StartFailed string
  | Ran (pid: int) (pieces: "bytes list") (waited: wait_result) (deadline: bool)

datatype guest_effect = Spawn exec_cmd int | KillGroup int

definition exec_timeout :: "AgentConfig \<Rightarrow> ExecutionRequest \<Rightarrow> int" where
  "exec_timeout cfg req =
     (let t = (if er_TimeoutSec req > 0 then wrap64 (er_TimeoutSec req * Second) else ac_DefaultTimeout cfg)
      in if t > ac_MaxTimeout cfg then ac_MaxTimeout cfg else t)"

definition exec_command :: "AgentConfig \<Rightarrow> ExecutionRequest \<Rightarrow> exec_cmd" where
  "exec_command cfg req =
     \<lparr>cmd_Path = ac_Shell cfg, cmd_Args = [''-c'', er_Script req],
      cmd_Dir = (if er_Workdir req \<noteq> [] then er_Workdir req else ac_Workdir cfg),
      cmd_Env = sanitizedEnv cfg (er_Env req),
      cmd_Setpgid = True, cmd_Uid = ac_UID cfg, cmd_Gid = ac_GID cfg, cmd_NoSetGroups = True\<rparr>"

definition errorFrame :: "string \<Rightarrow> string \<Rightarrow> ResponseFrame" where
  "errorFrame i e = zeroFrame\<lparr>rf_ID := i, rf_Kind := FrameError, rf_Error := e\<rparr>"

definition exitFrame :: "string \<Rightarrow> int \<Rightarrow> ResponseFrame" where
  "exitFrame i c = zeroFrame\<lparr>rf_ID := i, rf_Kind := FrameExit, rf_ExitCode := c\<rparr>"

definition truncNotice :: "AgentConfig \<Rightarrow> string \<Rightarrow> ResponseFrame" where
  "truncNotice cfg i = outputFrame i
     ([CHR 0x0A] @ ''[output truncated at '' @ itoa (ac_MaxOutput cfg) @ '' bytes]'' @ [CHR 0x0A])"

text \<open>The terminal frame after the command has been waited for.\<close>

definition finalFrame :: "AgentConfig \<Rightarrow> ExecutionRequest \<Rightarrow> wait_result \<Rightarrow> bool \<Rightarrow> ResponseFrame" where
  "finalFrame cfg req wres timed_out =
     (if timed_out
      then errorFrame (er_ID req) (''execution timed out after '' @ durString (exec_timeout cfg req))
      else case wres of
        WaitOK \<Rightarrow> exitFrame (er_ID req) 0
      | WaitExit c \<Rightarrow> exitFrame (er_ID req) c
      | WaitError e \<Rightarrow> errorFrame (er_ID req) e)"

text \<open>
  \<open>runScript\<close> ignores the errors of its own frame writes (\<open>_ = fw.Write(...)\<close>). The
  result is the writer's state and what was asked of the kernel, in order.
\<close>

definition runScript ::
  "AgentConfig \<Rightarrow> 'w frame_writer \<Rightarrow> (exec_cmd \<Rightarrow> int \<Rightarrow> outcome) \<Rightarrow> ExecutionRequest \<Rightarrow> 'w \<Rightarrow>
   (guest_effect list \<times> 'w) option" where
  "runScript cfg fw os req w =
     (if er_Script req = []
      then Some ([], snd (fw (errorFrame (er_ID req) ''empty script'') w))
      else let cmd = exec_command cfg req; t = exec_timeout cfg req in
        case os cmd t of
          StartFailed e \<Rightarrow>
            Some ([Spawn cmd t], snd (fw (errorFrame (er_ID req) (''start failed: '' @ e)) w))
        | Ran p ps wres timed_out \<Rightarrow>
           (case copy_output fw ps (newStreamWriter (er_ID req) (ac_MaxOutput cfg) (ac_ChunkSize cfg)) w of
              None \<Rightarrow> None
            | Some (s, w1) \<Rightarrow>
               (let w2 = (if sw_truncated s
                          then snd (fw (truncNotice cfg (er_ID req)) w1) else w1)
                in Some ([Spawn cmd t, KillGroup p], snd (fw (finalFrame cfg req wres timed_out) w2)))))"

section \<open>One connection\<close>

text \<open>
  \<open>strconv.Quote\<close> on bytes; runes outside ASCII are all taken as printable.
\<close>

definition quote_byte :: "char \<Rightarrow> string" where
  "quote_byte c =
     (if c = DQ \<or> c = BS then [BS, c]
      else if c = CHR 0x07 then [BS, CHR ''a'']
      else if c = CHR 0x08 then [BS, CHR ''b'']
      else if c = CHR 0x0C then [BS, CHR ''f'']
      else if c = CHR 0x0A then [BS, CHR ''n'']
      else if c = CHR 0x0D then [BS, CHR ''r'']
      else if c = CHR 0x09 then [BS, CHR ''t'']
      else if c = CHR 0x0B then [BS, CHR ''v'']
      else if code c < 32 \<or> 127 \<le> code c
        then [BS, CHR ''x'', hex_char (nat (code c div 16)), hex_char (nat (code c mod 16))]
      else [c])"

fun quote_chunk :: "chunk \<Rightarrow> string" where
  "quote_chunk (Ascii c) = quote_byte c"
| "quote_chunk (Rune b) = b"
| "quote_chunk (Bad c) = quote_byte c"

definition go_quote :: "string \<Rightarrow> string" where
  "go_quote s = [DQ] @ concat (map quote_chunk (utf8_chunks s)) @ [DQ]"

definition handleConn ::
  "AgentConfig \<Rightarrow> 'w frame_writer \<Rightarrow> (exec_cmd \<Rightarrow> int \<Rightarrow> outcome) \<Rightarrow> reader \<Rightarrow> 'w \<Rightarrow>
   (guest_effect list \<times> 'w) option" where
  "handleConn cfg fw os conn w = (case ReadMessage unmarshalRequest conn of
      (Inl e, _) \<Rightarrow> Some ([], w)
    | (Inr req, _) \<Rightarrow>
       (if er_Kind req = KindPing
        then Some ([], snd (fw (zeroFrame\<lparr>rf_ID := er_ID req, rf_Kind := FramePong\<rparr>) w))
        else if er_Kind req = KindExec \<or> er_Kind req = [] then runScript cfg fw os req w
        else Some ([], snd (fw (errorFrame (er_ID req)
               (''unknown request kind: '' @ go_quote (er_Kind req))) w))))"

section \<open>Chunking and the output cap\<close>

function chunks_of :: "nat \<Rightarrow> 'a list \<Rightarrow> 'a list list" where
  "chunks_of n xs = (if xs = [] \<or> n = 0 then [] else take n xs # chunks_of n (drop n xs))"
  by pat_completeness auto
termination by (relation "measure (\<lambda>(n, xs). length xs)") auto

declare chunks_of.simps [simp del]

lemma chunks_of_Nil [simp]: "chunks_of n [] = []"
  by (simp add: chunks_of.simps)

lemma chunks_of_step: "xs \<noteq> [] \<Longrightarrow> 0 < n \<Longrightarrow> chunks_of n xs = take n xs # chunks_of n (drop n xs)"
  by (subst chunks_of.simps) simp

lemma concat_chunks_of: "0 < n \<Longrightarrow> concat (chunks_of n xs) = xs"
proof (induction n xs rule: chunks_of.induct)
  case (1 n xs)
  then show ?case by (cases "xs = []") (simp_all add: chunks_of_step)
qed

lemma chunks_of_sizes: "c \<in> set (chunks_of n xs) \<Longrightarrow> c \<noteq> [] \<and> length c \<le> n"
proof (induction n xs rule: chunks_of.induct)
  case (1 n xs)
  then show ?case
    by (cases "xs = [] \<or> n = 0") (auto simp: chunks_of.simps [of n xs])
qed

text \<open>What of an output passes a cap (a cap that is not positive means no cap).\<close>

definition capped :: "int \<Rightarrow> bytes \<Rightarrow> bytes" where
  "capped mx out = (if mx > 0 then take (nat mx) out else out)"

text \<open>
  The interface of a frame writer towards the agent: from a good state it accepts every
  frame that fits, and what a reader will see grows by that frame (up to \<open>norm\<close>).
\<close>

locale frame_sink =
  fixes fw :: "'w frame_writer"
    and view :: "'w \<Rightarrow> ResponseFrame list"
    and norm :: "ResponseFrame \<Rightarrow> ResponseFrame"
    and fits :: "ResponseFrame \<Rightarrow> bool"
    and inv :: "'w \<Rightarrow> bool"
  assumes accept: "inv w \<Longrightarrow> fits f \<Longrightarrow> \<exists>w'. fw f w = (None, w') \<and> inv w' \<and> view w' = view w @ [norm f]"
begin

lemma write_snd:
  assumes "inv w" and "fits f"
  shows "inv (snd (fw f w))" and "view (snd (fw f w)) = view w @ [norm f]"
  using accept [OF assms] by auto

lemma send_chunks_view:
  assumes "0 < sw_chunk s" and "inv w"
    and "\<And>c. length c \<le> nat (sw_chunk s) \<Longrightarrow> fits (outputFrame (sw_id s) c)"
  shows "\<exists>w'. send_chunks fw s p w = Some (None, s\<lparr>sw_written := sw_written s + int (length p)\<rparr>, w') \<and>
    inv w' \<and> view w' = view w @ map (\<lambda>c. norm (outputFrame (sw_id s) c)) (chunks_of (nat (sw_chunk s)) p)"
  using assms
proof (induction "length p" arbitrary: p s w rule: less_induct)
  case less
  let ?n = "nat (sw_chunk s)"
  show ?case
  proof (cases "p = []")
    case True
    with less.prems show ?thesis by (simp add: send_chunks.simps)
  next
    case False
    define c where "c = take ?n p"
    have c: "(if int (length p) > sw_chunk s then take ?n p else p) = c" "length c \<le> ?n" "c \<noteq> []"
      using less.prems(1) False by (auto simp: c_def)
    obtain w1 where w1: "fw (outputFrame (sw_id s) c) w = (None, w1)" "inv w1"
      "view w1 = view w @ [norm (outputFrame (sw_id s) c)]"
      using accept less.prems(2,3) c(2) by blast
    let ?s = "s\<lparr>sw_written := sw_written s + int (length c)\<rparr>"
    have "length (drop (length c) p) < length p" using c(3) False by simp
    from less.hyps [OF this, of ?s w1] less.prems w1(2)
    obtain w2 where "send_chunks fw ?s (drop (length c) p) w1
        = Some (None, s\<lparr>sw_written := sw_written s + int (length c) + int (length (drop (length c) p))\<rparr>, w2)"
      "inv w2"
      "view w2 = view w1 @ map (\<lambda>c. norm (outputFrame (sw_id s) c)) (chunks_of ?n (drop (length c) p))"
      by auto
    moreover have "drop (length c) p = drop ?n p"
      and "sw_written s + int (length c) + int (length p - ?n) = sw_written s + int (length p)"
      by (auto simp: c_def min_def)
    ultimately show ?thesis
      using less.prems(1) False w1 c(1)
      by (simp add: send_chunks.simps [of fw s p w] chunks_of_step Let_def flip: c_def)
  qed
qed

lemma Write_view:
  assumes "0 < sw_chunk s" and "inv w" and "\<not> sw_truncated s" and "0 \<le> sw_written s"
    and "sw_max s > 0 \<longrightarrow> sw_written s \<le> sw_max s"
    and "\<And>c. length c \<le> nat (sw_chunk s) \<Longrightarrow> fits (outputFrame (sw_id s) c)"
  shows "\<exists>w' q. q = (if sw_max s > 0 then take (nat (sw_max s - sw_written s)) p else p) \<and>
    streamWriter_Write fw p s w =
      Some (int (length p), None,
        s\<lparr>sw_truncated := (sw_max s > 0 \<and> sw_written s + int (length p) > sw_max s),
          sw_written := sw_written s + int (length q)\<rparr>, w') \<and>
    inv w' \<and> view w' = view w @ map (\<lambda>c. norm (outputFrame (sw_id s) c)) (chunks_of (nat (sw_chunk s)) q)"
proof (cases "sw_max s > 0 \<and> sw_written s + int (length p) > sw_max s")
  case True
  let ?s = "s\<lparr>sw_truncated := True\<rparr>" and ?q = "take (nat (sw_max s - sw_written s)) p"
  have "(if sw_max s - sw_written s > 0 then ?q else []) = ?q" by auto
  with send_chunks_view [of ?s w ?q] True assms show ?thesis
    by (simp add: streamWriter_Write_def)
next
  case False
  then have "(if sw_max s > 0 then take (nat (sw_max s - sw_written s)) p else p) = p"
    by auto
  moreover have "s\<lparr>sw_truncated := False\<rparr> = s" using assms(3) by simp
  moreover have "(0 < sw_max s \<and> sw_max s < sw_written s + int (length p)) = False"
    using False by simp
  ultimately show ?thesis
    using send_chunks_view [of s w p] assms by (simp only: streamWriter_Write_def Let_def) simp
qed

lemma copy_output_truncated: "sw_truncated s \<Longrightarrow> copy_output fw ps s w = Some (s, w)"
  by (induction ps) (simp_all add: streamWriter_Write_def)

lemma copy_output_view:
  assumes "0 < sw_chunk s" and "inv w" and "\<not> sw_truncated s" and "0 \<le> sw_written s"
    and "sw_max s > 0 \<longrightarrow> sw_written s \<le> sw_max s"
    and "\<And>c. length c \<le> nat (sw_chunk s) \<Longrightarrow> fits (outputFrame (sw_id s) c)"
  shows "\<exists>s' w' cs. copy_output fw ps s w = Some (s', w') \<and> inv w' \<and>
    view w' = view w @ map (\<lambda>c. norm (outputFrame (sw_id s) c)) cs \<and>
    concat cs = (if sw_max s > 0 then take (nat (sw_max s - sw_written s)) (concat ps) else concat ps) \<and>
    (\<forall>c \<in> set cs. c \<noteq> [] \<and> length c \<le> nat (sw_chunk s)) \<and>
    sw_truncated s' = (sw_max s > 0 \<and> sw_written s + int (length (concat ps)) > sw_max s)"
  using assms
proof (induction ps arbitrary: s w)
  case Nil
  then show ?case by (intro exI [of _ s] exI [of _ w] exI [of _ "[]"]) auto
next
  case (Cons p ps)
  let ?n = "nat (sw_chunk s)" and ?k = "nat (sw_max s - sw_written s)"
  define q where "q = (if sw_max s > 0 then take ?k p else p)"
  define over where "over \<longleftrightarrow> sw_max s > 0 \<and> sw_written s + int (length p) > sw_max s"
  define s1 where "s1 = s\<lparr>sw_truncated := over, sw_written := sw_written s + int (length q)\<rparr>"
  obtain w1 where w1: "streamWriter_Write fw p s w = Some (int (length p), None, s1, w1)" "inv w1"
      "view w1 = view w @ map (\<lambda>c. norm (outputFrame (sw_id s) c)) (chunks_of ?n q)"
    using Write_view [OF Cons.prems, of p] by (auto simp: q_def over_def s1_def)
  have cs: "concat (chunks_of ?n q) = q" "\<forall>c \<in> set (chunks_of ?n q). c \<noteq> [] \<and> length c \<le> ?n"
    using concat_chunks_of [of ?n q] chunks_of_sizes [of _ ?n q] Cons.prems(1) by auto
  show ?case
  proof (cases over)
    case True
    then have "copy_output fw (p # ps) s w = Some (s1, w1)"
      using copy_output_truncated [of s1 ps w1] w1(1) by (simp add: s1_def)
    moreover have "q = take ?k (concat (p # ps))" using True by (auto simp: q_def over_def)
    ultimately show ?thesis
      using True w1(2,3) cs by (intro exI [of _ s1] exI [of _ w1] exI [of _ "chunks_of ?n q"])
        (auto simp: over_def s1_def)
  next
    case False
    then have q: "q = p" using Cons.prems(5) by (auto simp: q_def over_def)
    have s1: "sw_chunk s1 = sw_chunk s" "sw_id s1 = sw_id s" "sw_max s1 = sw_max s"
      "sw_written s1 = sw_written s + int (length p)" "\<not> sw_truncated s1"
      using False q by (simp_all add: s1_def)
    have pre: "0 < sw_chunk s1" "0 \<le> sw_written s1" "sw_max s1 > 0 \<longrightarrow> sw_written s1 \<le> sw_max s1"
      "\<And>c. length c \<le> nat (sw_chunk s1) \<Longrightarrow> fits (outputFrame (sw_id s1) c)"
      using s1 False Cons.prems by (auto simp: over_def)
    obtain s2 w2 cs2 where c2: "copy_output fw ps s1 w1 = Some (s2, w2)" "inv w2"
        "view w2 = view w1 @ map (\<lambda>c. norm (outputFrame (sw_id s) c)) cs2"
        "concat cs2 = (if sw_max s > 0 then take (nat (sw_max s - (sw_written s + int (length p)))) (concat ps) else concat ps)"
        "\<forall>c \<in> set cs2. c \<noteq> [] \<and> length c \<le> ?n"
        "sw_truncated s2 = (sw_max s > 0 \<and> sw_written s + int (length p) + int (length (concat ps)) > sw_max s)"
      using Cons.IH [OF pre(1) w1(2) s1(5) pre(2-4), unfolded s1(1-4)] by blast
    have "nat (sw_max s - (sw_written s + int (length p))) = ?k - length p" by arith
    then have "concat (chunks_of ?n q @ cs2) =
        (if sw_max s > 0 then take ?k (concat (p # ps)) else concat (p # ps))"
      using False c2(4) cs(1) q by (auto simp: over_def)
    moreover have "\<forall>c \<in> set (chunks_of ?n q @ cs2). c \<noteq> [] \<and> length c \<le> ?n"
      using c2(5) cs(2) by auto
    ultimately show ?thesis
      using w1 c2 by (intro exI [of _ s2] exI [of _ w2] exI [of _ "chunks_of ?n q @ cs2"] conjI)
        (simp_all add: add.assoc)
  qed
qed

lemma runScript_Ran_view:
  assumes "er_Script req \<noteq> []" and "inv w"
    and "os (exec_command cfg req) (exec_timeout cfg req) = Ran p ps wres tmo"
    and "\<And>c. length c \<le> nat (sw_chunk (newStreamWriter (er_ID req) (ac_MaxOutput cfg) (ac_ChunkSize cfg))) \<Longrightarrow>
           fits (outputFrame (er_ID req) c)"
    and "fits (truncNotice cfg (er_ID req))" and "fits (finalFrame cfg req wres tmo)"
  shows "\<exists>w' cs. runScript cfg fw os req w =
      Some ([Spawn (exec_command cfg req) (exec_timeout cfg req), KillGroup p], w') \<and> inv w' \<and>
    view w' = view w @ map norm (map (outputFrame (er_ID req)) cs
      @ (if ac_MaxOutput cfg > 0 \<and> int (length (concat ps)) > ac_MaxOutput cfg
         then [truncNotice cfg (er_ID req)] else [])
      @ [finalFrame cfg req wres tmo]) \<and>
    concat cs = capped (ac_MaxOutput cfg) (concat ps) \<and>
    (\<forall>c \<in> set cs. c \<noteq> [] \<and>
       length c \<le> nat (sw_chunk (newStreamWriter (er_ID req) (ac_MaxOutput cfg) (ac_ChunkSize cfg))))"
proof -
  let ?s = "newStreamWriter (er_ID req) (ac_MaxOutput cfg) (ac_ChunkSize cfg)"
  have s: "0 < sw_chunk ?s" "\<not> sw_truncated ?s" "sw_written ?s = 0" "sw_id ?s = er_ID req"
    "sw_max ?s = ac_MaxOutput cfg"
    by (simp_all add: newStreamWriter_def)
  obtain s1 w1 cs where c: "copy_output fw ps ?s w = Some (s1, w1)" "inv w1"
    "view w1 = view w @ map (\<lambda>c. norm (outputFrame (er_ID req) c)) cs"
    "concat cs = capped (ac_MaxOutput cfg) (concat ps)"
    "\<forall>c \<in> set cs. c \<noteq> [] \<and> length c \<le> nat (sw_chunk ?s)"
    "sw_truncated s1 = (ac_MaxOutput cfg > 0 \<and> int (length (concat ps)) > ac_MaxOutput cfg)"
    using copy_output_view [of ?s w ps, unfolded s(3-5)] s assms(2,4) unfolding capped_def
    by (metis (no_types, lifting) add_0 diff_zero less_imp_le order_refl)
  define w2 where "w2 = (if sw_truncated s1 then snd (fw (truncNotice cfg (er_ID req)) w1) else w1)"
  have w2: "inv w2" "view w2 = view w1 @ (if sw_truncated s1 then [norm (truncNotice cfg (er_ID req))] else [])"
    using write_snd c(2) assms(5) by (auto simp: w2_def)
  have "runScript cfg fw os req w =
      Some ([Spawn (exec_command cfg req) (exec_timeout cfg req), KillGroup p], snd (fw (finalFrame cfg req wres tmo) w2))"
    using assms(1,3) c(1) by (simp add: runScript_def w2_def Let_def)
  with write_snd [OF w2(1) assms(6)] w2 c show ?thesis
    by (intro exI [of _ "snd (fw (finalFrame cfg req wres tmo) w2)"] exI [of _ cs]) auto
qed

end

text \<open>
  The locked writer of a connection is such a sink: what the host will read from the
  connection grows by the frame written. A plain list of frames is another, used to
  state what the agent replies independently of the encoding.
\<close>

definition wire_write :: "bytes frame_writer" where
  "wire_write = FrameWriter_Write marshalFrame buf_write"

definition frame_wire :: "ResponseFrame \<Rightarrow> bytes" where
  "frame_wire f = frame_bytes (jprint (frameJSON f))"

definition wire_fits :: "ResponseFrame \<Rightarrow> bool" where
  "wire_fits f \<longleftrightarrow> frame_ok f \<and> length (jprint (frameJSON f)) \<le> MaxFrameSize"

definition wire_good :: "bytes \<Rightarrow> bool" where
  "wire_good w \<longleftrightarrow> (\<exists>fs. (\<forall>f \<in> set fs. wire_fits f) \<and> w = concat (map frame_wire fs))"

definition wire_view :: "bytes \<Rightarrow> ResponseFrame list" where
  "wire_view w = fst (read_frames (Suc (length w)) unmarshalFrame \<lparr>rd_buf = w, rd_end = None\<rparr>)"

lemma read_frame_wire:
  "wire_fits f \<Longrightarrow> ReadMessage unmarshalFrame \<lparr>rd_buf = frame_wire f @ rest, rd_end = e\<rparr>
     = (Inr (normFrame f), \<lparr>rd_buf = rest, rd_end = e\<rparr>)"
  by (simp add: wire_fits_def frame_wire_def ReadMessage_frame_bytes unmarshal_marshal_frame)

lemma read_frames_wire:
  "\<forall>f \<in> set fs. wire_fits f \<Longrightarrow> length fs < n \<Longrightarrow>
   read_frames n unmarshalFrame \<lparr>rd_buf = concat (map frame_wire fs), rd_end = None\<rparr> = (map normFrame fs, Some EOF)"
proof (induction fs arbitrary: n)
  case Nil
  then show ?case by (cases n) (simp_all add: ReadMessage_def ReadFull_def)
next
  case (Cons f fs)
  then show ?case by (cases n) (simp_all add: read_frame_wire)
qed

lemma length_concat_wire: "length fs \<le> length (concat (map frame_wire fs))"
  by (induction fs) (simp_all add: frame_wire_def frame_bytes_def)

lemma wire_view_concat:
  "\<forall>f \<in> set fs. wire_fits f \<Longrightarrow> wire_view (concat (map frame_wire fs)) = map normFrame fs"
  using length_concat_wire [of fs]
  by (simp add: wire_view_def read_frames_wire less_Suc_eq_le del: read_frames.simps)

lemma wire_write_fits: "wire_fits f \<Longrightarrow> wire_write f w = (None, w @ frame_wire f)"
  by (simp add: wire_write_def FrameWriter_Write_def WriteMessage_buf [where p = "jprint (frameJSON f)"]
      marshalFrame_def wire_fits_def frame_wire_def)

lemma wire_accept:
  assumes "wire_good w" and "wire_fits f"
  shows "\<exists>w'. wire_write f w = (None, w') \<and> wire_good w' \<and> wire_view w' = wire_view w @ [normFrame f]"
proof -
  from assms(1) obtain fs where fs: "\<forall>f \<in> set fs. wire_fits f" "w = concat (map frame_wire fs)"
    by (auto simp: wire_good_def)
  then have w': "w @ frame_wire f = concat (map frame_wire (fs @ [f]))" by simp
  have ok: "\<forall>g \<in> set (fs @ [f]). wire_fits g" using fs assms(2) by auto
  then have "wire_good (w @ frame_wire f)" unfolding wire_good_def w' by blast
  moreover have "wire_view (w @ frame_wire f) = wire_view w @ [normFrame f]"
    using wire_view_concat [OF ok] wire_view_concat [OF fs(1)] fs(2) w' by simp
  ultimately show ?thesis using wire_write_fits [OF assms(2)] by simp
qed

interpretation wire_sink: frame_sink wire_write wire_view normFrame wire_fits wire_good
  by unfold_locales (rule wire_accept)

definition list_write :: "ResponseFrame list frame_writer" where
  "list_write f fs = (None, fs @ [f])"

interpretation list_sink: frame_sink list_write "\<lambda>fs. fs" "\<lambda>f. f" "\<lambda>_. True" "\<lambda>_. True"
  by unfold_locales (simp add: list_write_def)

section \<open>Properties of the guest agent\<close>

lemma frame_fields [simp]:
  "rf_ID (outputFrame i b) = i" "rf_Kind (outputFrame i b) = FrameOutput" "rf_Data (outputFrame i b) = b"
  "rf_ID (errorFrame i e) = i" "rf_Kind (errorFrame i e) = FrameError" "rf_Error (errorFrame i e) = e"
  "rf_ID (exitFrame i c) = i" "rf_Kind (exitFrame i c) = FrameExit" "rf_ExitCode (exitFrame i c) = c"
  "rf_Data (errorFrame i e) = []" "rf_Data (exitFrame i c) = []"
  by (simp_all add: outputFrame_def errorFrame_def exitFrame_def zeroFrame_def)

lemma Terminal_kinds [simp]:
  "\<not> Terminal (outputFrame i b)" "Terminal (errorFrame i e)" "Terminal (exitFrame i c)"
  by (simp_all add: Terminal_def kind_defs)

lemma finalFrame_terminal [simp]:
  "Terminal (finalFrame cfg req wres tmo)" "rf_ID (finalFrame cfg req wres tmo) = er_ID req"
  by (auto simp: finalFrame_def split: wait_result.splits)

lemma truncNotice_fields [simp]:
  "\<not> Terminal (truncNotice cfg i)" "rf_ID (truncNotice cfg i) = i" "rf_Kind (truncNotice cfg i) = FrameOutput"
  by (simp_all add: truncNotice_def)

lemma runScript_list:
  assumes "er_Script req \<noteq> []"
    and "os (exec_command cfg req) (exec_timeout cfg req) = Ran p ps wres tmo"
  shows "\<exists>cs. runScript cfg list_write os req fs =
      Some ([Spawn (exec_command cfg req) (exec_timeout cfg req), KillGroup p],
        fs @ map (outputFrame (er_ID req)) cs @
        (if ac_MaxOutput cfg > 0 \<and> int (length (concat ps)) > ac_MaxOutput cfg
         then [truncNotice cfg (er_ID req)] else []) @ [finalFrame cfg req wres tmo]) \<and>
    concat cs = capped (ac_MaxOutput cfg) (concat ps) \<and>
    (\<forall>c \<in> set cs. c \<noteq> [] \<and>
       length c \<le> nat (sw_chunk (newStreamWriter (er_ID req) (ac_MaxOutput cfg) (ac_ChunkSize cfg))))"
  using list_sink.runScript_Ran_view
    [where req = req and cfg = cfg and os = os and p = p and ps = ps and wres = wres and tmo = tmo and w = fs]
    assms by (auto simp: map_idI)

text \<open>
  Protocol conformance of the agent. Whatever the request (any kind, any script) and
  whatever the kernel does with it, the reply is zero or more output frames followed by
  exactly one terminal frame, all carrying the request's id. Nothing is ever sent after
  the terminal frame.
\<close>

theorem guest_reply_wellformed:
  assumes "ReadMessage unmarshalRequest conn = (Inr req, conn')"
  shows "\<exists>effs outs t. handleConn cfg list_write os conn [] = Some (effs, outs @ [t]) \<and>
    (\<forall>f \<in> set outs. rf_Kind f = FrameOutput \<and> rf_ID f = er_ID req) \<and>
    Terminal t \<and> rf_ID t = er_ID req"
proof (cases "(er_Kind req = KindExec \<or> er_Kind req = []) \<and> er_Script req \<noteq> []")
  case True
  then have "er_Kind req \<noteq> KindPing" by (auto simp: kind_defs)
  with True assms have h: "handleConn cfg list_write os conn [] = runScript cfg list_write os req []"
    by (simp add: handleConn_def)
  show ?thesis
  proof (cases "os (exec_command cfg req) (exec_timeout cfg req)")
    case (StartFailed e)
    then show ?thesis unfolding h using True
      by (intro exI [of _ "[Spawn (exec_command cfg req) (exec_timeout cfg req)]"] exI [of _ "[]"]
          exI [of _ "errorFrame (er_ID req) (''start failed: '' @ e)"])
        (simp add: runScript_def list_write_def)
  next
    case (Ran p ps wres tmo)
    let ?n = "if ac_MaxOutput cfg > 0 \<and> int (length (concat ps)) > ac_MaxOutput cfg
      then [truncNotice cfg (er_ID req)] else []"
    obtain cs where "runScript cfg list_write os req [] =
        Some ([Spawn (exec_command cfg req) (exec_timeout cfg req), KillGroup p],
          map (outputFrame (er_ID req)) cs @ ?n @ [finalFrame cfg req wres tmo])"
      using runScript_list [of req os cfg, OF _ Ran, of "[]"] True by auto
    then show ?thesis unfolding h
      by (intro exI [of _ "[Spawn (exec_command cfg req) (exec_timeout cfg req), KillGroup p]"]
          exI [of _ "map (outputFrame (er_ID req)) cs @ ?n"] exI [of _ "finalFrame cfg req wres tmo"])
        auto
  qed
next
  case False
  with assms show ?thesis
    by (auto simp: handleConn_def runScript_def list_write_def Terminal_def kind_defs zeroFrame_def
        intro!: exI [of _ "[]"])
qed

definition exConn :: reader where
  "exConn = \<lparr>rd_buf = frame_bytes (jprint (requestJSON exRequest)), rd_end = None\<rparr>"

lemma exConn_read: "ReadMessage unmarshalRequest exConn = (Inr exRequest, \<lparr>rd_buf = [], rd_end = None\<rparr>)"
proof -
  have "length (jprint (requestJSON exRequest)) \<le> 150" by code_simp
  moreover have "request_ok exRequest" and "request_utf8 exRequest"
    by (auto simp: exRequest_def zeroRequest_def request_ok_def request_utf8_def int64_range_def kind_defs
        gomap_ok_def code_def intro!: ascii_valid_utf8)
  then have "unmarshalRequest (jprint (requestJSON exRequest)) = Inr exRequest"
    by (simp add: unmarshal_marshal_request normRequest_id)
  ultimately show ?thesis
    using ReadMessage_frame_bytes [of "jprint (requestJSON exRequest)" unmarshalRequest exRequest "[]"]
    by (simp add: exConn_def MaxFrameSize_def)
qed

definition exAgent :: AgentConfig where
  "exAgent = loadConfig (\<lambda>_. None) (\<lambda>_. None) (\<lambda>_. None)"

theorem guest_reply_wellformed_witness:
  "\<exists>effs outs t.
    handleConn exAgent list_write (\<lambda>c t. Ran 42 [''hello''] WaitOK False) exConn [] = Some (effs, outs @ [t]) \<and>
    (\<forall>f \<in> set outs. rf_Kind f = FrameOutput \<and> rf_ID f = ''req-1'') \<and> Terminal t \<and> rf_ID t = ''req-1''"
  using guest_reply_wellformed [OF exConn_read, of exAgent "\<lambda>c t. Ran 42 [''hello''] WaitOK False"]
  by (simp add: exRequest_def)

text \<open>
  C11: The output of a script is streamed exactly and under its cap. If the command
  writes the pieces \<open>ps\<close>, the output frames carry, in order and in chunks of at most
  the configured size, the first \<open>MaxOutput\<close> bytes of their concatenation (all of it
  when there is no cap); a notice frame follows exactly when something was cut; the last
  frame reports the timeout, the exit code or the wait error.
\<close>

theorem guest_output_exact:
  assumes "er_Script req \<noteq> []"
    and "os (exec_command cfg req) (exec_timeout cfg req) = Ran p ps wres tmo"
  shows "\<exists>effs outs notice. runScript cfg list_write os req [] =
      Some (effs, outs @ notice @ [finalFrame cfg req wres tmo]) \<and>
    concat (map rf_Data outs) =
      (if ac_MaxOutput cfg > 0 then take (nat (ac_MaxOutput cfg)) (concat ps) else concat ps) \<and>
    notice = (if ac_MaxOutput cfg > 0 \<and> int (length (concat ps)) > ac_MaxOutput cfg
              then [truncNotice cfg (er_ID req)] else []) \<and>
    (\<forall>f \<in> set outs. f = outputFrame (er_ID req) (rf_Data f) \<and> 0 < length (rf_Data f) \<and>
       int (length (rf_Data f)) \<le> (if ac_ChunkSize cfg \<le> 0 then 32768 else ac_ChunkSize cfg))"
proof -
  let ?n = "if ac_MaxOutput cfg > 0 \<and> int (length (concat ps)) > ac_MaxOutput cfg
      then [truncNotice cfg (er_ID req)] else []"
  obtain cs where cs: "runScript cfg list_write os req [] =
      Some ([Spawn (exec_command cfg req) (exec_timeout cfg req), KillGroup p],
        map (outputFrame (er_ID req)) cs @ ?n @ [finalFrame cfg req wres tmo])"
    "concat cs = capped (ac_MaxOutput cfg) (concat ps)"
    "\<forall>c \<in> set cs. c \<noteq> [] \<and> length c \<le> nat (sw_chunk (newStreamWriter (er_ID req) (ac_MaxOutput cfg) (ac_ChunkSize cfg)))"
    using runScript_list [of req os cfg p ps wres tmo "[]"] assms by auto
  have "concat (map rf_Data (map (outputFrame (er_ID req)) cs)) = concat cs"
    by (simp add: comp_def)
  moreover have "\<forall>c \<in> set cs. c \<noteq> [] \<and> int (length c) \<le> (if ac_ChunkSize cfg \<le> 0 then 32768 else ac_ChunkSize cfg)"
    using cs(3) by (auto simp: newStreamWriter_def split: if_splits)
  ultimately show ?thesis
    using cs(1,2)
    by (intro exI [of _ "[Spawn (exec_command cfg req) (exec_timeout cfg req), KillGroup p]"]
        exI [of _ "map (outputFrame (er_ID req)) cs"] exI [of _ ?n])
      (auto simp: capped_def)
qed

theorem guest_output_exact_witness:
  "\<exists>effs outs notice. runScript (exAgent\<lparr>ac_MaxOutput := 4, ac_ChunkSize := 3\<rparr>) list_write
       (\<lambda>c t. Ran 42 [''he'', ''llo''] (WaitExit 2) False) exRequest [] = Some (effs, outs @ notice @ [exitFrame ''req-1'' 2]) \<and>
     concat (map rf_Data outs) = ''hell'' \<and> length notice = 1"
  using guest_output_exact [of exRequest "\<lambda>c t. Ran 42 [''he'', ''llo''] (WaitExit 2) False"
      "exAgent\<lparr>ac_MaxOutput := 4, ac_ChunkSize := 3\<rparr>"]
  by (fastforce simp: exRequest_def finalFrame_def)

text \<open>
  No script runs longer than the configured maximum: the effective timeout never
  exceeds \<open>MaxTimeout\<close> whatever the request asks for, even when the multiplication of
  the requested seconds wraps around; and as long as it does not wrap, the timeout is the
  requested one (or the default, when none is requested) cut at the maximum.
\<close>

theorem exec_timeout_capped:
  "exec_timeout cfg req \<le> ac_MaxTimeout cfg \<and>
   (er_TimeoutSec req \<le> 0 \<longrightarrow> exec_timeout cfg req = min (ac_DefaultTimeout cfg) (ac_MaxTimeout cfg)) \<and>
   (0 < er_TimeoutSec req \<and> er_TimeoutSec req * Second < 2 ^ 63 \<longrightarrow>
      exec_timeout cfg req = min (er_TimeoutSec req * Second) (ac_MaxTimeout cfg))"
  by (auto simp: exec_timeout_def Let_def min_def Second_def wrap64_id int64_range_def)

theorem exec_timeout_capped_witness:
  "exec_timeout exAgent exRequest = 5 * Second \<and>
   exec_timeout exAgent (exRequest\<lparr>er_TimeoutSec := 0\<rparr>) = 30 * Second \<and>
   exec_timeout exAgent (exRequest\<lparr>er_TimeoutSec := 4000\<rparr>) = 300 * Second"
proof -
  have m: "ac_MaxTimeout exAgent = 300 * Second" "ac_DefaultTimeout exAgent = 30 * Second"
    by (simp_all add: exAgent_def loadConfig_def envInt_def Second_def wrap64_id int64_range_def)
  show ?thesis
    using exec_timeout_capped [of exAgent exRequest] exec_timeout_capped [of exAgent "exRequest\<lparr>er_TimeoutSec := 0\<rparr>"]
      exec_timeout_capped [of exAgent "exRequest\<lparr>er_TimeoutSec := 4000\<rparr>"]
    by (simp add: m exRequest_def Second_def)
qed

text \<open>
  C12: Every script runs unprivileged and is swept up. Whatever arrives on a connection
  and whatever happens to the frames written (the writer may fail at any point), the
  agent asks the kernel for at most one process: the configured shell on the request's
  script, in its own process group, with the configured uid and gid and the sanitized
  environment; and once that process has been waited for, its whole group is killed.
\<close>

theorem scripts_run_unprivileged:
  assumes "handleConn cfg fw os conn w = Some (effs, w')" and "effs \<noteq> []"
  shows "\<exists>req c t. fst (ReadMessage unmarshalRequest conn) = Inr req \<and>
    cmd_Path c = ac_Shell cfg \<and> cmd_Args c = [''-c'', er_Script req] \<and>
    cmd_Uid c = ac_UID cfg \<and> cmd_Gid c = ac_GID cfg \<and> cmd_Setpgid c \<and>
    cmd_Env c = sanitizedEnv cfg (er_Env req) \<and> t \<le> ac_MaxTimeout cfg \<and>
    effs = Spawn c t # (case os c t of StartFailed e \<Rightarrow> [] | Ran p ps r tmo \<Rightarrow> [KillGroup p])"
proof -
  obtain req conn' where req: "ReadMessage unmarshalRequest conn = (Inr req, conn')"
    "runScript cfg fw os req w = Some (effs, w')"
    using assms by (auto simp: handleConn_def split: prod.splits sum.splits if_splits)
  let ?c = "exec_command cfg req" and ?t = "exec_timeout cfg req"
  have "?t \<le> ac_MaxTimeout cfg" by (simp add: exec_timeout_def Let_def)
  moreover have "effs = Spawn ?c ?t # (case os ?c ?t of StartFailed e \<Rightarrow> [] | Ran p ps r tmo \<Rightarrow> [KillGroup p])"
    using req(2) assms(2)
    by (auto simp: runScript_def Let_def split: if_splits outcome.splits option.splits prod.splits)
  ultimately show ?thesis
    using req(1) by (intro exI [of _ req] exI [of _ ?c] exI [of _ ?t]) (simp add: exec_command_def)
qed

theorem scripts_run_unprivileged_witness:
  "\<exists>c t. handleConn exAgent list_write (\<lambda>c t. StartFailed ''no shell'') exConn [] =
     Some ([Spawn c t], [errorFrame ''req-1'' ''start failed: no shell'']) \<and>
   cmd_Uid c = 1000 \<and> cmd_Gid c = 1000 \<and> cmd_Setpgid c"
proof -
  have e: "handleConn exAgent list_write (\<lambda>c t. StartFailed ''no shell'') exConn [] =
     Some ([Spawn (exec_command exAgent exRequest) (exec_timeout exAgent exRequest)],
       [errorFrame ''req-1'' ''start failed: no shell''])"
    by (simp add: handleConn_def exConn_read runScript_def list_write_def)
      (simp add: exRequest_def kind_defs)
  have "ac_UID exAgent = 1000" "ac_GID exAgent = 1000"
    by (simp_all add: exAgent_def loadConfig_def envInt_def)
  then show ?thesis using scripts_run_unprivileged [OF e] e by auto
qed

lemma fold_gput: "distinct (map fst xs) \<Longrightarrow> map_of (fold (\<lambda>(k, v). gput k v) xs m) = map_of m ++ map_of xs"
proof (induction xs arbitrary: m)
  case (Cons x xs)
  then have "map_of xs (fst x) = None" by (simp add: map_of_eq_None_iff)
  with Cons show ?case
    by (cases x) (auto simp: map_of_gput map_add_def fun_eq_iff split: option.splits)
qed simp

lemma gomap_ok_fold: "gomap_ok m \<Longrightarrow> gomap_ok (fold (\<lambda>(k, v). gput k v) xs m)"
  by (induction xs arbitrary: m) (auto simp: gomap_ok_gput)

lemma gomap_ok_distinct: "gomap_ok m \<Longrightarrow> distinct (map fst m)"
  by (induction m) (auto simp: gomap_ok_def)

lemma map_of_overlayEnv:
  assumes "gomap_ok extra"
  shows "map_of (overlayEnv cfg extra) = map_of (baseEnv cfg) ++ map_of extra"
  unfolding overlayEnv_def using fold_gput gomap_ok_distinct [OF assms] by blast

lemma gomap_ok_overlayEnv: "gomap_ok (overlayEnv cfg extra)"
  unfolding overlayEnv_def baseEnv_def by (intro gomap_ok_fold) (simp add: gomap_ok_def)

lemma gomap_ok_baseEnv: "gomap_ok (baseEnv cfg)"
  unfolding baseEnv_def by (intro gomap_ok_fold) (simp add: gomap_ok_def)

lemma set_baseEnv:
  "(k, v) \<in> set (baseEnv cfg) \<longleftrightarrow>
     (k, v) \<in> {(''PATH'', ''/usr/local/sbin:/usr/local/bin:/usr/sbin:/usr/bin:/sbin:/bin''),
               (''HOME'', ac_Workdir cfg), (''PWD'', ac_Workdir cfg), (''SHELL'', ac_Shell cfg),
               (''TERM'', ''xterm-256color''), (''LANG'', ''C.UTF-8'')}" (is "_ \<longleftrightarrow> _ \<in> ?B")
proof -
  let ?xs = "[(''PATH'', ''/usr/local/sbin:/usr/local/bin:/usr/sbin:/usr/bin:/sbin:/bin''),
      (''HOME'', ac_Workdir cfg), (''PWD'', ac_Workdir cfg), (''SHELL'', ac_Shell cfg),
      (''TERM'', ''xterm-256color''), (''LANG'', ''C.UTF-8'')]"
  have d: "distinct (map fst ?xs)" by simp
  have "map_of (baseEnv cfg) = map_of ?xs"
    unfolding baseEnv_def by (subst fold_gput [OF d]) simp
  then have "(k, v) \<in> set (baseEnv cfg) \<longleftrightarrow> map_of ?xs k = Some v"
    using gomap_ok_distinct [OF gomap_ok_baseEnv] by (metis map_of_eq_Some_iff)
  also have "\<dots> \<longleftrightarrow> (k, v) \<in> set ?xs" using d by (rule map_of_eq_Some_iff)
  finally show ?thesis by (simp only: list.set)
qed

lemma set_overlayEnv:
  assumes "gomap_ok extra"
  shows "(k, v) \<in> set (overlayEnv cfg extra) \<longleftrightarrow>
    (case map_of extra k of Some x \<Rightarrow> v = x | None \<Rightarrow> (k, v) \<in> set (baseEnv cfg))"
proof -
  have "(k, v) \<in> set (overlayEnv cfg extra) \<longleftrightarrow> (map_of (baseEnv cfg) ++ map_of extra) k = Some v"
    using gomap_ok_distinct [OF gomap_ok_overlayEnv] map_of_overlayEnv [OF assms]
    by (metis map_of_eq_Some_iff)
  then show ?thesis
    using gomap_ok_distinct [OF gomap_ok_baseEnv] by (auto simp: map_add_def split: option.splits)
qed

text \<open>
  A script's environment is the fixed base overlaid with the request's variables and
  nothing else: a variable the request names has the request's value, every other
  variable is one of the six base variables with its base value. In particular nothing of
  the agent's own environment is inherited.
\<close>

theorem sanitizedEnv_exact:
  assumes "gomap_ok extra"
  shows "e \<in> set (sanitizedEnv cfg extra) \<longleftrightarrow>
    (\<exists>k v. e = k @ ''='' @ v \<and>
      (case map_of extra k of
         Some x \<Rightarrow> v = x
       | None \<Rightarrow> (k, v) \<in> {(''PATH'', ''/usr/local/sbin:/usr/local/bin:/usr/sbin:/usr/bin:/sbin:/bin''),
                    (''HOME'', ac_Workdir cfg), (''PWD'', ac_Workdir cfg), (''SHELL'', ac_Shell cfg),
                    (''TERM'', ''xterm-256color''), (''LANG'', ''C.UTF-8'')}))"
proof -
  have "e \<in> set (sanitizedEnv cfg extra) \<longleftrightarrow>
      (\<exists>k v. e = k @ ''='' @ v \<and> (k, v) \<in> set (overlayEnv cfg extra))"
    by (auto simp: sanitizedEnv_def)
  then show ?thesis by (simp only: set_overlayEnv [OF assms] set_baseEnv)
qed

theorem sanitizedEnv_exact_witness:
  "''PATH=/override'' \<in> set (sanitizedEnv exAgent [(''FOO'', ''bar''), (''PATH'', ''/override'')]) \<and>
   ''HOME=/workspace'' \<in> set (sanitizedEnv exAgent [(''FOO'', ''bar''), (''PATH'', ''/override'')])"
proof -
  have ok: "gomap_ok [(''FOO'', ''bar''), (''PATH'', ''/override'')]"
    unfolding gomap_ok_def by code_simp
  have w: "ac_Workdir exAgent = ''/workspace''"
    by (simp add: exAgent_def loadConfig_def envStr_def)
  have "''PATH=/override'' \<in> set (sanitizedEnv exAgent [(''FOO'', ''bar''), (''PATH'', ''/override'')])"
    by (rule sanitizedEnv_exact [OF ok, THEN iffD2], rule exI [of _ "''PATH''"],
      rule exI [of _ "''/override''"]) simp
  moreover have "''HOME=/workspace'' \<in> set (sanitizedEnv exAgent [(''FOO'', ''bar''), (''PATH'', ''/override'')])"
    by (rule sanitizedEnv_exact [OF ok, THEN iffD2], rule exI [of _ "''HOME''"],
      rule exI [of _ "''/workspace''"]) (simp add: w)
  ultimately show ?thesis by blast
qed

end
