(* ===== verification/AgentMain.thy ===== *)
theory AgentMain
  imports GuestAgent "HOL-Library.Multiset"
begin

text \<open>
  The process of the guest agent (\<open>main\<close> and \<open>prepareWorkspace\<close> of \<open>cmd/guest-agent/guest_agent.go\<close>): the set-up, the accept
  loop, one goroutine per connection, and the shutdown. The loop, the goroutines and the signal interleave; the
  process is a step relation whose labels are what happened.
\<close>

section \<open>Set-up\<close>

datatype agent_op = AgentMkdirAll string int | AgentChown string int int | AgentListen u32

text \<open>\<open>os\<close> is what the guest kernel answers to an operation: \<open>None\<close> is success.\<close>

definition prepareWorkspace :: "(agent_op \<Rightarrow> string option) \<Rightarrow> AgentConfig \<Rightarrow> string option" where
  "prepareWorkspace os cfg = (case os (AgentMkdirAll (ac_Workdir cfg) 509) of
      Some e \<Rightarrow> Some e
    | None \<Rightarrow> (case os (AgentChown (ac_Workdir cfg) (uint (ac_UID cfg)) (uint (ac_GID cfg))) of
        Some e \<Rightarrow> Some (''chown '' @ ac_Workdir cfg @ '': '' @ e)
      | None \<Rightarrow> None))"

section \<open>The process\<close>

text \<open>Where the main goroutine is: in the accept loop, in \<open>wg.Wait\<close>, or returned.\<close>

datatype main_at = Accepting | Draining | Exited

text \<open>A connection: a number, what the client sends on it, and the state of the socket it is answered on.\<close>

record 'w agent_conn =
  co_id :: nat
  co_in :: reader
  co_out :: 'w

record 'w agent =
  ag_main :: main_at
  ag_done :: bool
  ag_listening :: bool
  ag_handlers :: "'w agent_conn list"

datatype 'w agent_event =
    Signalled
  | ListenerClosed
  | Accepted "'w agent_conn"
  | AcceptFailed string
  | Finished "'w agent_conn" "guest_effect list" 'w
  | LoopLeft
  | Returned

text \<open>\<open>log.Fatalf\<close> ends the process: \<open>Inl\<close>.\<close>

definition agentMain :: "(agent_op \<Rightarrow> string option) \<Rightarrow> AgentConfig \<Rightarrow> (string, 'w agent) result" where
  "agentMain os cfg = (case prepareWorkspace os cfg of
      Some e \<Rightarrow> Inl (''workspace setup failed: '' @ e)
    | None \<Rightarrow> (case os (AgentListen (ac_Port cfg)) of
        Some e \<Rightarrow> Inl (''vsock listen on port '' @ itoa (uint (ac_Port cfg)) @ '': '' @ e)
      | None \<Rightarrow> Inr \<lparr>ag_main = Accepting, ag_done = False, ag_listening = True, ag_handlers = []\<rparr>))"

text \<open>
  \<open>fw\<close> writes frames to a connection and \<open>K\<close> is what the kernel does with the commands of each connection, a
  cancellation included. \<open>Accept\<close> may fail at any time; it succeeds only on an open listener. A handler that has not returned keeps its place.
\<close>

inductive agent_step ::
  "AgentConfig \<Rightarrow> 'w frame_writer \<Rightarrow> (nat \<Rightarrow> exec_cmd \<Rightarrow> int \<Rightarrow> outcome) \<Rightarrow> 'w agent \<Rightarrow> 'w agent_event \<Rightarrow> 'w agent \<Rightarrow> bool"
  for cfg fw K where
  signal: "agent_step cfg fw K s Signalled (s\<lparr>ag_done := True\<rparr>)"
| close: "ag_done s \<Longrightarrow> agent_step cfg fw K s ListenerClosed (s\<lparr>ag_listening := False\<rparr>)"
| accept: "ag_main s = Accepting \<Longrightarrow> ag_listening s \<Longrightarrow>
    agent_step cfg fw K s (Accepted c) (s\<lparr>ag_handlers := ag_handlers s @ [c]\<rparr>)"
| accept_error: "ag_main s = Accepting \<Longrightarrow> \<not> ag_done s \<Longrightarrow> agent_step cfg fw K s (AcceptFailed e) s"
| break: "ag_main s = Accepting \<Longrightarrow> ag_done s \<Longrightarrow> agent_step cfg fw K s LoopLeft (s\<lparr>ag_main := Draining\<rparr>)"
| finish: "ag_handlers s = xs @ c # ys \<Longrightarrow> handleConn cfg fw (K (co_id c)) (co_in c) (co_out c) = Some (effs, w) \<Longrightarrow>
    agent_step cfg fw K s (Finished c effs w) (s\<lparr>ag_handlers := xs @ ys\<rparr>)"
| drained: "ag_main s = Draining \<Longrightarrow> ag_handlers s = [] \<Longrightarrow> agent_step cfg fw K s Returned (s\<lparr>ag_main := Exited\<rparr>)"

inductive agent_run ::
  "AgentConfig \<Rightarrow> 'w frame_writer \<Rightarrow> (nat \<Rightarrow> exec_cmd \<Rightarrow> int \<Rightarrow> outcome) \<Rightarrow> 'w agent \<Rightarrow> 'w agent_event list \<Rightarrow> 'w agent \<Rightarrow> bool"
  for cfg fw K s where
  begins: "agent_run cfg fw K s [] s"
| happens: "agent_run cfg fw K s es s1 \<Longrightarrow> agent_step cfg fw K s1 e s2 \<Longrightarrow> agent_run cfg fw K s (es @ [e]) s2"

inductive_cases agent_stepE: "agent_step cfg fw K s e s'"

lemma agent_run_trans:
  assumes "agent_run cfg fw K s es s1" "agent_run cfg fw K s1 es' s2"
  shows "agent_run cfg fw K s (es @ es') s2"
  using assms(2,1)
proof (induction rule: agent_run.induct)
  case (happens es' s2 e s3)
  then show ?case using agent_run.happens [of cfg fw K s "es @ es'" s2 e s3] by simp
qed simp

lemma agent_run_two:
  "agent_step cfg fw K s e s1 \<Longrightarrow> agent_step cfg fw K s1 e' s2 \<Longrightarrow> agent_run cfg fw K s [e, e'] s2"
  using agent_run.happens [OF agent_run.happens [OF agent_run.begins]] by fastforce

section \<open>Every handler returns\<close>

lemma send_chunks_returns:
  "0 < sw_chunk s \<Longrightarrow> \<exists>e s' w'. send_chunks fw s p w = Some (e, s', w') \<and> sw_chunk s' = sw_chunk s"
proof (induction fw s p w rule: send_chunks.induct)
  case (1 fw s p w)
  show ?case
  proof (cases "p = []")
    case True
    then show ?thesis by (subst send_chunks.simps) simp
  next
    case False
    let ?c = "if int (length p) > sw_chunk s then take (nat (sw_chunk s)) p else p"
    obtain e w' where f: "fw (outputFrame (sw_id s) ?c) w = (e, w')" by fastforce
    show ?thesis
    proof (cases e)
      case None
      then show ?thesis
        using 1(1) [OF False _ refl f [symmetric]] 1(2) False f by (subst send_chunks.simps) (simp add: Let_def)
    next
      case (Some x)
      then show ?thesis using 1(2) False f by (subst send_chunks.simps) (simp add: Let_def)
    qed
  qed
qed

lemma Write_returns:
  assumes "0 < sw_chunk s"
  shows "\<exists>n e s' w'. streamWriter_Write fw p s w = Some (n, e, s', w') \<and> 0 < sw_chunk s'"
proof (cases "sw_truncated s")
  case True
  then show ?thesis using assms by (simp add: streamWriter_Write_def Let_def)
next
  case False
  define s1 where "s1 = (if sw_max s > 0 \<and> sw_written s + int (length p) > sw_max s then s\<lparr>sw_truncated := True\<rparr> else s)"
  define p1 where "p1 = (if sw_max s > 0 \<and> sw_written s + int (length p) > sw_max s
    then (if sw_max s - sw_written s > 0 then take (nat (sw_max s - sw_written s)) p else []) else p)"
  have w: "streamWriter_Write fw p s w = map_option (\<lambda>r. (int (length p), r)) (send_chunks fw s1 p1 w)"
    using False by (simp add: streamWriter_Write_def Let_def s1_def p1_def)
  have "0 < sw_chunk s1" using assms by (simp add: s1_def)
  from send_chunks_returns [OF this, of fw p1 w] this w show ?thesis by auto
qed

lemma copy_output_returns: "0 < sw_chunk s \<Longrightarrow> copy_output fw ps s w \<noteq> None"
proof (induction ps arbitrary: s w)
  case (Cons p ps)
  obtain n e s' w' where "streamWriter_Write fw p s w = Some (n, e, s', w')" "0 < sw_chunk s'"
    using Write_returns [OF Cons.prems, of fw p w] by blast
  with Cons.IH show ?case by (cases e) auto
qed simp

lemma runScript_returns: "\<exists>effs w'. runScript cfg fw os req w = Some (effs, w')"
proof -
  have out: "\<exists>sw w1. copy_output fw ps (newStreamWriter (er_ID req) (ac_MaxOutput cfg) (ac_ChunkSize cfg)) w = Some (sw, w1)" for ps
    using copy_output_returns [of "newStreamWriter (er_ID req) (ac_MaxOutput cfg) (ac_ChunkSize cfg)" fw ps w] by (auto simp: newStreamWriter_def)
  show ?thesis
  proof (cases "os (exec_command cfg req) (exec_timeout cfg req)")
    case (Ran p ps wres tmo)
    obtain sw w1 where "copy_output fw ps (newStreamWriter (er_ID req) (ac_MaxOutput cfg) (ac_ChunkSize cfg)) w = Some (sw, w1)" using out by blast
    with Ran show ?thesis by (simp add: runScript_def Let_def)
  qed (simp add: runScript_def Let_def)
qed

lemma handleConn_returns: "\<exists>effs w'. handleConn cfg fw os conn w = Some (effs, w')"
proof -
  obtain x r where "ReadMessage unmarshalRequest conn = (x, r)" by fastforce
  then show ?thesis using runScript_returns [of cfg fw os _ w] by (cases x) (simp_all add: handleConn_def)
qed

section \<open>What the process guarantees\<close>

definition accepted :: "'w agent_event list \<Rightarrow> 'w agent_conn list" where
  "accepted es = concat (map (\<lambda>e. case e of Accepted c \<Rightarrow> [c] | _ \<Rightarrow> []) es)"

definition finished :: "'w agent_event list \<Rightarrow> 'w agent_conn list" where
  "finished es = concat (map (\<lambda>e. case e of Finished c _ _ \<Rightarrow> [c] | _ \<Rightarrow> []) es)"

lemma history_simps [simp]:
  "accepted (es @ es') = accepted es @ accepted es'" "finished (es @ es') = finished es @ finished es'"
  "accepted [] = []" "finished [] = []"
  "accepted (e # es) = (case e of Accepted c \<Rightarrow> [c] | _ \<Rightarrow> []) @ accepted es"
  "finished (e # es) = (case e of Finished c _ _ \<Rightarrow> [c] | _ \<Rightarrow> []) @ finished es"
  by (simp_all add: accepted_def finished_def)

text \<open>The invariant of a run: who was accepted is finished or in hand, and the loop is left for a signal only.\<close>

lemma agent_run_inv:
  assumes "agent_run cfg fw K s es s'" "s = \<lparr>ag_main = Accepting, ag_done = False, ag_listening = True, ag_handlers = []\<rparr>"
  shows "mset (accepted es) = mset (finished es) + mset (ag_handlers s')" "ag_done s' \<longleftrightarrow> Signalled \<in> set es"
    "ag_main s' \<noteq> Accepting \<Longrightarrow> ag_done s'" "ag_main s' = Exited \<Longrightarrow> ag_handlers s' = []" "\<not> ag_listening s' \<Longrightarrow> ag_done s'"
    "Finished c effs w \<in> set es \<Longrightarrow> handleConn cfg fw (K (co_id c)) (co_in c) (co_out c) = Some (effs, w)"
proof -
  have "mset (accepted es) = mset (finished es) + mset (ag_handlers s') \<and> (ag_done s' \<longleftrightarrow> Signalled \<in> set es) \<and>
    (ag_main s' \<noteq> Accepting \<longrightarrow> ag_done s') \<and> (ag_main s' = Exited \<longrightarrow> ag_handlers s' = []) \<and> (\<not> ag_listening s' \<longrightarrow> ag_done s') \<and>
    (\<forall>c effs w. Finished c effs w \<in> set es \<longrightarrow> handleConn cfg fw (K (co_id c)) (co_in c) (co_out c) = Some (effs, w))"
    using assms
  proof (induction rule: agent_run.induct)
    case (happens es s1 e s2)
    from happens(2) happens(3) [OF happens(4)] show ?case
      by (elim agent_stepE) auto
  qed simp
  then show "mset (accepted es) = mset (finished es) + mset (ag_handlers s')" "ag_done s' \<longleftrightarrow> Signalled \<in> set es"
    "ag_main s' \<noteq> Accepting \<Longrightarrow> ag_done s'" "ag_main s' = Exited \<Longrightarrow> ag_handlers s' = []" "\<not> ag_listening s' \<Longrightarrow> ag_done s'"
    "Finished c effs w \<in> set es \<Longrightarrow> handleConn cfg fw (K (co_id c)) (co_in c) (co_out c) = Some (effs, w)"
    by blast+
qed

lemma agent_can_finish:
  "\<exists>es. agent_run cfg fw K s es (s\<lparr>ag_handlers := []\<rparr>) \<and> accepted es = []"
proof (induction "ag_handlers s" arbitrary: s)
  case Nil
  then have "s\<lparr>ag_handlers := []\<rparr> = s" by simp
  then show ?case using agent_run.begins [of cfg fw K s] by (metis history_simps(3))
next
  case (Cons c cs)
  obtain effs w where "handleConn cfg fw (K (co_id c)) (co_in c) (co_out c) = Some (effs, w)"
    using handleConn_returns [of cfg fw "K (co_id c)" "co_in c" "co_out c"] by auto
  then have "agent_step cfg fw K s (Finished c effs w) (s\<lparr>ag_handlers := cs\<rparr>)"
    using agent_step.finish [of s "[]" c cs cfg fw K effs w] Cons.hyps(2) by simp
  from agent_run.happens [OF agent_run.begins this] have one: "agent_run cfg fw K s [Finished c effs w] (s\<lparr>ag_handlers := cs\<rparr>)" by simp
  obtain es where "agent_run cfg fw K (s\<lparr>ag_handlers := cs\<rparr>) es (s\<lparr>ag_handlers := []\<rparr>)" "accepted es = []"
    using Cons.hyps(1) [of "s\<lparr>ag_handlers := cs\<rparr>"] by auto
  with agent_run_trans [OF one, of es] show ?case by (intro exI [of _ "[Finished c effs w] @ es"]) simp
qed

text \<open>
  C40: The life of the agent. It serves only with its workspace prepared and its port open. In every interleaving of the accept loop, the
  handlers, the signal and failing \<open>Accept\<close> calls: each accepted connection is in hand or was handled once, by \<open>handleConn\<close>
  to its end; the process returns only after a signal and after every accepted connection was handled; and from any
  moment after a signal it can return without accepting another one, since every handler returns.
\<close>

theorem agent_lifecycle:
  assumes "agentMain os cfg = Inr s" and "agent_run cfg fw K s es s'"
  shows "prepareWorkspace os cfg = None \<and> os (AgentListen (ac_Port cfg)) = None \<and>
    mset (accepted es) = mset (finished es) + mset (ag_handlers s') \<and>
    (\<forall>c effs w. Finished c effs w \<in> set es \<longrightarrow> handleConn cfg fw (K (co_id c)) (co_in c) (co_out c) = Some (effs, w)) \<and>
    (ag_main s' = Exited \<longrightarrow> Signalled \<in> set es \<and> mset (accepted es) = mset (finished es)) \<and>
    (Signalled \<in> set es \<longrightarrow> (\<exists>es' s''. agent_run cfg fw K s' es' s'' \<and> ag_main s'' = Exited \<and> accepted es' = []))"
proof -
  have s: "prepareWorkspace os cfg = None" "os (AgentListen (ac_Port cfg)) = None"
    "s = \<lparr>ag_main = Accepting, ag_done = False, ag_listening = True, ag_handlers = []\<rparr>"
    using assms(1) by (auto simp: agentMain_def split: option.splits)
  note inv = agent_run_inv [OF assms(2) s(3)]
  have stop: "\<exists>es' s''. agent_run cfg fw K s' es' s'' \<and> ag_main s'' = Exited \<and> accepted es' = []" if "Signalled \<in> set es"
  proof -
    have d: "ag_done s'" using that inv(2) by simp
    obtain e1 where e1: "agent_run cfg fw K s' e1 (s'\<lparr>ag_handlers := []\<rparr>)" "accepted e1 = []" using agent_can_finish by blast
    let ?s1 = "s'\<lparr>ag_handlers := []\<rparr>"
    obtain e2 s2 where e2: "agent_run cfg fw K ?s1 e2 s2" "accepted e2 = []" "ag_main s2 \<noteq> Accepting" "ag_handlers s2 = []"
    proof (cases "ag_main s' = Accepting")
      case True
      with d have "agent_step cfg fw K ?s1 LoopLeft (?s1\<lparr>ag_main := Draining\<rparr>)" by (intro agent_step.break) simp_all
      from agent_run.happens [OF agent_run.begins this] that show ?thesis by simp
    next
      case False
      with that [OF agent_run.begins] show ?thesis by simp
    qed
    show ?thesis
    proof (cases "ag_main s2 = Exited")
      case True
      with agent_run_trans [OF e1(1) e2(1)] e1(2) e2(2) show ?thesis by fastforce
    next
      case False
      with e2(3) have "ag_main s2 = Draining" by (cases "ag_main s2") auto
      from agent_run.happens [OF agent_run_trans [OF e1(1) e2(1)] agent_step.drained [OF this e2(4)]] e1(2) e2(2)
      show ?thesis
        by (intro exI [of _ "(e1 @ e2) @ [Returned]"] exI [of _ "s2\<lparr>ag_main := Exited\<rparr>"]) simp
    qed
  qed
  show ?thesis using s(1,2) inv(1,2,3,4) stop inv(6) by simp
qed

text \<open>The example: two connections, a signal while the second is being served.\<close>

theorem agent_lifecycle_witness:
  "\<exists>s es s'. agentMain (\<lambda>_. None) exAgent = Inr s \<and> agent_run exAgent list_write (\<lambda>_ _ _. Ran 42 [''hello''] WaitOK False) s es s' \<and>
     ag_main s' = Exited \<and> map co_id (accepted es) = [1, 2] \<and> mset (accepted es) = mset (finished es)"
proof -
  let ?K = "\<lambda>_ _ _. Ran 42 [''hello''] WaitOK False"
  let ?s = "\<lparr>ag_main = Accepting, ag_done = False, ag_listening = True, ag_handlers = []\<rparr> :: ResponseFrame list agent"
  define c where "c i = \<lparr>co_id = i, co_in = exConn, co_out = [] :: ResponseFrame list\<rparr>" for i
  have main: "agentMain (\<lambda>_. None) exAgent = Inr ?s" by (simp add: agentMain_def prepareWorkspace_def)
  obtain effs w where h: "handleConn exAgent list_write (?K (co_id (c 1))) (co_in (c 1)) (co_out (c 1)) = Some (effs, w)"
    using handleConn_returns by metis
  let ?s2 = "?s\<lparr>ag_handlers := [c 1, c 2]\<rparr>"
  have "agent_run exAgent list_write ?K ?s [Accepted (c 1), Accepted (c 2)] ?s2"
    using agent_step.accept [of ?s exAgent list_write ?K "c 1"] agent_step.accept [of "?s\<lparr>ag_handlers := [c 1]\<rparr>" exAgent list_write ?K "c 2"]
    by (intro agent_run_two [of exAgent list_write ?K ?s _ "?s\<lparr>ag_handlers := [c 1]\<rparr>"]) simp_all
  moreover have "agent_run exAgent list_write ?K ?s2 [Finished (c 1) effs w, Signalled] (?s2\<lparr>ag_handlers := [c 2], ag_done := True\<rparr>)"
    using agent_step.finish [of ?s2 "[]" "c 1" "[c 2]" exAgent list_write ?K effs w] agent_step.signal [of exAgent list_write ?K "?s2\<lparr>ag_handlers := [c 2]\<rparr>"] h
    by (intro agent_run_two [of exAgent list_write ?K ?s2 _ "?s2\<lparr>ag_handlers := [c 2]\<rparr>"]) simp_all
  ultimately have run: "agent_run exAgent list_write ?K ?s ([Accepted (c 1), Accepted (c 2)] @ [Finished (c 1) effs w, Signalled])
      (?s2\<lparr>ag_handlers := [c 2], ag_done := True\<rparr>)" by (rule agent_run_trans)
  obtain es' s'' where stop: "agent_run exAgent list_write ?K (?s2\<lparr>ag_handlers := [c 2], ag_done := True\<rparr>) es' s''" "ag_main s'' = Exited" "accepted es' = []"
    using agent_lifecycle [OF main run] by auto
  note all = agent_run_trans [OF run stop(1)]
  have "map co_id (accepted (([Accepted (c 1), Accepted (c 2)] @ [Finished (c 1) effs w, Signalled]) @ es')) = [1, 2]"
    using stop(3) by (simp add: accepted_def c_def)
  moreover have "mset (accepted (([Accepted (c 1), Accepted (c 2)] @ [Finished (c 1) effs w, Signalled]) @ es')) =
      mset (finished (([Accepted (c 1), Accepted (c 2)] @ [Finished (c 1) effs w, Signalled]) @ es'))"
    using agent_lifecycle [OF main all] stop(2) by argo
  ultimately show ?thesis by (intro exI conjI) (rule main, rule all, rule stop(2), assumption, assumption)
qed

end
