(* ===== verification/VsockClient.thy ===== *)
theory VsockClient
  imports GuestAgent
begin

text \<open>
  The host side of the vsock channel (\<open>internal/gateway/vsockclient.go\<close>): the
  Firecracker \<open>CONNECT\<close>/\<open>OK\<close> handshake, dialling with bounded exponential backoff, and
  \<open>Exec\<close>, which sends one request and delivers response frames to a callback until the
  terminal one. The Unix socket is a parameter: the outcome of the \<open>i\<close>-th dial is a
  failure or a connection, which is a writer state and the bytes that will arrive. What
  the context reports, before a retry and after a failure, is a parameter too. The
  callback's calls are the list of frames delivered, in order.
\<close>

section \<open>Configuration\<close>

record VsockConfig =
  vc_Port :: u32
  vc_DialTimeout :: int
  vc_RetryMax :: int
  vc_RetryBase :: int
  vc_RetryCap :: int
  vc_PingDeadline :: int

definition Millisecond :: int where
  "Millisecond = 1000000"

definition applyDefaults :: "VsockConfig \<Rightarrow> VsockConfig" where
  "applyDefaults c = c\<lparr>
     vc_Port := (if vc_Port c = 0 then DefaultPort else vc_Port c),
     vc_DialTimeout := (if vc_DialTimeout c = 0 then 5 * Second else vc_DialTimeout c),
     vc_RetryBase := (if vc_RetryBase c = 0 then 100 * Millisecond else vc_RetryBase c),
     vc_RetryCap := (if vc_RetryCap c = 0 then 2 * Second else vc_RetryCap c),
     vc_PingDeadline := (if vc_PingDeadline c = 0 then 5 * Second else vc_PingDeadline c)\<rparr>"

record Client =
  cl_udsPath :: string
  cl_cfg :: VsockConfig

definition NewClient :: "string \<Rightarrow> VsockConfig \<Rightarrow> Client" where
  "NewClient path cfg = \<lparr>cl_udsPath = path, cl_cfg = applyDefaults cfg\<rparr>"

section \<open>Errors, contexts and connections\<close>

datatype vsock_error =
    DialFailed string string
  | WriteConnect string
  | ReadReply wire_error
  | ErrHandshakeFailed string
  | CancelledAfter int string
  | GaveUpAfter int "vsock_error option"
  | CtxErr string
  | SendRequest wire_error
  | ClosedBeforeTerminal
  | ReadFrame wire_error
  | GuestError string

text \<open>
  \<open>cx_done i\<close>: the context is done when the backoff before attempt \<open>i\<close> begins to wait,
  with this error; \<open>cx_err\<close>: \<open>ctx.Err()\<close> when an operation on the connection has failed.
\<close>

record ctx =
  cx_done :: "int \<Rightarrow> string option"
  cx_err :: "string option"

type_synonym 'w conn = "'w \<times> reader"
type_synonym 'w dialer = "int \<Rightarrow> (string, 'w conn) result"

section \<open>Handshake\<close>

definition ReadString :: "char \<Rightarrow> reader \<Rightarrow> (wire_error, bytes) result \<times> reader" where
  \<comment> \<open>\<open>bufio.Reader.ReadString\<close>: up to and including the delimiter\<close>
  "ReadString d r = (case dropWhile (\<lambda>c. c \<noteq> d) (rd_buf r) of
      [] \<Rightarrow> (Inl (case rd_end r of Some e \<Rightarrow> IOError e | None \<Rightarrow> EOF), r\<lparr>rd_buf := []\<rparr>)
    | c # rest \<Rightarrow> (Inr (takeWhile (\<lambda>c. c \<noteq> d) (rd_buf r) @ [d]), r\<lparr>rd_buf := rest\<rparr>))"

definition connectLine :: "u32 \<Rightarrow> bytes" where
  "connectLine port = ''CONNECT '' @ itoa (uint port) @ [CHR 0x0A]"

definition doHandshake :: "'w writer \<Rightarrow> u32 \<Rightarrow> 'w conn \<Rightarrow> (vsock_error, 'w conn) result" where
  "doHandshake wr port c = (case wr (connectLine port) (fst c) of
      (Some e, w) \<Rightarrow> Inl (WriteConnect e)
    | (None, w) \<Rightarrow> (case ReadString (CHR 0x0A) (snd c) of
        (Inl e, r) \<Rightarrow> Inl (ReadReply e)
      | (Inr line, r) \<Rightarrow>
         (let l = dropWhileEnd (\<lambda>ch. ch = CHR 0x0D \<or> ch = CHR 0x0A) line in
          if \<not> has_prefix l ''OK '' then Inl (ErrHandshakeFailed l) else Inr (w, r))))"

definition connect :: "Client \<Rightarrow> 'w writer \<Rightarrow> (string, 'w conn) result \<Rightarrow> (vsock_error, 'w conn) result" where
  "connect c wr dialed = (case dialed of
      Inl e \<Rightarrow> Inl (DialFailed (cl_udsPath c) e)
    | Inr raw \<Rightarrow> doHandshake wr (vc_Port (cl_cfg c)) raw)"

section \<open>Dialling with retry\<close>

text \<open>
  The loop of \<open>dialWithRetry\<close> at one attempt, with the current backoff and the last
  error. It returns the result, the number of dials made and the backoffs waited for.
\<close>

function retry_loop ::
  "Client \<Rightarrow> ctx \<Rightarrow> 'w writer \<Rightarrow> 'w dialer \<Rightarrow> int \<Rightarrow> int \<Rightarrow> vsock_error option \<Rightarrow>
   (vsock_error, 'w conn) result \<times> nat \<times> int list" where
  "retry_loop c cx wr dial attempt backoff lastErr =
     (if attempt > vc_RetryMax (cl_cfg c)
      then (Inl (GaveUpAfter (vc_RetryMax (cl_cfg c) + 1) lastErr), 0, [])
      else case (if attempt > 0 then cx_done cx attempt else None) of
        Some e \<Rightarrow> (Inl (CancelledAfter attempt e), 0, [])
      | None \<Rightarrow>
         (let b' = (if attempt > 0
                    then (let b2 = wrap64 (backoff * 2)
                          in if b2 > vc_RetryCap (cl_cfg c) then vc_RetryCap (cl_cfg c) else b2)
                    else backoff);
              slept = (if attempt > 0 then [backoff] else [])
          in case connect c wr (dial attempt) of
               Inr k \<Rightarrow> (Inr k, 1, slept)
             | Inl e \<Rightarrow> (case retry_loop c cx wr dial (attempt + 1) b' (Some e) of
                 (res, n, sl) \<Rightarrow> (res, Suc n, slept @ sl))))"
  by pat_completeness auto
termination
  by (relation "measure (\<lambda>(c, cx, wr, dial, attempt, backoff, lastErr). nat (vc_RetryMax (cl_cfg c) + 1 - attempt))")
    auto

declare retry_loop.simps [simp del]

definition dialWithRetry ::
  "Client \<Rightarrow> ctx \<Rightarrow> 'w writer \<Rightarrow> 'w dialer \<Rightarrow> (vsock_error, 'w conn) result \<times> nat \<times> int list" where
  "dialWithRetry c cx wr dial = retry_loop c cx wr dial 0 (vc_RetryBase (cl_cfg c)) None"

section \<open>Exec and Ping\<close>

lemma ReadFull_shorter: "ReadFull n r = (Inr b, r') \<Longrightarrow> length (rd_buf r) = length (rd_buf r') + n"
  by (auto simp: ReadFull_def split: if_splits)

lemma ReadMessage_shorter:
  "ReadMessage u r = (Inr v, r') \<Longrightarrow> length (rd_buf r') < length (rd_buf r)"
  by (auto simp: ReadMessage_def Let_def dest!: ReadFull_shorter split: prod.splits sum.splits if_splits)

function exec_loop :: "ctx \<Rightarrow> reader \<Rightarrow> vsock_error option \<times> ResponseFrame list" where
  "exec_loop cx r = (case ReadMessage unmarshalFrame r of
      (Inl e, r') \<Rightarrow>
        (Some (case cx_err cx of
                 Some ce \<Rightarrow> CtxErr ce
               | None \<Rightarrow> if e = EOF then ClosedBeforeTerminal else ReadFrame e), [])
    | (Inr f, r') \<Rightarrow>
        (if Terminal f
         then (if rf_Kind f = FrameError then Some (GuestError (rf_Error f)) else None, [f])
         else case exec_loop cx r' of (res, fs) \<Rightarrow> (res, f # fs)))"
  by pat_completeness auto
termination
  by (relation "measure (\<lambda>(cx, r). length (rd_buf r))") (auto dest!: sym [of "(Inr _, _)"] simp: ReadMessage_shorter)

declare exec_loop.simps [simp del]

text \<open>The result, the frames delivered, and the final state of the connection's writer.\<close>

definition Exec ::
  "Client \<Rightarrow> ctx \<Rightarrow> 'w writer \<Rightarrow> 'w dialer \<Rightarrow> ExecutionRequest \<Rightarrow>
   vsock_error option \<times> ResponseFrame list \<times> 'w option" where
  "Exec c cx wr dial req = (case fst (dialWithRetry c cx wr dial) of
      Inl e \<Rightarrow> (Some e, [], None)
    | Inr (w, r) \<Rightarrow> (case WriteMessage marshalRequest wr w req of
        (Some e, w') \<Rightarrow>
          (Some (case cx_err cx of Some ce \<Rightarrow> CtxErr ce | None \<Rightarrow> SendRequest e), [], Some w')
      | (None, w') \<Rightarrow> (case exec_loop cx r of (res, fs) \<Rightarrow> (res, fs, Some w'))))"

definition Ping :: "Client \<Rightarrow> (int \<Rightarrow> ctx) \<Rightarrow> 'w writer \<Rightarrow> 'w dialer \<Rightarrow> vsock_error option" where
  \<comment> \<open>the first argument gives the context that \<open>context.WithTimeout\<close> derives for a duration\<close>
  "Ping c withTimeout wr dial =
     fst (Exec c (withTimeout (vc_PingDeadline (cl_cfg c))) wr dial
           (zeroRequest\<lparr>er_ID := ''hb'', er_Kind := KindPing\<rparr>))"

section \<open>Lemmas on the handshake\<close>

lemma ReadString_Inr_iff:
  "ReadString d r = (Inr line, r') \<longleftrightarrow>
     (\<exists>l. line = l @ [d] \<and> d \<notin> set l \<and> rd_buf r = l @ d # rd_buf r' \<and> rd_end r' = rd_end r)"
proof (cases "dropWhile (\<lambda>c. c \<noteq> d) (rd_buf r)")
  case Nil
  then have "d \<notin> set (rd_buf r)" by auto
  then show ?thesis unfolding ReadString_def Nil by auto
next
  case (Cons c rest)
  then have c: "c = d" by (metis (mono_tags, lifting) hd_dropWhile list.distinct(1) list.sel(1))
  let ?l = "takeWhile (\<lambda>c. c \<noteq> d) (rd_buf r)"
  have split: "rd_buf r = ?l @ d # rest"
    using Cons c takeWhile_dropWhile_id [of "\<lambda>c. c \<noteq> d" "rd_buf r"] by simp
  have notin: "d \<notin> set ?l" by (auto dest: set_takeWhileD)
  have uniq: "rd_buf r = l @ d # t \<Longrightarrow> d \<notin> set l \<Longrightarrow> l = ?l \<and> t = rest" for l t
  proof -
    assume l: "rd_buf r = l @ d # t" "d \<notin> set l"
    then have "takeWhile (\<lambda>c. c \<noteq> d) (l @ d # t) = l" "dropWhile (\<lambda>c. c \<noteq> d) (l @ d # t) = d # t"
      by (subst takeWhile_append2 dropWhile_append2; auto)+
    with l Cons c show ?thesis by simp
  qed
  show ?thesis
  proof
    assume "ReadString d r = (Inr line, r')"
    then have "line = ?l @ [d]" "rd_buf r' = rest" "rd_end r' = rd_end r"
      using Cons by (auto simp: ReadString_def)
    then show "\<exists>l. line = l @ [d] \<and> d \<notin> set l \<and> rd_buf r = l @ d # rd_buf r' \<and> rd_end r' = rd_end r"
      using split notin by blast
  next
    assume "\<exists>l. line = l @ [d] \<and> d \<notin> set l \<and> rd_buf r = l @ d # rd_buf r' \<and> rd_end r' = rd_end r"
    then obtain l where l: "line = l @ [d]" "d \<notin> set l" "rd_buf r = l @ d # rd_buf r'" "rd_end r' = rd_end r"
      by blast
    with uniq have "l = ?l" "rd_buf r' = rest" by blast+
    then show "ReadString d r = (Inr line, r')"
      using Cons l by (simp add: ReadString_def)
  qed
qed

lemma dropWhile_append_stop: "\<forall>c \<in> set z. \<not> P c \<Longrightarrow> dropWhile P (y @ z) = dropWhile P y @ z"
proof (induction y)
  case Nil
  then show ?case by (cases z) auto
qed simp

lemma dropWhileEnd_prefix:
  assumes "\<forall>c \<in> set p. \<not> P c"
  shows "prefix p (dropWhileEnd P xs) \<longleftrightarrow> prefix p xs"
proof
  have pre: "xs = dropWhileEnd P xs @ rev (takeWhile P (rev xs))"
    unfolding dropWhileEnd_def by (metis rev_append rev_rev_ident takeWhile_dropWhile_id)
  show "prefix p xs" if "prefix p (dropWhileEnd P xs)"
    using pre that by (metis prefix_prefix)
  show "prefix p (dropWhileEnd P xs)" if "prefix p xs"
  proof -
    from that obtain q where "xs = p @ q" by (auto simp: prefix_def)
    then have "dropWhileEnd P xs = rev (dropWhile P (rev q @ rev p))" by (simp add: dropWhileEnd_def)
    also have "dropWhile P (rev q @ rev p) = dropWhile P (rev q) @ rev p"
      using assms by (intro dropWhile_append_stop) simp
    finally show ?thesis by simp
  qed
qed

lemma doHandshake_Inr_iff:
  "doHandshake wr port (w, r) = Inr (w', r') \<longleftrightarrow>
     wr (connectLine port) w = (None, w') \<and>
     (\<exists>line. CHR 0x0A \<notin> set line \<and> prefix ''OK '' line \<and>
        rd_buf r = line @ CHR 0x0A # rd_buf r' \<and> rd_end r' = rd_end r)"
proof -
  let ?P = "\<lambda>ch. ch = CHR 0x0D \<or> ch = CHR 0x0A"
  have ok: "has_prefix (dropWhileEnd ?P (line @ [CHR 0x0A])) ''OK '' \<longleftrightarrow> prefix ''OK '' line" for line
  proof -
    have "prefix ''OK '' (line @ [CHR 0x0A]) \<longleftrightarrow> prefix ''OK '' line" by (auto simp: prefix_append prefix_Cons Cons_eq_append_conv)
    then show ?thesis by (simp add: has_prefix_iff dropWhileEnd_prefix)
  qed
  have "doHandshake wr port (w, r) = Inr (w', r') \<longleftrightarrow> wr (connectLine port) w = (None, w') \<and>
      (\<exists>line. ReadString (CHR 0x0A) r = (Inr line, r') \<and> has_prefix (dropWhileEnd ?P line) ''OK '')"
    by (cases "wr (connectLine port) w"; cases "ReadString (CHR 0x0A) r")
      (auto simp: doHandshake_def Let_def split: option.splits sum.splits)
  then show ?thesis unfolding ReadString_Inr_iff using ok by auto
qed

section \<open>Lemmas on the retry loop\<close>

definition backoff_at :: "VsockConfig \<Rightarrow> nat \<Rightarrow> int" where
  "backoff_at c i = (if i = 0 then vc_RetryBase c else min (vc_RetryBase c * 2 ^ i) (vc_RetryCap c))"

lemma backoff_step:
  assumes "0 < vc_RetryBase c" "vc_RetryBase c < 2 ^ 62" "0 \<le> vc_RetryCap c" "vc_RetryCap c < 2 ^ 62"
  shows "(let b2 = wrap64 (backoff_at c i * 2) in if b2 > vc_RetryCap c then vc_RetryCap c else b2)
    = backoff_at c (Suc i)"
proof -
  have "0 \<le> backoff_at c i" "backoff_at c i < 2 ^ 62" using assms by (auto simp: backoff_at_def min_def)
  then have "wrap64 (backoff_at c i * 2) = backoff_at c i * 2"
    by (intro wrap64_id) (simp add: int64_range_def)
  then show ?thesis using assms by (simp add: backoff_at_def Let_def min_def)
qed

text \<open>One turn of the loop: exhausted, cancelled, connected, or failed once more.\<close>

lemma retry_exhausted:
  "vc_RetryMax (cl_cfg c) < a \<Longrightarrow> retry_loop c cx wr dial a b le =
     (Inl (GaveUpAfter (vc_RetryMax (cl_cfg c) + 1) le), 0, [])"
  by (subst retry_loop.simps) simp

lemma retry_cancelled:
  "a \<le> vc_RetryMax (cl_cfg c) \<Longrightarrow> 0 < a \<Longrightarrow> cx_done cx a = Some e \<Longrightarrow>
   retry_loop c cx wr dial a b le = (Inl (CancelledAfter a e), 0, [])"
  by (subst retry_loop.simps) simp

lemma retry_connected:
  "a \<le> vc_RetryMax (cl_cfg c) \<Longrightarrow> 0 < a \<longrightarrow> cx_done cx a = None \<Longrightarrow> connect c wr (dial a) = Inr k \<Longrightarrow>
   retry_loop c cx wr dial a b le = (Inr k, 1, if 0 < a then [b] else [])"
  by (subst retry_loop.simps) simp

definition next_backoff :: "VsockConfig \<Rightarrow> int \<Rightarrow> int" where
  "next_backoff c b = (let b2 = wrap64 (b * 2) in if b2 > vc_RetryCap c then vc_RetryCap c else b2)"

lemma retry_failed:
  "a \<le> vc_RetryMax (cl_cfg c) \<Longrightarrow> 0 < a \<longrightarrow> cx_done cx a = None \<Longrightarrow> connect c wr (dial a) = Inl e \<Longrightarrow>
   retry_loop c cx wr dial a b le =
     (let (res, n, sl) = retry_loop c cx wr dial (a + 1) (if 0 < a then next_backoff (cl_cfg c) b else b) (Some e)
      in (res, Suc n, (if 0 < a then [b] else []) @ sl))"
  by (subst retry_loop.simps) (simp add: next_backoff_def Let_def)

lemmas retry_turns = retry_exhausted retry_cancelled retry_connected retry_failed

lemma retry_induct [case_names exhausted cancelled connected failed]:
  assumes "\<And>a b le. vc_RetryMax (cl_cfg c) < a \<Longrightarrow> P a b le"
    and "\<And>a b le e. a \<le> vc_RetryMax (cl_cfg c) \<Longrightarrow> 0 < a \<Longrightarrow> cx_done cx a = Some e \<Longrightarrow> P a b le"
    and "\<And>a b le k. a \<le> vc_RetryMax (cl_cfg c) \<Longrightarrow> 0 < a \<longrightarrow> cx_done cx a = None \<Longrightarrow>
      connect c wr (dial a) = Inr k \<Longrightarrow> P a b le"
    and "\<And>a b le e. a \<le> vc_RetryMax (cl_cfg c) \<Longrightarrow> 0 < a \<longrightarrow> cx_done cx a = None \<Longrightarrow>
      connect c wr (dial a) = Inl e \<Longrightarrow>
      P (a + 1) (if 0 < a then next_backoff (cl_cfg c) b else b) (Some e) \<Longrightarrow> P a b le"
  shows "P a b le"
proof (induction "nat (vc_RetryMax (cl_cfg c) + 1 - a)" arbitrary: a b le)
  case 0
  then show ?case using assms(1) by simp
next
  case (Suc m)
  then have a: "a \<le> vc_RetryMax (cl_cfg c)" and "m = nat (vc_RetryMax (cl_cfg c) + 1 - (a + 1))" by auto
  with Suc.hyps(1) have "P (a + 1) b' le'" for b' le' by blast
  then show ?case
    using a assms(2-4) by (cases "0 < a \<and> cx_done cx a \<noteq> None"; cases "connect c wr (dial a)") auto
qed

lemma retry_Inr_iff:
  "fst (retry_loop c cx wr dial a b le) = Inr k \<longleftrightarrow>
     (\<exists>i. a \<le> i \<and> i \<le> vc_RetryMax (cl_cfg c) \<and> connect c wr (dial i) = Inr k \<and>
        (\<forall>j. a \<le> j \<and> j < i \<longrightarrow> isl (connect c wr (dial j))) \<and>
        (\<forall>j. a \<le> j \<and> j \<le> i \<and> 0 < j \<longrightarrow> cx_done cx j = None))"
  (is "_ \<longleftrightarrow> (\<exists>i. ?Q a i)")
proof (induction a b le rule: retry_induct [where c = c and cx = cx and wr = wr and dial = dial])
  case (exhausted a b le)
  then show ?case by (auto simp: retry_exhausted)
next
  case (cancelled a b le e)
  then show ?case by (auto simp: retry_cancelled)
next
  case (connected a b le k')
  then have "(a \<le> i \<and> (\<forall>j. a \<le> j \<and> j < i \<longrightarrow> isl (connect c wr (dial j)))) \<longleftrightarrow> i = a" for i
    by (auto simp: le_less)
  then have "?Q a i \<longleftrightarrow> i = a \<and> k' = k" for i
    using connected by (metis order_antisym_conv sum.inject(2))
  with connected show ?case by (simp add: retry_connected)
next
  case (failed a b le e)
  have "?Q a i \<longleftrightarrow> ?Q (a + 1) i" for i
  proof
    assume q: "?Q a i"
    with failed have "i \<noteq> a" by auto
    with q show "?Q (a + 1) i" by auto
  next
    assume q: "?Q (a + 1) i"
    have "isl (connect c wr (dial j))" if "a \<le> j" "j < i" for j
      using q failed(3) that by (cases "j = a") auto
    moreover have "cx_done cx j = None" if "a \<le> j" "j \<le> i" "0 < j" for j
      using q failed(2) that by (cases "j = a") auto
    ultimately show "?Q a i" using q by simp
  qed
  with failed show ?case by (simp add: retry_failed case_prod_beta Let_def)
qed

lemma retry_dials: "fst (snd (retry_loop c cx wr dial a b le)) \<le> nat (vc_RetryMax (cl_cfg c) + 1 - a)"
proof (induction a b le rule: retry_induct [where c = c and cx = cx and wr = wr and dial = dial])
  case (failed a b le e)
  then show ?case by (simp add: retry_failed case_prod_beta Let_def)
qed (auto simp: retry_turns)

lemma retry_Inl:
  "fst (retry_loop c cx wr dial a b le) = Inl e \<Longrightarrow>
   (\<exists>i x. e = CancelledAfter i x) \<or> (\<exists>i x. e = GaveUpAfter i x)"
proof (induction a b le rule: retry_induct [where c = c and cx = cx and wr = wr and dial = dial])
  case (failed a b le e)
  then show ?case by (simp add: retry_failed case_prod_beta Let_def)
qed (auto simp: retry_turns)

lemma retry_sleeps:
  assumes "0 < vc_RetryBase (cl_cfg c)" "vc_RetryBase (cl_cfg c) < 2 ^ 62"
    "0 \<le> vc_RetryCap (cl_cfg c)" "vc_RetryCap (cl_cfg c) < 2 ^ 62"
  shows "0 < a \<Longrightarrow> b = backoff_at (cl_cfg c) (nat a - 1) \<Longrightarrow>
    retry_loop c cx wr dial a b le = (res, n, sl) \<Longrightarrow>
    sl = map (backoff_at (cl_cfg c)) [nat a - 1..<nat a - 1 + n]"
proof (induction a b le arbitrary: res n sl
    rule: retry_induct [where c = c and cx = cx and wr = wr and dial = dial])
  case (failed a b le e)
  obtain res' n' sl' where rec: "retry_loop c cx wr dial (a + 1) (next_backoff (cl_cfg c) b) (Some e) = (res', n', sl')"
    by (metis prod_cases3)
  have a: "nat (a + 1) - 1 = Suc (nat a - 1)" using failed.prems(1) by simp
  have "next_backoff (cl_cfg c) b = backoff_at (cl_cfg c) (nat (a + 1) - 1)"
    using backoff_step [OF assms, of "nat a - 1"] failed.prems(2) a by (simp add: next_backoff_def)
  with failed rec a have "sl' = map (backoff_at (cl_cfg c)) [Suc (nat a - 1)..<Suc (nat a - 1) + n']"
    by simp
  moreover obtain m where "nat a = Suc m" using failed.prems(1) by (cases "nat a") auto
  ultimately show ?case using failed.hyps failed.prems rec by (auto simp: retry_failed upt_conv_Cons)
next
  case (connected a b le k)
  moreover obtain m where "nat a = Suc m" using connected.prems(1) by (cases "nat a") auto
  ultimately show ?case by (auto simp: retry_connected)
qed (auto simp: retry_turns)

section \<open>Lemmas on the frame loop\<close>

lemma exec_loop_shape:
  "exec_loop cx r = (res, fs) \<Longrightarrow>
    (\<forall>f \<in> set (butlast fs). \<not> Terminal f) \<and>
    (res = None \<longleftrightarrow> fs \<noteq> [] \<and> Terminal (last fs) \<and> rf_Kind (last fs) \<noteq> FrameError) \<and>
    (\<forall>e. res = Some (GuestError e) \<longleftrightarrow> fs \<noteq> [] \<and> rf_Kind (last fs) = FrameError \<and> rf_Error (last fs) = e)"
proof (induction cx r arbitrary: res fs rule: exec_loop.induct)
  case (1 cx r)
  show ?case
  proof (cases "ReadMessage unmarshalFrame r")
    case (Pair x r')
    show ?thesis
    proof (cases x)
      case (Inl e)
      with 1(2) Pair show ?thesis by (subst (asm) exec_loop.simps) (auto split: option.splits if_splits)
    next
      case (Inr f)
      show ?thesis
      proof (cases "Terminal f")
        case True
        with 1(2) Pair Inr show ?thesis
          by (subst (asm) exec_loop.simps) (auto split: if_splits simp: Terminal_def)
      next
        case False
        obtain res' fs' where rec: "exec_loop cx r' = (res', fs')" by fastforce
        with 1(2) Pair Inr False have "res = res'" "fs = f # fs'"
          by (subst (asm) exec_loop.simps, simp)+
        with 1(1) [OF Pair [symmetric] Inr False rec] False show ?thesis
          by (auto simp: Terminal_def)
      qed
    qed
  qed
qed

lemma exec_loop_frames:
  assumes "\<forall>f \<in> set outs. wire_fits f \<and> \<not> Terminal (normFrame f)" "wire_fits t" "Terminal (normFrame t)"
  shows "exec_loop cx \<lparr>rd_buf = concat (map frame_wire (outs @ [t])) @ rest, rd_end = e\<rparr> =
    (if rf_Kind (normFrame t) = FrameError then Some (GuestError (rf_Error (normFrame t))) else None,
     map normFrame (outs @ [t]))"
  using assms(1)
proof (induction outs)
  case Nil
  with assms(2,3) show ?case by (subst exec_loop.simps) (simp add: read_frame_wire)
next
  case (Cons f outs)
  then show ?case by (subst exec_loop.simps) (simp add: read_frame_wire)
qed

section \<open>Properties of the client\<close>

text \<open>
  A handshake succeeds exactly when the \<open>CONNECT\<close> line was written and the first
  line that arrives starts with \<open>OK \<close>; and then nothing of the stream is lost: what the
  client reads next starts with the very byte after that line.
\<close>

theorem handshake_exact:
  "connect c wr (Inr (w, r)) = Inr (w', r') \<longleftrightarrow>
     wr (''CONNECT '' @ itoa (uint (vc_Port (cl_cfg c))) @ [CHR 0x0A]) w = (None, w') \<and>
     (\<exists>line. CHR 0x0A \<notin> set line \<and> prefix ''OK '' line \<and>
        rd_buf r = line @ CHR 0x0A # rd_buf r' \<and> rd_end r' = rd_end r)"
  by (simp add: connect_def doHandshake_Inr_iff connectLine_def)

text \<open>
  C14: Dialling ends, and backs off exponentially under its cap. Whatever the network and the context do, at most
  \<open>RetryMax + 1\<close> dials are made. The call yields the connection of the first attempt
  that succeeds, provided the context was not done before it; and the waits between the
  attempts are \<open>RetryBase\<close>, then its doublings cut at \<open>RetryCap\<close>, one fewer than the dials.
\<close>

theorem dial_bounded_backoff:
  assumes "0 < vc_RetryBase (cl_cfg c)" "vc_RetryBase (cl_cfg c) < 2 ^ 62"
    and "0 \<le> vc_RetryCap (cl_cfg c)" "vc_RetryCap (cl_cfg c) < 2 ^ 62"
    and "dialWithRetry c cx wr dial = (res, n, waits)"
  shows "n \<le> nat (vc_RetryMax (cl_cfg c) + 1) \<and>
    (res = Inr k \<longleftrightarrow>
      (\<exists>i. 0 \<le> i \<and> i \<le> vc_RetryMax (cl_cfg c) \<and> connect c wr (dial i) = Inr k \<and>
        (\<forall>j. 0 \<le> j \<and> j < i \<longrightarrow> isl (connect c wr (dial j))) \<and>
        (\<forall>j. 0 < j \<and> j \<le> i \<longrightarrow> cx_done cx j = None))) \<and>
    waits = map (\<lambda>i. if i = 0 then vc_RetryBase (cl_cfg c)
                     else min (vc_RetryBase (cl_cfg c) * 2 ^ i) (vc_RetryCap (cl_cfg c))) [0..<n - 1]"
proof -
  have run: "retry_loop c cx wr dial 0 (vc_RetryBase (cl_cfg c)) None = (res, n, waits)"
    using assms(5) by (simp add: dialWithRetry_def)
  have "n \<le> nat (vc_RetryMax (cl_cfg c) + 1)"
    using retry_dials [of c cx wr dial 0 "vc_RetryBase (cl_cfg c)" None] run by simp
  moreover have "res = Inr k \<longleftrightarrow>
      (\<exists>i. 0 \<le> i \<and> i \<le> vc_RetryMax (cl_cfg c) \<and> connect c wr (dial i) = Inr k \<and>
        (\<forall>j. 0 \<le> j \<and> j < i \<longrightarrow> isl (connect c wr (dial j))) \<and>
        (\<forall>j. 0 < j \<and> j \<le> i \<longrightarrow> cx_done cx j = None))"
    using retry_Inr_iff [of c cx wr dial 0 "vc_RetryBase (cl_cfg c)" None k] run
    by (simp add: conj_ac less_le)
  moreover have "waits = map (backoff_at (cl_cfg c)) [0..<n - 1]"
  proof (cases "vc_RetryMax (cl_cfg c) < 0 \<or> \<not> isl (connect c wr (dial 0))")
    case True
    then show ?thesis using run by (cases "connect c wr (dial 0)"; cases "vc_RetryMax (cl_cfg c) < 0")
      (auto simp: retry_exhausted retry_connected)
  next
    case False
    then obtain e where e: "connect c wr (dial 0) = Inl e" by (cases "connect c wr (dial 0)") auto
    obtain res' n' sl' where rec: "retry_loop c cx wr dial 1 (vc_RetryBase (cl_cfg c)) (Some e) = (res', n', sl')"
      by (metis prod_cases3)
    have "sl' = map (backoff_at (cl_cfg c)) [0..<n']"
      using retry_sleeps [OF assms(1-4) _ _ rec] by (simp add: backoff_at_def)
    moreover have "n = Suc n'" "waits = sl'"
      using run rec e False by (auto simp: retry_failed)
    ultimately show ?thesis by simp
  qed
  ultimately show ?thesis by (simp only: backoff_at_def [abs_def])
qed

definition exClient :: Client where
  "exClient = NewClient ''/srv/vsock.sock'' \<lparr>vc_Port = 0, vc_DialTimeout = 0, vc_RetryMax = 3, vc_RetryBase = 0,
     vc_RetryCap = 0, vc_PingDeadline = 0\<rparr>"

definition exCtx :: ctx where
  "exCtx = \<lparr>cx_done = \<lambda>_. None, cx_err = None\<rparr>"

lemma exClient_fields [simp]:
  "vc_RetryBase (cl_cfg exClient) = 100000000" "vc_RetryCap (cl_cfg exClient) = 2000000000"
  "vc_RetryMax (cl_cfg exClient) = 3" "vc_Port (cl_cfg exClient) = DefaultPort"
  by (simp_all add: exClient_def NewClient_def applyDefaults_def Millisecond_def Second_def)

theorem dial_bounded_backoff_witness:
  "\<exists>n waits res. dialWithRetry exClient exCtx buf_write (\<lambda>_. Inl ''refused'') = (res, n, waits) \<and>
     n \<le> 4 \<and> res \<noteq> Inr ([], \<lparr>rd_buf = [], rd_end = None\<rparr>) \<and> length waits = n - 1"
proof -
  obtain res n waits where run: "dialWithRetry exClient exCtx buf_write (\<lambda>_. Inl ''refused'') = (res, n, waits)"
    by (metis prod_cases3)
  have "n \<le> 4 \<and> res \<noteq> Inr ([], \<lparr>rd_buf = [], rd_end = None\<rparr>) \<and> length waits = n - 1"
    using dial_bounded_backoff [OF _ _ _ _ run, of "([], \<lparr>rd_buf = [], rd_end = None\<rparr>)"]
    by (simp add: connect_def)
  with run show ?thesis by blast
qed

text \<open>
  C13: \<open>Exec\<close> never reports success, and never reports an error of the guest, without the
  matching terminal frame. Whatever the network does, of the frames delivered to the
  callback only the last can be terminal; the call returns no error exactly when the last
  frame delivered is an exit or pong frame, and it returns the guest's error exactly when
  the last frame is that error frame.
\<close>

theorem exec_verdict_from_terminal:
  assumes "Exec c cx wr dial req = (res, fs, w)"
  shows "(\<forall>f \<in> set (butlast fs). \<not> Terminal f) \<and>
    (res = None \<longleftrightarrow> fs \<noteq> [] \<and> (rf_Kind (last fs) = FrameExit \<or> rf_Kind (last fs) = FramePong)) \<and>
    (\<forall>e. res = Some (GuestError e) \<longleftrightarrow>
       fs \<noteq> [] \<and> rf_Kind (last fs) = FrameError \<and> rf_Error (last fs) = e)"
proof (cases "fst (dialWithRetry c cx wr dial)")
  case (Inl e)
  moreover from this have "e \<noteq> GuestError x" for x by (auto simp: dialWithRetry_def dest: retry_Inl)
  ultimately show ?thesis using assms by (auto simp: Exec_def)
next
  case (Inr k)
  obtain w0 r where k: "k = (w0, r)" by fastforce
  obtain e w1 where wm: "WriteMessage marshalRequest wr w0 req = (e, w1)" by fastforce
  show ?thesis
  proof (cases e)
    case (Some x)
    with assms Inr k wm show ?thesis by (auto simp: Exec_def split: option.splits)
  next
    case None
    with assms Inr k wm have "exec_loop cx r = (res, fs)" "w = Some w1"
      by (auto simp: Exec_def split: prod.splits)
    then show ?thesis using exec_loop_shape [of cx r res fs] by (auto simp: Terminal_def kind_defs)
  qed
qed

theorem exec_verdict_from_terminal_witness:
  "\<exists>res fs w. Exec exClient exCtx buf_write (\<lambda>_. Inr ([], \<lparr>rd_buf = ''OK 1'' @ [CHR 0x0A], rd_end = None\<rparr>)) zeroRequest
     = (res, fs, w) \<and> list_all (\<lambda>f. \<not> Terminal f) (butlast fs) \<and>
     (res = None) = (fs \<noteq> [] \<and> (rf_Kind (last fs) = FrameExit \<or> rf_Kind (last fs) = FramePong))"
proof -
  obtain res fs w where run: "Exec exClient exCtx buf_write
      (\<lambda>_. Inr ([], \<lparr>rd_buf = ''OK 1'' @ [CHR 0x0A], rd_end = None\<rparr>)) zeroRequest = (res, fs, w)"
    by (metis prod_cases3)
  from exec_verdict_from_terminal [OF this] run show ?thesis unfolding list_all_iff by blast
qed

lemma connect_ok_line:
  "CHR 0x0A \<notin> set line \<Longrightarrow>
   connect c buf_write (Inr (w, \<lparr>rd_buf = ''OK '' @ line @ CHR 0x0A # b, rd_end = e\<rparr>)) =
     Inr (w @ connectLine (vc_Port (cl_cfg c)), \<lparr>rd_buf = b, rd_end = e\<rparr>)"
proof -
  assume "CHR 0x0A \<notin> set line"
  then have "doHandshake buf_write (vc_Port (cl_cfg c)) (w, \<lparr>rd_buf = ''OK '' @ line @ CHR 0x0A # b, rd_end = e\<rparr>) =
     Inr (w @ connectLine (vc_Port (cl_cfg c)), \<lparr>rd_buf = b, rd_end = e\<rparr>)"
    unfolding doHandshake_Inr_iff by (auto simp: buf_write_def intro!: exI [of _ "''OK '' @ line"])
  then show ?thesis by (simp add: connect_def)
qed

lemma dial_first_ok:
  assumes "0 \<le> vc_RetryMax (cl_cfg c)" and "connect c wr (dial 0) = Inr k"
  shows "fst (dialWithRetry c cx wr dial) = Inr k"
  using assms by (simp add: dialWithRetry_def retry_connected)

text \<open>
  \<open>Exec\<close> delivers the whole reply. When the peer accepts the connection and then sends
  any sequence of non-terminal frames followed by a terminal one, the callback gets exactly
  these frames in that order (with invalid UTF-8 replaced), nothing that follows is
  touched, and the verdict is the terminal frame's. The bytes sent to the peer are the
  \<open>CONNECT\<close> line and the framed request.
\<close>

theorem exec_delivers_reply:
  assumes "0 \<le> vc_RetryMax (cl_cfg c)" and "CHR 0x0A \<notin> set line"
    and "\<forall>f \<in> set outs. wire_fits f \<and> \<not> Terminal (normFrame f)"
    and "wire_fits t" and "Terminal (normFrame t)"
    and "length (jprint (requestJSON req)) \<le> MaxFrameSize"
    and "dial 0 = Inr ([], \<lparr>rd_buf = ''OK '' @ line @ CHR 0x0A # concat (map frame_wire (outs @ [t])) @ rest, rd_end = e\<rparr>)"
  shows "Exec c cx buf_write dial req =
    (if rf_Kind (normFrame t) = FrameError then Some (GuestError (rf_Error (normFrame t))) else None,
     map normFrame (outs @ [t]),
     Some (connectLine (vc_Port (cl_cfg c)) @ frame_bytes (jprint (requestJSON req))))"
proof -
  let ?r = "\<lparr>rd_buf = concat (map frame_wire (outs @ [t])) @ rest, rd_end = e\<rparr>"
  have "connect c buf_write (dial 0) = Inr (connectLine (vc_Port (cl_cfg c)), ?r)"
    unfolding assms(7) using connect_ok_line [OF assms(2), of c "[]"] by simp
  then have "fst (dialWithRetry c cx buf_write dial) = Inr (connectLine (vc_Port (cl_cfg c)), ?r)"
    by (rule dial_first_ok [OF assms(1)])
  moreover have "WriteMessage marshalRequest buf_write (connectLine (vc_Port (cl_cfg c))) req =
      (None, connectLine (vc_Port (cl_cfg c)) @ frame_bytes (jprint (requestJSON req)))"
    using assms(6) by (simp add: WriteMessage_buf [where p = "jprint (requestJSON req)"] marshalRequest_def)
  ultimately show ?thesis
    unfolding Exec_def by (simp only: exec_loop_frames [OF assms(3-5)] sum.case prod.case option.case)
qed

lemma exFrames_fit: "list_all wire_fits exFrames"
proof -
  have "length (jprint (frameJSON f)) \<le> 64" "frame_ok f" if "f \<in> set exFrames" for f
    using that exFrames_short exFrames_ok by (auto simp: list_all_iff)
  then show ?thesis by (fastforce simp: list_all_iff wire_fits_def MaxFrameSize_def)
qed

theorem exec_delivers_reply_witness:
  "\<exists>sent. Exec exClient exCtx buf_write
     (\<lambda>_. Inr ([], \<lparr>rd_buf = ''OK '' @ ''1024'' @ CHR 0x0A # concat (map frame_wire ([hd exFrames] @ [last exFrames])) @ ''junk'',
        rd_end = None\<rparr>)) exRequest = (None, exFrames, Some sent)"
proof -
  have len: "length (jprint (requestJSON exRequest)) \<le> MaxFrameSize"
  proof -
    have "length (jprint (requestJSON exRequest)) \<le> 150" by code_simp
    then show ?thesis by (simp add: MaxFrameSize_def)
  qed
  have norm: "normFrame (hd exFrames) = hd exFrames" "normFrame (last exFrames) = last exFrames"
    using exFrames_ok by (auto simp: exFrames_def intro!: normFrame_id)
  have ids: "map normFrame exFrames = exFrames"
    using exFrames_ok by (auto intro!: map_idI normFrame_id)
  have fit: "wire_fits (hd exFrames)" "wire_fits (last exFrames)"
    using exFrames_fit by (auto simp: exFrames_def)
  have trm: "\<not> Terminal (hd exFrames)" "Terminal (last exFrames)" "rf_Kind (last exFrames) \<noteq> FrameError"
    by (simp_all add: exFrames_def Terminal_def kind_defs)
  have "exFrames = [hd exFrames, last exFrames]" by (simp add: exFrames_def)
  then show ?thesis
    using exec_delivers_reply [of exClient "''1024''" "[hd exFrames]" "last exFrames" exRequest
      "\<lambda>_. Inr ([], \<lparr>rd_buf = ''OK '' @ ''1024'' @ CHR 0x0A # concat (map frame_wire ([hd exFrames] @ [last exFrames])) @ ''junk'',
        rd_end = None\<rparr>)" "''junk''" None exCtx] len norm ids fit trm
    by simp
qed

text \<open>What a written reply means to the frame loop.\<close>

lemma exec_loop_wire:
  assumes "wire_good b" and "wire_view b = outs @ [t]" and "\<forall>f \<in> set outs. \<not> Terminal f" and "Terminal t"
  shows "exec_loop cx \<lparr>rd_buf = b, rd_end = e\<rparr> =
    (if rf_Kind t = FrameError then Some (GuestError (rf_Error t)) else None, outs @ [t])"
proof -
  obtain fs where fs: "\<forall>f \<in> set fs. wire_fits f" "b = concat (map frame_wire fs)"
    using assms(1) by (auto simp: wire_good_def)
  then have v: "map normFrame fs = outs @ [t]" using assms(2) wire_view_concat by simp
  then obtain os l where l: "fs = os @ [l]" "map normFrame os = outs" "normFrame l = t"
    by (metis append_butlast_last_id last_map list.map_disc_iff map_butlast snoc_eq_iff_butlast)
  have "\<not> Terminal (normFrame f)" if "f \<in> set os" for f
    using that l(2) assms(3) by auto
  then show ?thesis
    using exec_loop_frames [of os l cx "[]" e] fs l assms(4) by simp
qed

end
