(* ===== verification/CidAlloc.thy ===== *)
theory CidAlloc
  imports Prelude
begin

text \<open>
  The allocator of guest context ids (\<open>cidAllocator\<close> in
  \<open>internal/orchestrator/orchestrator.go\<close>): a cursor that runs round the range
  \<open>min..max\<close> of 32-bit ids, skipping the ids in use. The interface the supervisor relies
  on is the locale \<open>id_pool\<close>; the allocator is shown to provide it.
\<close>

section \<open>The allocator\<close>

record cidAllocator =
  ca_min :: u32
  ca_max :: u32
  ca_next :: u32
  ca_used :: "u32 set"

definition newCIDAllocator :: "u32 \<Rightarrow> u32 \<Rightarrow> cidAllocator" where
  "newCIDAllocator mn mx = \<lparr>ca_min = mn, ca_max = mx, ca_next = mn, ca_used = {}\<rparr>"

definition cid_advance :: "cidAllocator \<Rightarrow> cidAllocator" where
  "cid_advance a = a\<lparr>ca_next := (if ca_next a = ca_max a then ca_min a else ca_next a + 1)\<rparr>"

text \<open>The loop of \<open>alloc\<close> with \<open>n\<close> turns left.\<close>

fun alloc_loop :: "nat \<Rightarrow> cidAllocator \<Rightarrow> (string, u32) result \<times> cidAllocator" where
  "alloc_loop 0 a = (Inl ''orchestrator: CID pool exhausted'', a)"
| "alloc_loop (Suc n) a =
     (let c = ca_next a; a1 = cid_advance a in
      if c \<notin> ca_used a1 then (Inr c, a1\<lparr>ca_used := insert c (ca_used a1)\<rparr>)
      else alloc_loop n a1)"

definition cid_alloc :: "cidAllocator \<Rightarrow> (string, u32) result \<times> cidAllocator" where
  "cid_alloc a = alloc_loop (unat (ca_max a - ca_min a + 1)) a"

definition cid_free :: "u32 \<Rightarrow> cidAllocator \<Rightarrow> cidAllocator" where
  "cid_free c a = a\<lparr>ca_used := ca_used a - {c}\<rparr>"

section \<open>The interface\<close>

locale id_pool =
  fixes alloc :: "'s \<Rightarrow> ('e, 'c) result \<times> 's"
    and free :: "'c \<Rightarrow> 's \<Rightarrow> 's"
    and inv :: "'s \<Rightarrow> bool"
    and used :: "'s \<Rightarrow> 'c set"
    and univ :: "'s \<Rightarrow> 'c set"
  assumes alloc_Inr: "inv s \<Longrightarrow> alloc s = (Inr c, s') \<Longrightarrow>
      inv s' \<and> univ s' = univ s \<and> c \<in> univ s \<and> c \<notin> used s \<and> used s' = insert c (used s)"
    and alloc_Inl: "inv s \<Longrightarrow> alloc s = (Inl e, s') \<Longrightarrow>
      inv s' \<and> univ s' = univ s \<and> used s' = used s \<and> univ s \<subseteq> used s"
    and free_law: "inv s \<Longrightarrow> inv (free c s) \<and> univ (free c s) = univ s \<and> used (free c s) = used s - {c}"
begin

lemma alloc_free:
  assumes "inv s" and "alloc s = (Inr c, s')"
  shows "used (free c s') = used s" and "inv (free c s')"
  using alloc_Inr [OF assms] free_law by auto

lemma alloc_succeeds:
  assumes "inv s" and "c \<in> univ s" and "c \<notin> used s"
  shows "\<exists>d s'. alloc s = (Inr d, s')"
proof (cases "alloc s")
  case (Pair r s')
  then show ?thesis using alloc_Inl [OF assms(1)] assms(2,3) by (cases r) auto
qed

text \<open>
  \<open>k\<close> callers in a row, none of which gives its id back, get \<open>k\<close> different ids as long
  as \<open>k\<close> are left.
\<close>

fun allocs :: "nat \<Rightarrow> 's \<Rightarrow> 'c list \<times> 's" where
  "allocs 0 s = ([], s)"
| "allocs (Suc k) s = (case alloc s of
      (Inl e, s') \<Rightarrow> ([], s')
    | (Inr c, s') \<Rightarrow> (case allocs k s' of (cs, s'') \<Rightarrow> (c # cs, s'')))"

lemma allocs_distinct:
  assumes "inv s" and "allocs k s = (cs, s')"
  shows "distinct cs \<and> set cs \<subseteq> univ s \<and> set cs \<inter> used s = {} \<and> used s' = set cs \<union> used s \<and>
    inv s' \<and> univ s' = univ s \<and> (length cs = k \<or> univ s \<subseteq> used s')"
  using assms
proof (induction k arbitrary: s cs s')
  case (Suc k)
  obtain r s1 where a: "alloc s = (r, s1)" by fastforce
  show ?case
  proof (cases r)
    case (Inl e)
    with Suc.prems a alloc_Inl [OF Suc.prems(1)] show ?thesis by auto
  next
    case (Inr c)
    obtain ds s2 where rec: "allocs k s1 = (ds, s2)" by fastforce
    have c: "inv s1" "univ s1 = univ s" "c \<in> univ s" "c \<notin> used s" "used s1 = insert c (used s)"
      using alloc_Inr [OF Suc.prems(1)] a Inr by auto
    have "cs = c # ds" "s' = s2" using Suc.prems(2) a Inr rec by auto
    with Suc.IH [OF c(1) rec] c show ?thesis by auto
  qed
qed auto

end

section \<open>The allocator provides it\<close>

definition cid_ok :: "cidAllocator \<Rightarrow> bool" where
  "cid_ok a \<longleftrightarrow> 0 < ca_min a \<and> ca_min a \<le> ca_next a \<and> ca_next a \<le> ca_max a \<and>
     ca_used a \<subseteq> {ca_min a..ca_max a}"

lemma cid_ok_new: "0 < mn \<Longrightarrow> mn \<le> mx \<Longrightarrow> cid_ok (newCIDAllocator mn mx)"
  by (simp add: cid_ok_def newCIDAllocator_def)

lemma u32_bound: "unat (w::u32) < 2 ^ 32"
  using unsigned_less [of w, where 'a = nat] by simp

lemma u32_suc: "(c::u32) < m \<Longrightarrow> unat (c + 1) = unat c + 1"
  using unat_mono [of c m] u32_bound [of m] by (simp add: unat_word_ariths)

lemma cid_advance_fields [simp]:
  "ca_min (cid_advance a) = ca_min a" "ca_max (cid_advance a) = ca_max a" "ca_used (cid_advance a) = ca_used a"
  by (simp_all add: cid_advance_def)

lemma cid_advance_pos:
  assumes "cid_ok a"
  shows "cid_ok (cid_advance a)"
    and "unat (ca_next (cid_advance a)) =
      (if ca_next a = ca_max a then unat (ca_min a) else unat (ca_next a) + 1)"
proof -
  have lt: "ca_next a \<noteq> ca_max a \<Longrightarrow> ca_next a < ca_max a" using assms by (auto simp: cid_ok_def)
  show n: "unat (ca_next (cid_advance a)) =
      (if ca_next a = ca_max a then unat (ca_min a) else unat (ca_next a) + 1)"
    using u32_suc [OF lt] by (simp add: cid_advance_def)
  show "cid_ok (cid_advance a)"
  proof (cases "ca_next a = ca_max a")
    case False
    with n have "unat (ca_next (cid_advance a)) = unat (ca_next a) + 1" by simp
    moreover have "unat (ca_next a) < unat (ca_max a)" using lt [OF False] by (rule unat_mono)
    ultimately show ?thesis using assms by (auto simp: cid_ok_def word_le_nat_alt)
  qed (use assms in \<open>auto simp: cid_ok_def cid_advance_def\<close>)
qed

lemma alloc_loop_Inr:
  "cid_ok a \<Longrightarrow> alloc_loop n a = (Inr c, a') \<Longrightarrow>
   cid_ok a' \<and> ca_min a' = ca_min a \<and> ca_max a' = ca_max a \<and> ca_min a \<le> c \<and> c \<le> ca_max a \<and>
   c \<notin> ca_used a \<and> ca_used a' = insert c (ca_used a)"
proof (induction n arbitrary: a)
  case (Suc n)
  have adv: "cid_ok (cid_advance a)" using cid_advance_pos(1) Suc.prems(1) .
  show ?case
  proof (cases "ca_next a \<in> ca_used a")
    case True
    with Suc.prems Suc.IH [OF adv] show ?thesis by simp
  next
    case False
    with Suc.prems have "c = ca_next a" "a' = (cid_advance a)\<lparr>ca_used := insert c (ca_used a)\<rparr>" by (auto simp: Let_def)
    with adv Suc.prems(1) False show ?thesis by (auto simp: cid_ok_def)
  qed
qed simp

text \<open>A failed loop has met only used ids, at the positions the cursor went through.\<close>

lemma alloc_loop_Inl:
  "cid_ok a \<Longrightarrow> alloc_loop n a = (Inl e, a') \<Longrightarrow>
   cid_ok a' \<and> ca_min a' = ca_min a \<and> ca_max a' = ca_max a \<and> ca_used a' = ca_used a \<and>
   (\<forall>i < n. ca_next ((cid_advance ^^ i) a) \<in> ca_used a)"
proof (induction n arbitrary: a)
  case (Suc n)
  have adv: "cid_ok (cid_advance a)" using cid_advance_pos(1) Suc.prems(1) .
  have used: "ca_next a \<in> ca_used a"
    using Suc.prems(2) by (auto simp: Let_def split: if_splits)
  with Suc.prems Suc.IH [OF adv]
  have IH: "cid_ok a' \<and> ca_min a' = ca_min a \<and> ca_max a' = ca_max a \<and> ca_used a' = ca_used a"
    "\<forall>i < n. ca_next ((cid_advance ^^ i) (cid_advance a)) \<in> ca_used a" by auto
  have "ca_next ((cid_advance ^^ i) a) \<in> ca_used a" if "i < Suc n" for i
    using that used IH(2) by (cases i) (auto simp: funpow_Suc_right simp del: funpow.simps)
  with IH show ?case by blast
qed simp

lemma cid_cursor:
  assumes "cid_ok a"
  shows "unat (ca_next ((cid_advance ^^ i) a)) = unat (ca_min a) +
      (unat (ca_next a) - unat (ca_min a) + i) mod (unat (ca_max a) - unat (ca_min a) + 1) \<and>
    cid_ok ((cid_advance ^^ i) a) \<and> ca_min ((cid_advance ^^ i) a) = ca_min a \<and>
    ca_max ((cid_advance ^^ i) a) = ca_max a"
proof (induction i)
  case 0
  have "unat (ca_min a) \<le> unat (ca_next a)" "unat (ca_next a) \<le> unat (ca_max a)"
    using assms by (auto simp: cid_ok_def word_le_nat_alt)
  with assms show ?case by simp
next
  case (Suc i)
  let ?b = "(cid_advance ^^ i) a" and ?N = "unat (ca_max a) - unat (ca_min a) + 1"
  let ?k = "unat (ca_next a) - unat (ca_min a) + i"
  have b: "cid_ok ?b" "ca_min ?b = ca_min a" "ca_max ?b = ca_max a"
    "unat (ca_next ?b) = unat (ca_min a) + ?k mod ?N" using Suc by auto
  have le: "unat (ca_min a) \<le> unat (ca_max a)"
    using assms by (auto simp: cid_ok_def word_le_nat_alt intro: order_trans)
  have last: "ca_next ?b = ca_max ?b \<longleftrightarrow> ?k mod ?N = ?N - 1"
    using b(3,4) le by (metis add_diff_cancel_left' diff_add_inverse2 le_add_diff_inverse word_unat_eq_iff)
  have "Suc ?k mod ?N = (if ?k mod ?N = ?N - 1 then 0 else Suc (?k mod ?N))"
    by (simp add: mod_Suc)
  with cid_advance_pos [OF b(1)] b last show ?case by simp
qed

lemma cid_cursor_covers:
  assumes "cid_ok a" and "ca_min a \<le> c" and "c \<le> ca_max a"
  shows "\<exists>i < unat (ca_max a) - unat (ca_min a) + 1. ca_next ((cid_advance ^^ i) a) = c"
proof -
  let ?N = "unat (ca_max a) - unat (ca_min a) + 1"
  let ?p = "unat (ca_next a) - unat (ca_min a)" and ?q = "unat c - unat (ca_min a)"
  have q: "?q < ?N" and p: "?p < ?N"
    using assms by (auto simp: cid_ok_def word_le_nat_alt)
  define i where "i = (?q + (?N - ?p)) mod ?N"
  have "(?p + i) mod ?N = (?p + (?q + (?N - ?p))) mod ?N"
    unfolding i_def by (rule mod_add_right_eq)
  also have "?p + (?q + (?N - ?p)) = ?q + ?N" using p by simp
  also have "(?q + ?N) mod ?N = ?q" using q by (simp only: mod_add_self2 mod_less)
  finally have "(?p + i) mod ?N = ?q" .
  then have "unat (ca_next ((cid_advance ^^ i) a)) = unat c"
    using cid_cursor [OF assms(1), of i] assms(2) by (simp add: word_le_nat_alt)
  moreover have "i < ?N" unfolding i_def by simp
  ultimately show ?thesis by (auto simp: word_unat_eq_iff)
qed

lemma cid_total:
  assumes "cid_ok a"
  shows "unat (ca_max a - ca_min a + 1) = unat (ca_max a) - unat (ca_min a) + 1"
proof -
  have le: "ca_min a \<le> ca_max a" and pos: "0 < unat (ca_min a)"
    using assms by (auto simp: cid_ok_def word_less_nat_alt intro: order_trans)
  have d: "unat (ca_max a - ca_min a) = unat (ca_max a) - unat (ca_min a)"
    using le by (rule unat_sub)
  moreover have "unat (ca_max a) - unat (ca_min a) + 1 < 2 ^ 32"
    using u32_bound [of "ca_max a"] pos by simp
  ultimately show ?thesis by (simp add: unat_word_ariths)
qed

lemma cid_alloc_Inl:
  assumes "cid_ok a" and "cid_alloc a = (Inl e, a')"
  shows "cid_ok a' \<and> ca_min a' = ca_min a \<and> ca_max a' = ca_max a \<and> ca_used a' = ca_used a \<and>
    {ca_min a..ca_max a} \<subseteq> ca_used a"
  using alloc_loop_Inl [OF assms(1), of "unat (ca_max a - ca_min a + 1)" e a'] assms(2)
    cid_cursor_covers [OF assms(1)] cid_total [OF assms(1)]
  by (fastforce simp: cid_alloc_def)

interpretation cid_pool: id_pool cid_alloc cid_free cid_ok ca_used "\<lambda>a. {ca_min a..ca_max a}"
proof
  fix a :: cidAllocator and c a' e
  assume ok: "cid_ok a"
  show "cid_ok a' \<and> {ca_min a'..ca_max a'} = {ca_min a..ca_max a} \<and> c \<in> {ca_min a..ca_max a} \<and>
      c \<notin> ca_used a \<and> ca_used a' = insert c (ca_used a)" if "cid_alloc a = (Inr c, a')"
    using alloc_loop_Inr [OF ok, of "unat (ca_max a - ca_min a + 1)" c a'] that by (auto simp: cid_alloc_def)
  show "cid_ok a' \<and> {ca_min a'..ca_max a'} = {ca_min a..ca_max a} \<and> ca_used a' = ca_used a \<and>
      {ca_min a..ca_max a} \<subseteq> ca_used a" if "cid_alloc a = (Inl e, a')"
    using cid_alloc_Inl [OF ok that] by simp
  show "cid_ok (cid_free c a) \<and> {ca_min (cid_free c a)..ca_max (cid_free c a)} = {ca_min a..ca_max a} \<and>
      ca_used (cid_free c a) = ca_used a - {c}"
    using ok by (auto simp: cid_free_def cid_ok_def)
qed

section \<open>Property\<close>

text \<open>
  C20: Context ids are never shared and never wasted. On a well-formed allocator, an
  allocation returns an id of the configured range that was not in use and marks exactly
  that id as used; it fails only when every id of the range is in use, and then changes
  no id; giving the id back restores the set of used ids. All of it on 32-bit arithmetic.
\<close>

theorem cid_alloc_fresh_until_exhausted:
  assumes "cid_ok a"
  shows "case cid_alloc a of
      (Inr c, a') \<Rightarrow> ca_min a \<le> c \<and> c \<le> ca_max a \<and> c \<notin> ca_used a \<and>
        ca_used a' = insert c (ca_used a) \<and> cid_ok a' \<and> ca_used (cid_free c a') = ca_used a
    | (Inl e, a') \<Rightarrow> ca_used a = {ca_min a..ca_max a} \<and> ca_used a' = ca_used a \<and> cid_ok a'"
proof (cases "cid_alloc a")
  case (Pair r a')
  show ?thesis
  proof (cases r)
    case (Inl e)
    with Pair cid_pool.alloc_Inl [OF assms, of e a'] assms show ?thesis by (auto simp: cid_ok_def)
  next
    case (Inr c)
    with Pair cid_pool.alloc_Inr [OF assms, of c a'] cid_pool.alloc_free(1) [OF assms, of c a'] show ?thesis
      by simp
  qed
qed

theorem cid_alloc_fresh_until_exhausted_witness:
  "case cid_alloc (newCIDAllocator 3 5) of
      (Inr c, a') \<Rightarrow> 3 \<le> c \<and> c \<le> 5 \<and> ca_used a' = {c}
    | (Inl e, a') \<Rightarrow> False"
proof -
  have "cid_ok (newCIDAllocator 3 5)" by (rule cid_ok_new) simp_all
  from cid_alloc_fresh_until_exhausted [OF this]
  have "case cid_alloc (newCIDAllocator 3 5) of
      (Inr c, a') \<Rightarrow> 3 \<le> c \<and> c \<le> 5 \<and> ca_used a' = {c}
    | (Inl e, a') \<Rightarrow> {} = {3::u32..5}"
    by (auto simp: newCIDAllocator_def split: prod.splits sum.splits)
  moreover have "(3::u32) \<in> {3..5}" by simp
  ultimately show ?thesis by (auto split: prod.splits sum.splits)
qed

end
