(* ===== verification/Paths.thy ===== *)
theory Paths
  imports Prelude
begin

text \<open>
  The part of \<open>path/filepath\<close> the control plane uses to lay out its files: \<open>Clean\<close>,
  \<open>Join\<close> and \<open>Dir\<close> on Unix paths, and the facts that keep the directories of different
  sandboxes apart: joining an absolute base with a plain name gives a child of the base,
  and different names give different children.
\<close>

section \<open>Clean, Join and Dir\<close>

fun split_on :: "char \<Rightarrow> string \<Rightarrow> string list" where
  \<comment> \<open>\<open>strings.Split(s, d)\<close> for a separator of one byte\<close>
  "split_on d [] = [[]]"
| "split_on d (c # s) =
     (if c = d then [] # split_on d s
      else case split_on d s of [] \<Rightarrow> [[c]] | w # ws \<Rightarrow> (c # w) # ws)"

text \<open>
  The components left after cleaning, last one first: empty ones and dots vanish, a double
  dot takes back the component before it, and is dropped at the root.
\<close>

fun clean_comps :: "bool \<Rightarrow> string list \<Rightarrow> string list \<Rightarrow> string list" where
  "clean_comps rooted st [] = st"
| "clean_comps rooted st (c # cs) =
     (if c = [] \<or> c = ''.'' then clean_comps rooted st cs
      else if c = ''..'' then
        (case st of
           [] \<Rightarrow> clean_comps rooted (if rooted then [] else [c]) cs
         | t # ts \<Rightarrow> if t = ''..'' then clean_comps rooted (c # st) cs else clean_comps rooted ts cs)
      else clean_comps rooted (c # st) cs)"

definition rooted :: "string \<Rightarrow> bool" where
  "rooted p \<longleftrightarrow> (case p of [] \<Rightarrow> False | c # _ \<Rightarrow> c = CHR ''/'')"

fun join_slash :: "string list \<Rightarrow> string" where
  "join_slash [] = []"
| "join_slash [c] = c"
| "join_slash (c # d # cs) = c @ CHR ''/'' # join_slash (d # cs)"

definition comps_of :: "string \<Rightarrow> string list" where
  "comps_of p = rev (clean_comps (rooted p) [] (split_on (CHR ''/'') p))"

definition Clean :: "string \<Rightarrow> string" where
  "Clean p =
     (if rooted p then CHR ''/'' # join_slash (comps_of p)
      else if comps_of p = [] then ''.'' else join_slash (comps_of p))"

definition Join :: "string list \<Rightarrow> string" where
  "Join ps = (let qs = filter (\<lambda>p. p \<noteq> []) ps in if qs = [] then [] else Clean (join_slash qs))"

definition Dir :: "string \<Rightarrow> string" where
  "Dir p = Clean (dropWhileEnd (\<lambda>c. c \<noteq> CHR ''/'') p)"

section \<open>Plain names\<close>

definition plain :: "string \<Rightarrow> bool" where
  "plain n \<longleftrightarrow> n \<noteq> [] \<and> n \<noteq> ''.'' \<and> n \<noteq> ''..'' \<and> CHR ''/'' \<notin> set n"

lemma split_on_not_Nil [simp]: "split_on d s \<noteq> []"
  by (cases s) (auto split: list.splits)

lemma split_on_none: "d \<notin> set s \<Longrightarrow> split_on d s = [s]"
  by (induction s) auto

lemma split_on_append: "split_on d (s @ d # t) = split_on d s @ split_on d t"
proof (induction s)
  case (Cons c s)
  then show ?case by (cases "split_on d s") auto
qed simp

lemma clean_comps_append: "clean_comps r st (xs @ ys) = clean_comps r (clean_comps r st xs) ys"
  by (induction r st xs rule: clean_comps.induct) (auto split: list.splits)

lemma clean_comps_plain: "list_all plain xs \<Longrightarrow> clean_comps r st xs = rev xs @ st"
  by (induction xs arbitrary: st) (auto simp: plain_def)

text \<open>At the root, what is left of a path is plain.\<close>

lemma clean_comps_rooted_plain:
  assumes "list_all (\<lambda>c. d \<notin> set c) xs" and "d = CHR ''/''" and "list_all plain st"
  shows "list_all plain (clean_comps True st xs)"
  using assms
proof (induction xs arbitrary: st)
  case (Cons c xs)
  then show ?case by (cases st) (auto simp: plain_def)
qed simp

lemma split_on_no_sep: "w \<in> set (split_on d s) \<Longrightarrow> d \<notin> set w"
proof (induction s arbitrary: w)
  case (Cons c s)
  then show ?case by (cases "split_on d s") (auto split: if_splits)
qed simp

lemma comps_of_plain: "rooted p \<Longrightarrow> list_all plain (comps_of p)"
  using clean_comps_rooted_plain [of "CHR ''/''" "split_on (CHR ''/'') p" "[]"]
  by (auto simp: comps_of_def list_all_iff dest: split_on_no_sep)

lemma rooted_append [simp]: "p \<noteq> [] \<Longrightarrow> rooted (p @ q) = rooted p"
  by (cases p) (auto simp: rooted_def)

lemma rooted_not_Nil: "rooted p \<Longrightarrow> p \<noteq> []"
  by (auto simp: rooted_def)

lemma comps_of_snoc:
  assumes "rooted p" and "plain n"
  shows "comps_of (p @ CHR ''/'' # n) = comps_of p @ [n]"
proof -
  have "split_on (CHR ''/'') n = [n]" using assms(2) by (intro split_on_none) (simp add: plain_def)
  moreover have "clean_comps True st [n] = n # st" for st
    using clean_comps_plain [of "[n]" True st] assms(2) by simp
  ultimately show ?thesis
    using assms rooted_not_Nil [OF assms(1)]
    by (simp add: comps_of_def split_on_append clean_comps_append del: clean_comps.simps)
qed

text \<open>A cleaned absolute path, as a function of its components.\<close>

definition abs_path :: "string list \<Rightarrow> string" where
  "abs_path cs = CHR ''/'' # join_slash cs"

lemma Clean_rooted: "rooted p \<Longrightarrow> Clean p = abs_path (comps_of p)"
  by (simp add: Clean_def abs_path_def)

lemma rooted_abs_path [simp]: "rooted (abs_path cs)"
  by (simp add: rooted_def abs_path_def)

lemma split_join_slash: "cs \<noteq> [] \<Longrightarrow> list_all plain cs \<Longrightarrow> split_on (CHR ''/'') (join_slash cs) = cs"
  by (induction cs rule: join_slash.induct)
    (auto simp: split_on_append split_on_none plain_def)

lemma comps_of_abs_path: "list_all plain cs \<Longrightarrow> comps_of (abs_path cs) = cs"
proof (cases "cs = []")
  case True
  then show ?thesis by (simp add: comps_of_def abs_path_def)
next
  case False
  assume p: "list_all plain cs"
  have "split_on (CHR ''/'') (abs_path cs) = [] # cs"
    using split_join_slash [OF False p] by (simp add: abs_path_def)
  then show ?thesis
    using clean_comps_plain [OF p, of True "[]"] by (simp add: comps_of_def)
qed

lemma abs_path_inject:
  "list_all plain cs \<Longrightarrow> list_all plain ds \<Longrightarrow> abs_path cs = abs_path ds \<longleftrightarrow> cs = ds"
  by (metis comps_of_abs_path)

lemma Clean_idem: "rooted p \<Longrightarrow> Clean (Clean p) = Clean p"
  by (simp add: Clean_rooted comps_of_abs_path comps_of_plain)

section \<open>Children of a directory\<close>

lemma join_slash_snoc: "join_slash (b # ns @ [n]) = join_slash (b # ns) @ CHR ''/'' # n"
  by (induction ns arbitrary: b) auto

lemma rooted_join: "rooted b \<Longrightarrow> rooted (join_slash (b # ns))"
  using rooted_not_Nil [of b] by (cases ns) auto

lemma comps_of_join:
  "rooted b \<Longrightarrow> list_all plain ns \<Longrightarrow> comps_of (join_slash (b # ns)) = comps_of b @ ns"
proof (induction ns rule: rev_induct)
  case (snoc n ns)
  then show ?case using comps_of_snoc rooted_join by (simp add: join_slash_snoc)
qed simp

lemma Join_plain:
  assumes "rooted b" and "list_all plain ns"
  shows "Join (b # ns) = abs_path (comps_of b @ ns)"
proof -
  have "filter (\<lambda>p. p \<noteq> []) ns = ns"
    using assms(2) by (induction ns) (auto simp: plain_def)
  then show ?thesis
    using assms rooted_not_Nil [OF assms(1)]
    by (simp add: Join_def Clean_rooted rooted_join comps_of_join)
qed

lemma comps_of_Join: "rooted b \<Longrightarrow> list_all plain ns \<Longrightarrow> comps_of (Join (b # ns)) = comps_of b @ ns"
  by (simp add: Join_plain comps_of_abs_path comps_of_plain)

lemma rooted_Join [simp]: "rooted b \<Longrightarrow> list_all plain ns \<Longrightarrow> rooted (Join (b # ns))"
  by (simp add: Join_plain)

lemma Join_Join: "rooted b \<Longrightarrow> list_all plain ns \<Longrightarrow> list_all plain ms \<Longrightarrow>
    Join (Join (b # ns) # ms) = Join (b # ns @ ms)"
  by (simp add: Join_plain [of "Join (b # ns)"] comps_of_Join) (simp add: Join_plain)

lemma comps_of_trailing_slash: "rooted p \<Longrightarrow> comps_of (p @ ''/'') = comps_of p"
  using rooted_not_Nil [of p] by (simp add: comps_of_def split_on_append clean_comps_append)

lemma join_slash_snoc': "cs \<noteq> [] \<Longrightarrow> join_slash (cs @ [n]) = join_slash cs @ CHR ''/'' # n"
  using join_slash_snoc [of "hd cs" "tl cs" n] by (cases cs) auto

lemma dropWhileEnd_stop:
  "\<not> P c \<Longrightarrow> \<forall>x \<in> set n. P x \<Longrightarrow> dropWhileEnd P (xs @ c # n) = xs @ [c]"
  by (simp add: dropWhileEnd_def dropWhile_append3)

lemma Dir_abs_path:
  assumes "list_all plain cs" and "plain n"
  shows "Dir (abs_path (cs @ [n])) = abs_path cs"
proof -
  have n: "\<forall>x \<in> set n. x \<noteq> CHR ''/''" using assms(2) by (auto simp: plain_def)
  show ?thesis
  proof (cases "cs = []")
    case True
    with n have "dropWhileEnd (\<lambda>c. c \<noteq> CHR ''/'') (abs_path (cs @ [n])) = abs_path []"
      using dropWhileEnd_stop [of "\<lambda>c. c \<noteq> CHR ''/''" "CHR ''/''" n "[]"] by (simp add: abs_path_def)
    then show ?thesis using True by (simp add: Dir_def Clean_rooted comps_of_abs_path)
  next
    case False
    with n have "dropWhileEnd (\<lambda>c. c \<noteq> CHR ''/'') (abs_path (cs @ [n])) = abs_path cs @ ''/''"
      using dropWhileEnd_stop [of "\<lambda>c. c \<noteq> CHR ''/''" "CHR ''/''" n "abs_path cs"]
      by (simp add: abs_path_def join_slash_snoc')
    then show ?thesis
      using assms(1) rooted_not_Nil [OF rooted_abs_path]
      by (simp add: Dir_def Clean_rooted comps_of_trailing_slash comps_of_abs_path)
  qed
qed

lemma Dir_Join:
  assumes "rooted b" and "list_all plain ns" and "plain n"
  shows "Dir (Join (b # ns @ [n])) = Join (b # ns)"
  using assms Dir_abs_path [of "comps_of b @ ns" n] by (simp add: Join_plain comps_of_plain)

text \<open>
  \<open>within q p\<close>: removing the tree at \<open>q\<close> removes \<open>p\<close>. Trees of different plain names
  under one base are disjoint.
\<close>

definition within :: "string \<Rightarrow> string \<Rightarrow> bool" where
  "within q p \<longleftrightarrow> rooted q \<and> rooted p \<and> prefix (comps_of q) (comps_of p)"

lemma within_siblings:
  assumes "rooted b" "plain m" "plain n" "list_all plain ns"
  shows "within (Join [b, m]) (Join (b # n # ns)) \<longleftrightarrow> m = n"
  using assms by (auto simp: within_def comps_of_Join)

lemma Join_siblings_inject:
  assumes "rooted b" "plain m" "plain n"
  shows "Join [b, m] = Join [b, n] \<longleftrightarrow> m = n"
  using assms comps_of_plain [of b] by (simp add: Join_plain abs_path_inject)

end
