(* ===== verification/Sandbox.thy ===== *)
theory Sandbox
  imports CidAlloc Paths
begin

text \<open>
  The data shared by the control plane: the durable description of a sandbox
  (\<open>internal/sandbox/record.go\<close>), the types of the orchestrator
  (\<open>internal/orchestrator/orchestrator.go\<close>), and the host it acts on. The host (file
  system, cgroups, the Firecracker SDK, processes, the recorder) is a parameter: it
  answers every operation asked of it with success or an error, depending on everything
  asked before. What the code asks of the host, with the answers, is a trace.
\<close>

section \<open>Records\<close>

definition StatusRunning :: string where "StatusRunning = ''running''"
definition StatusStopped :: string where "StatusStopped = ''stopped''"

record Spec =
  sp_VCPUs :: int
  sp_MemMiB :: int
  sp_CPUPercent :: int
  sp_PidsMax :: int

record Record =
  rc_ID :: string
  rc_CID :: u32
  rc_PID :: int
  rc_VsockUDSPath :: string
  rc_SocketPath :: string
  rc_ChrootDir :: string
  rc_CgroupPath :: string
  rc_Status :: string
  rc_CreatedAt :: time
  rc_Spec :: Spec

section \<open>Orchestrator types\<close>

record Config =
  oc_FirecrackerBin :: string
  oc_JailerBin :: string
  oc_KernelImagePath :: string
  oc_RootfsPath :: string
  oc_UseJailer :: bool
  oc_ChrootBaseDir :: string
  oc_JailerUID :: int
  oc_JailerGID :: int
  oc_StateDir :: string
  oc_CgroupRoot :: string
  oc_CgroupBase :: string
  oc_KernelArgs :: string
  oc_SeccompFilterPath :: string
  oc_CIDMin :: u32
  oc_CIDMax :: u32
  oc_MaxConcurrent :: int
  oc_MemoryBudgetMiB :: int

record LaunchSpec =
  ls_ID :: string
  ls_VCPUs :: int
  ls_MemMiB :: int
  ls_CPUPercent :: int
  ls_PidsMax :: int

record Instance =
  in_ID :: string
  in_CID :: u32
  in_PID :: int
  in_ChrootDir :: string
  in_SocketPath :: string
  in_VsockUDSPath :: string
  in_CgroupPath :: string
  in_CreatedAt :: time
  in_Spec :: LaunchSpec
  in_machine :: bool
  in_cancel :: bool

definition toRecord :: "Instance \<Rightarrow> Record" where
  "toRecord i = \<lparr>rc_ID = in_ID i, rc_CID = in_CID i, rc_PID = in_PID i,
     rc_VsockUDSPath = in_VsockUDSPath i, rc_SocketPath = in_SocketPath i, rc_ChrootDir = in_ChrootDir i,
     rc_CgroupPath = in_CgroupPath i, rc_Status = StatusRunning, rc_CreatedAt = in_CreatedAt i,
     rc_Spec = \<lparr>sp_VCPUs = ls_VCPUs (in_Spec i), sp_MemMiB = ls_MemMiB (in_Spec i),
       sp_CPUPercent = ls_CPUPercent (in_Spec i), sp_PidsMax = ls_PidsMax (in_Spec i)\<rparr>\<rparr>"

text \<open>
  The map \<open>inst\<close> as a list of key and value pairs, in the (arbitrary) order in which Go's
  \<open>range\<close> visits it.
\<close>

record Supervisor =
  sv_cfg :: Config
  sv_recorder :: bool
  sv_inst :: "(string \<times> Instance) list"
  sv_cids :: cidAllocator

definition inst_put :: "string \<Rightarrow> Instance \<Rightarrow> (string \<times> Instance) list \<Rightarrow> (string \<times> Instance) list" where
  "inst_put k i m = (if map_of m k = None then m @ [(k, i)] else map (\<lambda>(k', j). if k' = k then (k, i) else (k', j)) m)"

definition inst_delete :: "string \<Rightarrow> (string \<times> Instance) list \<Rightarrow> (string \<times> Instance) list" where
  "inst_delete k m = filter (\<lambda>(k', _). k' \<noteq> k) m"

lemma map_of_inst_put: "map_of (inst_put k i m) = (map_of m)(k \<mapsto> i)"
proof (cases "map_of m k")
  case None
  then show ?thesis by (auto simp: inst_put_def fun_eq_iff map_add_def split: option.splits)
next
  case (Some j)
  moreover have "map_of (map (\<lambda>(k', j). if k' = k then (k, i) else (k', j)) m) x =
      (if x = k then (if map_of m k = None then None else Some i) else map_of m x)" for x
    by (induction m) auto
  ultimately show ?thesis by (auto simp: inst_put_def fun_eq_iff)
qed

lemma map_of_inst_delete: "map_of (inst_delete k m) = (map_of m)(k := None)"
  unfolding inst_delete_def by (induction m) (auto simp: fun_eq_iff)

lemma keys_inst_put: "distinct (map fst m) \<Longrightarrow> distinct (map fst (inst_put k i m))"
proof -
  assume d: "distinct (map fst m)"
  have "map fst (map (\<lambda>(k', j). if k' = k then (k, i) else (k', j)) m) = map fst m"
    by (induction m) auto
  then have eq: "map fst (inst_put k i m) = (if k \<in> set (map fst m) then map fst m else map fst m @ [k])"
    unfolding inst_put_def map_of_eq_None_iff by simp
  show ?thesis unfolding eq using d by simp
qed

lemma keys_inst_delete: "distinct (map fst m) \<Longrightarrow> distinct (map fst (inst_delete k m))"
  unfolding inst_delete_def by (simp add: distinct_map_filter)

lemma inst_put_new: "map_of m k = None \<Longrightarrow> inst_put k i m = m @ [(k, i)]"
  by (simp add: inst_put_def)

section \<open>The virtual machine configuration\<close>

record Drive =
  dr_DriveID :: string
  dr_PathOnHost :: string
  dr_IsRootDevice :: bool
  dr_IsReadOnly :: bool

record VsockDevice =
  vd_ID :: string
  vd_CID :: u32
  vd_Path :: string

record JailerConfig =
  jc_ID :: string
  jc_UID :: int
  jc_GID :: int
  jc_NumaNode :: int
  jc_ExecFile :: string
  jc_JailerBinary :: string
  jc_ChrootBaseDir :: string
  jc_CgroupVersion :: string
  jc_Daemonize :: bool
  jc_ChrootStrategy :: string

record SnapshotConfig =
  sn_MemFilePath :: string
  sn_SnapshotPath :: string
  sn_EnableDiffSnapshots :: bool
  sn_ResumeVM :: bool

record FCConfig =
  fc_SocketPath :: string
  fc_KernelImagePath :: string
  fc_KernelArgs :: string
  fc_Drives :: "Drive list"
  fc_VcpuCount :: int
  fc_MemSizeMib :: int
  fc_VsockDevices :: "VsockDevice list"
  fc_NetworkInterfaces :: "string list"
  fc_VMID :: string
  fc_Snapshot :: "SnapshotConfig option"
  fc_JailerCfg :: "JailerConfig option"

record bootPaths =
  bp_HostVsock :: string
  bp_HostSocket :: string
  bp_ChrootRoot :: string

section \<open>The host\<close>

datatype host_op =
    Stat string
  | MkdirAll string
  | OpenRead string
  | CreateFile string
  | CopyData string string
  | CloseFile string
  | Chmod string
  | Chown string int int
  | WriteFile string string
  | ReadFile string
  | Rename string string
  | Remove string
  | RemoveAll string
  | NewMachine FCConfig "string list"
  | StartVM string
  | PauseVM string
  | ResumeVM string
  | CreateSnapshot string string string
  | ShutdownVM string
  | StopVMM string
  | CancelCtx string
  | Kill int string
  | Sleep int
  | Mount string string string string
  | Unmount string
  | SaveRecord Record
  | RemoveRecord string

type_synonym trace = "(host_op \<times> string option) list"

text \<open>
  \<open>ho_op\<close> answers an operation (\<open>None\<close> is success), \<open>ho_pid\<close> answers \<open>machine.PID()\<close>,
  \<open>ho_alive\<close> says whether a process exists, \<open>ho_now\<close> and \<open>ho_rand\<close> are the clock and the
  random source, and \<open>ho_entropy\<close> is the answer to a read of 32 random bytes.
\<close>

record host =
  ho_op :: "trace \<Rightarrow> host_op \<Rightarrow> string option"
  ho_pid :: "trace \<Rightarrow> (string, int) result"
  ho_alive :: "trace \<Rightarrow> int \<Rightarrow> bool"
  ho_now :: "trace \<Rightarrow> time"
  ho_rand :: "trace \<Rightarrow> string"
  ho_entropy :: "trace \<Rightarrow> (string, u8 list) result"

definition ask :: "host \<Rightarrow> host_op \<Rightarrow> trace \<Rightarrow> string option \<times> trace" where
  "ask h op t = (ho_op h t op, t @ [(op, ho_op h t op)])"

text \<open>Operations whose errors the code ignores (\<open>_ = os.Remove(...)\<close>).\<close>

fun ask_all :: "host \<Rightarrow> host_op list \<Rightarrow> trace \<Rightarrow> trace" where
  "ask_all h [] t = t"
| "ask_all h (op # ops) t = ask_all h ops (snd (ask h op t))"

text \<open>Operations in a row, up to the first that fails, with the label its error is wrapped in.\<close>

fun ask_seq :: "host \<Rightarrow> (string \<times> host_op) list \<Rightarrow> trace \<Rightarrow> (string \<times> string) option \<times> trace" where
  "ask_seq h [] t = (None, t)"
| "ask_seq h ((l, op) # ops) t = (case ask h op t of
      (Some e, t') \<Rightarrow> (Some (l, e), t')
    | (None, t') \<Rightarrow> ask_seq h ops t')"

lemma ask_all_ops: "\<exists>rs. ask_all h ops t = t @ zip ops rs \<and> length rs = length ops"
proof (induction ops arbitrary: t)
  case (Cons op ops)
  obtain rs where "ask_all h ops (t @ [(op, ho_op h t op)]) = (t @ [(op, ho_op h t op)]) @ zip ops rs"
    "length rs = length ops" using Cons by blast
  then show ?case by (intro exI [of _ "ho_op h t op # rs"]) (simp add: ask_def)
qed simp

lemma map_fst_ask_all [simp]: "map fst (ask_all h ops t) = map fst t @ ops"
  using ask_all_ops [of h ops t] by auto

lemma ask_seq_None:
  "ask_seq h ops t = (None, t') \<Longrightarrow> t' = t @ map (\<lambda>(l, op). (op, None)) ops"
  by (induction h ops t rule: ask_seq.induct) (auto simp: ask_def split: option.splits prod.splits)

lemma ask_seq_prefix: "\<exists>u. snd (ask_seq h ops t) = t @ u \<and> set (map fst u) \<subseteq> set (map snd ops)"
proof (induction h ops t rule: ask_seq.induct)
  case (2 h l op ops t)
  show ?case
  proof (cases "ho_op h t op")
    case None
    with 2 [of None "t @ [(op, None)]"] obtain u
      where "snd (ask_seq h ops (t @ [(op, None)])) = (t @ [(op, None)]) @ u" "set (map fst u) \<subseteq> set (map snd ops)"
      by (auto simp: ask_def)
    with None show ?thesis by (intro exI [of _ "(op, None) # u"]) (auto simp: ask_def)
  next
    case (Some e)
    then show ?thesis by (intro exI [of _ "[(op, Some e)]"]) (auto simp: ask_def)
  qed
qed simp

end
