(* ===== verification/Supervisor.thy ===== *)
theory Supervisor
  imports Sandbox
begin

text \<open>
  The supervisor of \<open>internal/orchestrator/orchestrator.go\<close>: configuration, admission,
  launching a microVM with its cgroup limits, terminating it, reconciling after a restart
  and reaping dead ones. Every function takes the host, the supervisor and the trace so
  far, and returns the result, the supervisor and the extended trace.
\<close>

section \<open>Errors and helpers\<close>

datatype sup_error =
    ConfigError string
  | AlreadyExists string
  | ErrAdmissionConcurrent int
  | ErrAdmissionMemory int int int
  | CIDPoolExhausted string
  | BuildConfig string string
  | PrepareCgroup string string
  | CtxDone string
  | NewMachineFailed string
  | StartVMFailed string
  | ReadPID string
  | PlaceInCgroup string
  | NotFound string
  | ReconcileList string
  | RestoreDisk string string
  | Restoring sup_error
  | Entropy string

definition DefaultKernelArgs :: string where
  "DefaultKernelArgs = ''console=ttyS0 reboot=k panic=1 pci=off i8042.noaux i8042.nomux i8042.nopnp i8042.dumbkbd random.trust_cpu=on''"

definition memHeadroomBytes :: int where
  "memHeadroomBytes = 64 * 1024 * 1024"

definition applySpecDefaults :: "LaunchSpec \<Rightarrow> LaunchSpec" where
  "applySpecDefaults sp = sp\<lparr>
     ls_VCPUs := (if ls_VCPUs sp \<le> 0 then 1 else ls_VCPUs sp),
     ls_MemMiB := (if ls_MemMiB sp \<le> 0 then 256 else ls_MemMiB sp),
     ls_CPUPercent := (if ls_CPUPercent sp \<le> 0 then 100 else ls_CPUPercent sp),
     ls_PidsMax := (if ls_PidsMax sp \<le> 0 then 128 else ls_PidsMax sp)\<rparr>"

definition cpuMaxString :: "int \<Rightarrow> string" where
  "cpuMaxString cpuPercent =
     (let period = 100000; quota = go_div (wrap64 (cpuPercent * period)) 100
      in itoa quota @ '' '' @ itoa period)"

definition memMaxBytes :: "int \<Rightarrow> int" where
  "memMaxBytes memMiB = wrap64 (wrap64 (wrap64 (memMiB * 1024) * 1024) + memHeadroomBytes)"

definition defaultStr :: "string \<Rightarrow> string \<Rightarrow> string" where
  "defaultStr s d = (if s = [] then d else s)"

definition configDefaults :: "Config \<Rightarrow> Config" where
  "configDefaults c = c\<lparr>
     oc_FirecrackerBin := defaultStr (oc_FirecrackerBin c) ''firecracker'',
     oc_JailerBin := (if oc_UseJailer c then defaultStr (oc_JailerBin c) ''jailer'' else oc_JailerBin c),
     oc_ChrootBaseDir := defaultStr (oc_ChrootBaseDir c) ''/srv/jailer'',
     oc_JailerUID := (if oc_JailerUID c = 0 then 10001 else oc_JailerUID c),
     oc_JailerGID := (if oc_JailerGID c = 0 then 10001 else oc_JailerGID c),
     oc_StateDir := defaultStr (oc_StateDir c) ''/srv/sandbox-state'',
     oc_CgroupRoot := defaultStr (oc_CgroupRoot c) ''/sys/fs/cgroup'',
     oc_CgroupBase := defaultStr (oc_CgroupBase c) ''sandboxes'',
     oc_CIDMin := (if oc_CIDMin c = 0 then 3 else oc_CIDMin c),
     oc_CIDMax := (if oc_CIDMax c = 0 then 2 ^ 31 - 1 else oc_CIDMax c)\<rparr>"

definition NewSupervisor :: "host \<Rightarrow> Config \<Rightarrow> bool \<Rightarrow> trace \<Rightarrow> (sup_error, Supervisor) result \<times> trace" where
  "NewSupervisor h cfg0 recorder t =
     (if oc_KernelImagePath cfg0 = [] \<or> oc_RootfsPath cfg0 = []
      then (Inl (ConfigError ''orchestrator: KernelImagePath and RootfsPath are required''), t)
      else let cfg = configDefaults cfg0;
               s = \<lparr>sv_cfg = cfg, sv_recorder = recorder, sv_inst = [],
                    sv_cids = newCIDAllocator (oc_CIDMin cfg) (oc_CIDMax cfg)\<rparr>
           in if oc_UseJailer cfg
              then (case ask_seq h
                       [(oc_KernelImagePath cfg, Stat (oc_KernelImagePath cfg)),
                        (oc_RootfsPath cfg, Stat (oc_RootfsPath cfg)),
                        (''cgroup v2 not mounted at '' @ oc_CgroupRoot cfg,
                         Stat (Join [oc_CgroupRoot cfg, ''cgroup.controllers'']))] t of
                      (Some (l, e), t') \<Rightarrow> (Inl (ConfigError (l @ '': '' @ e)), t')
                    | (None, t') \<Rightarrow> (Inr s, t'))
              else (Inr s, t))"

section \<open>Admission\<close>

definition usedMemMiB :: "(string \<times> Instance) list \<Rightarrow> int" where
  "usedMemMiB m = fold (\<lambda>(_, i) used. wrap64 (used + ls_MemMiB (in_Spec i))) m 0"

definition admitLocked :: "Supervisor \<Rightarrow> LaunchSpec \<Rightarrow> sup_error option" where
  "admitLocked s sp =
     (let cfg = sv_cfg s in
      if oc_MaxConcurrent cfg > 0 \<and> int (length (sv_inst s)) \<ge> oc_MaxConcurrent cfg
      then Some (ErrAdmissionConcurrent (oc_MaxConcurrent cfg))
      else if oc_MemoryBudgetMiB cfg > 0 \<and>
              wrap64 (usedMemMiB (sv_inst s) + ls_MemMiB sp) > oc_MemoryBudgetMiB cfg
      then Some (ErrAdmissionMemory (oc_MemoryBudgetMiB cfg) (usedMemMiB (sv_inst s)) (ls_MemMiB sp))
      else None)"

section \<open>The files and the machine of a sandbox\<close>

definition copyFile :: "host \<Rightarrow> string \<Rightarrow> string \<Rightarrow> trace \<Rightarrow> string option \<times> trace" where
  "copyFile h src dst t = (case ask_seq h
        [([], OpenRead src), ([], MkdirAll (Dir dst)), ([], CreateFile dst)] t of
      (Some (_, e), t1) \<Rightarrow> (Some e, t1)
    | (None, t1) \<Rightarrow> (case ask h (CopyData src dst) t1 of
        (Some e, t2) \<Rightarrow> (Some e, snd (ask h (CloseFile dst) t2))
      | (None, t2) \<Rightarrow> ask h (CloseFile dst) t2))"

definition buildJailerConfig :: "Config \<Rightarrow> string \<Rightarrow> JailerConfig" where
  "buildJailerConfig cfg sid = \<lparr>jc_ID = sid, jc_UID = oc_JailerUID cfg, jc_GID = oc_JailerGID cfg,
     jc_NumaNode = 0, jc_ExecFile = oc_FirecrackerBin cfg, jc_JailerBinary = oc_JailerBin cfg,
     jc_ChrootBaseDir = oc_ChrootBaseDir cfg, jc_CgroupVersion = ''2'', jc_Daemonize = False,
     jc_ChrootStrategy = oc_KernelImagePath cfg\<rparr>"

text \<open>The pure part of \<open>buildFirecrackerConfig\<close>: host paths, then the configuration.\<close>

definition bootPathsOf :: "Config \<Rightarrow> string \<Rightarrow> bootPaths" where
  "bootPathsOf cfg sid =
     (let stateDir = Join [oc_StateDir cfg, sid] in
      if oc_UseJailer cfg
      then let root = Join [oc_ChrootBaseDir cfg, ''firecracker'', sid, ''root'']
           in \<lparr>bp_HostVsock = Join [root, ''v.sock''], bp_HostSocket = Join [root, ''run/firecracker.socket''],
               bp_ChrootRoot = root\<rparr>
      else \<lparr>bp_HostVsock = Join [stateDir, ''v.sock''], bp_HostSocket = Join [stateDir, ''firecracker.socket''],
            bp_ChrootRoot = []\<rparr>)"

definition fcConfigOf :: "Config \<Rightarrow> string \<Rightarrow> u32 \<Rightarrow> LaunchSpec \<Rightarrow> FCConfig" where
  "fcConfigOf cfg sid cid sp =
     (let stateDir = Join [oc_StateDir cfg, sid] in
      \<lparr>fc_SocketPath = (if oc_UseJailer cfg then ''run/firecracker.socket''
                        else Join [stateDir, ''firecracker.socket'']),
       fc_KernelImagePath = oc_KernelImagePath cfg,
       fc_KernelArgs = defaultStr (oc_KernelArgs cfg) DefaultKernelArgs,
       fc_Drives = [\<lparr>dr_DriveID = ''rootfs'', dr_PathOnHost = Join [stateDir, ''rootfs.ext4''],
                     dr_IsRootDevice = True, dr_IsReadOnly = False\<rparr>],
       fc_VcpuCount = ls_VCPUs sp, fc_MemSizeMib = ls_MemMiB sp,
       fc_VsockDevices = [\<lparr>vd_ID = ''vsock0'', vd_CID = cid,
                           vd_Path = (if oc_UseJailer cfg then ''v.sock'' else Join [stateDir, ''v.sock''])\<rparr>],
       fc_NetworkInterfaces = [], fc_VMID = sid, fc_Snapshot = None,
       fc_JailerCfg = (if oc_UseJailer cfg then Some (buildJailerConfig cfg sid) else None)\<rparr>)"

definition buildFirecrackerConfig ::
  "host \<Rightarrow> Config \<Rightarrow> string \<Rightarrow> u32 \<Rightarrow> LaunchSpec \<Rightarrow> trace \<Rightarrow> (sup_error, FCConfig \<times> bootPaths) result \<times> trace" where
  "buildFirecrackerConfig h cfg sid cid sp t =
     (let stateDir = Join [oc_StateDir cfg, sid]; rootfsCopy = Join [stateDir, ''rootfs.ext4''] in
      case ask h (MkdirAll stateDir) t of
        (Some e, t1) \<Rightarrow> (Inl (BuildConfig ''mkdir state dir'' e), t1)
      | (None, t1) \<Rightarrow> (case copyFile h (oc_RootfsPath cfg) rootfsCopy t1 of
          (Some e, t2) \<Rightarrow> (Inl (BuildConfig ''copy rootfs'' e), t2)
        | (None, t2) \<Rightarrow> (case ask_seq h
              [(''chmod rootfs copy'', Chmod rootfsCopy),
               (''chown rootfs copy'', Chown rootfsCopy 0 (oc_JailerGID cfg))] t2 of
            (Some (l, e), t3) \<Rightarrow> (Inl (BuildConfig l e), t3)
          | (None, t3) \<Rightarrow> (Inr (fcConfigOf cfg sid cid sp, bootPathsOf cfg sid), t3))))"

text \<open>
  \<open>newMachine\<close>: without the jailer, the binary, the socket path and the extra arguments
  are handed to the SDK's command builder.
\<close>

definition newMachine :: "host \<Rightarrow> Config \<Rightarrow> FCConfig \<Rightarrow> trace \<Rightarrow> string option \<times> trace" where
  "newMachine h cfg fc t =
     ask h (NewMachine fc
       (if fc_JailerCfg fc \<noteq> None then []
        else [oc_FirecrackerBin cfg, fc_SocketPath fc]
             @ (if oc_SeccompFilterPath cfg \<noteq> [] then [''--seccomp-filter'', oc_SeccompFilterPath cfg] else []))) t"

section \<open>Cgroups\<close>

definition enableControllers :: "string \<Rightarrow> host_op list" where
  "enableControllers dir = map (WriteFile (Join [dir, ''cgroup.subtree_control''])) [''+cpu'', ''+memory'', ''+pids'']"

fun enable_parts :: "string \<Rightarrow> string list \<Rightarrow> host_op list" where
  "enable_parts cur [] = []"
| "enable_parts cur (p # ps) =
     (if p = [] \<or> p = ''.'' then enable_parts cur ps
      else let cur' = Join [cur, p] in MkdirAll cur' # enableControllers cur' @ enable_parts cur' ps)"

definition enableSubtreeControllers :: "string \<Rightarrow> string \<Rightarrow> host_op list" where
  "enableSubtreeControllers root base =
     enableControllers root @ enable_parts root (split_on (CHR ''/'') (Clean base))"

definition writeCgroup :: "string \<Rightarrow> string \<Rightarrow> string \<Rightarrow> string \<times> host_op" where
  "writeCgroup dir file v = (''write '' @ file @ ''='' @ v, WriteFile (Join [dir, file]) v)"

definition cgroupCaps :: "string \<Rightarrow> LaunchSpec \<Rightarrow> (string \<times> host_op) list" where
  "cgroupCaps leaf sp =
     [writeCgroup leaf ''cpu.max'' (cpuMaxString (ls_CPUPercent sp)),
      writeCgroup leaf ''memory.max'' (itoa (memMaxBytes (ls_MemMiB sp))),
      writeCgroup leaf ''memory.swap.max'' ''0'',
      writeCgroup leaf ''pids.max'' (itoa (ls_PidsMax sp))]"

definition cgroupLeaf :: "Config \<Rightarrow> string \<Rightarrow> string" where
  "cgroupLeaf cfg sid = Join [Join [oc_CgroupRoot cfg, oc_CgroupBase cfg], sid]"

definition prepareCgroup ::
  "host \<Rightarrow> Config \<Rightarrow> string \<Rightarrow> LaunchSpec \<Rightarrow> trace \<Rightarrow> (sup_error, string) result \<times> trace" where
  "prepareCgroup h cfg sid sp t =
     (let leaf = cgroupLeaf cfg sid in
      case ask h (MkdirAll (Join [oc_CgroupRoot cfg, oc_CgroupBase cfg])) t of
        (Some e, t1) \<Rightarrow> (Inl (PrepareCgroup ''mkdir parent cgroup'' e), t1)
      | (None, t1) \<Rightarrow>
         (let t2 = ask_all h (enableSubtreeControllers (oc_CgroupRoot cfg) (oc_CgroupBase cfg)) t1 in
          case ask_seq h ((''mkdir leaf cgroup'', MkdirAll leaf) # cgroupCaps leaf sp) t2 of
            (Some (l, e), t3) \<Rightarrow> (Inl (PrepareCgroup l e), t3)
          | (None, t3) \<Rightarrow> (Inr leaf, t3)))"

definition placeInCgroup :: "host \<Rightarrow> string \<Rightarrow> int \<Rightarrow> trace \<Rightarrow> string option \<times> trace" where
  "placeInCgroup h leaf p t = ask h (snd (writeCgroup leaf ''cgroup.procs'' (itoa p))) t"

section \<open>Launch\<close>

text \<open>The closure \<open>cleanup\<close> of \<open>Launch\<close>, apart from the release of the CID.\<close>

definition cleanupOps :: "Config \<Rightarrow> string \<Rightarrow> string \<Rightarrow> bootPaths \<Rightarrow> host_op list" where
  "cleanupOps cfg sid leaf paths =
     [CancelCtx sid, Remove leaf, RemoveAll (Join [oc_StateDir cfg, sid])]
     @ (if bp_ChrootRoot paths \<noteq> [] then [RemoveAll (Dir (bp_ChrootRoot paths))] else [])"

text \<open>From the first look at the request context to the VMM placed in its cgroup.\<close>

definition bootMachine ::
  "host \<Rightarrow> Config \<Rightarrow> string \<Rightarrow> string option \<Rightarrow> FCConfig \<Rightarrow> bootPaths \<Rightarrow> string \<Rightarrow> trace \<Rightarrow> (sup_error, int) result \<times> trace" where
  "bootMachine h cfg sid ctxErr fc paths leaf t =
     (let cleanup = ask_all h (cleanupOps cfg sid leaf paths) in
      case ctxErr of
        Some e \<Rightarrow> (Inl (CtxDone e), cleanup t)
      | None \<Rightarrow> (case newMachine h cfg fc t of
          (Some e, t1) \<Rightarrow> (Inl (NewMachineFailed e), cleanup t1)
        | (None, t1) \<Rightarrow> (case ask h (StartVM sid) t1 of
            (Some e, t2) \<Rightarrow> (Inl (StartVMFailed e), cleanup t2)
          | (None, t2) \<Rightarrow> (case ho_pid h t2 of
              Inl e \<Rightarrow> (Inl (ReadPID e), cleanup (ask_all h [StopVMM sid] t2))
            | Inr p \<Rightarrow> (case placeInCgroup h leaf p t2 of
                (Some e, t3) \<Rightarrow> (Inl (PlaceInCgroup e), cleanup (ask_all h [StopVMM sid] t3))
              | (None, t3) \<Rightarrow> (Inr p, t3))))))"

text \<open>
  The middle of \<open>Launch\<close>, between the two critical sections: with the CID in hand, build
  the files and the cgroup and boot. On an error the caller frees the CID.
\<close>

definition launchHost ::
  "host \<Rightarrow> Config \<Rightarrow> string option \<Rightarrow> LaunchSpec \<Rightarrow> u32 \<Rightarrow> trace \<Rightarrow> (sup_error, Instance) result \<times> trace" where
  "launchHost h cfg ctxErr sp cid t =
     (let sid = ls_ID sp in
      case buildFirecrackerConfig h cfg sid cid sp t of
        (Inl e, t1) \<Rightarrow> (Inl e, t1)
      | (Inr (fc, paths), t1) \<Rightarrow> (case prepareCgroup h cfg sid sp t1 of
          (Inl e, t2) \<Rightarrow> (Inl e, ask_all h [RemoveAll (Join [oc_StateDir cfg, sid])] t2)
        | (Inr leaf, t2) \<Rightarrow> (case bootMachine h cfg sid ctxErr fc paths leaf t2 of
            (Inl e, t3) \<Rightarrow> (Inl e, t3)
          | (Inr p, t3) \<Rightarrow>
              (Inr \<lparr>in_ID = sid, in_CID = cid, in_PID = p, in_ChrootDir = bp_ChrootRoot paths,
                    in_SocketPath = bp_HostSocket paths, in_VsockUDSPath = bp_HostVsock paths,
                    in_CgroupPath = leaf, in_CreatedAt = ho_now h t3, in_Spec = sp,
                    in_machine = True, in_cancel = True\<rparr>, t3))))"

definition launchSpec :: "host \<Rightarrow> LaunchSpec \<Rightarrow> trace \<Rightarrow> LaunchSpec" where
  "launchSpec h sp0 t =
     (let sp = applySpecDefaults sp0 in if ls_ID sp = [] then sp\<lparr>ls_ID := ''sb-'' @ ho_rand h t\<rparr> else sp)"

text \<open>The first critical section of \<open>Launch\<close>: the duplicate check and admission.\<close>

definition launchCheck :: "Supervisor \<Rightarrow> LaunchSpec \<Rightarrow> sup_error option" where
  "launchCheck s sp =
     (if map_of (sv_inst s) (ls_ID sp) \<noteq> None then Some (AlreadyExists (ls_ID sp)) else admitLocked s sp)"

definition Launch ::
  "host \<Rightarrow> string option \<Rightarrow> LaunchSpec \<Rightarrow> Supervisor \<Rightarrow> trace \<Rightarrow> (sup_error, Instance) result \<times> Supervisor \<times> trace" where
  "Launch h ctxErr sp0 s t =
     (let sp = launchSpec h sp0 t in
      case launchCheck s sp of
        Some e \<Rightarrow> (Inl e, s, t)
      | None \<Rightarrow> (case cid_alloc (sv_cids s) of
          (Inl e, a) \<Rightarrow> (Inl (CIDPoolExhausted e), s\<lparr>sv_cids := a\<rparr>, t)
        | (Inr cid, a) \<Rightarrow> (case launchHost h (sv_cfg s) ctxErr sp cid t of
            (Inl e, t1) \<Rightarrow> (Inl e, s\<lparr>sv_cids := cid_free cid a\<rparr>, t1)
          | (Inr i, t1) \<Rightarrow>
              (Inr i, s\<lparr>sv_inst := inst_put (ls_ID sp) i (sv_inst s), sv_cids := a\<rparr>,
               if sv_recorder s then ask_all h [SaveRecord (toRecord i)] t1 else t1))))"

section \<open>Terminate, lookups, reconciliation\<close>

definition terminateOps :: "Supervisor \<Rightarrow> Instance \<Rightarrow> host_op list" where
  "terminateOps s i =
     (if in_machine i then [ShutdownVM (in_ID i), StopVMM (in_ID i)] else [])
     @ (if in_cancel i then [CancelCtx (in_ID i)] else [])
     @ (if in_CgroupPath i \<noteq> [] then [Remove (in_CgroupPath i)] else [])
     @ [RemoveAll (Join [oc_StateDir (sv_cfg s), in_ID i])]
     @ (if in_ChrootDir i \<noteq> [] then [RemoveAll (Dir (in_ChrootDir i))] else [])
     @ (if sv_recorder s then [RemoveRecord (in_ID i)] else [])"

definition Terminate :: "host \<Rightarrow> string \<Rightarrow> Supervisor \<Rightarrow> trace \<Rightarrow> sup_error option \<times> Supervisor \<times> trace" where
  "Terminate h sid s t = (case map_of (sv_inst s) sid of
      None \<Rightarrow> (Some (NotFound sid), s, t)
    | Some i \<Rightarrow>
        (None, s\<lparr>sv_inst := inst_delete sid (sv_inst s), sv_cids := cid_free (in_CID i) (sv_cids s)\<rparr>,
         ask_all h (terminateOps s i) t))"

definition Get :: "Supervisor \<Rightarrow> string \<Rightarrow> Instance option" where
  "Get s sid = map_of (sv_inst s) sid"

definition List :: "Supervisor \<Rightarrow> Instance list" where
  "List s = map snd (sv_inst s)"

definition Count :: "Supervisor \<Rightarrow> int" where
  "Count s = int (length (sv_inst s))"

definition processAlive :: "host \<Rightarrow> trace \<Rightarrow> int \<Rightarrow> bool" where
  "processAlive h t p \<longleftrightarrow> p > 0 \<and> ho_alive h t p"

fun kill_wait :: "nat \<Rightarrow> host \<Rightarrow> int \<Rightarrow> trace \<Rightarrow> trace" where
  "kill_wait 0 h p t = snd (ask h (Kill p ''SIGKILL'') t)"
| "kill_wait (Suc n) h p t =
     (if \<not> processAlive h t p then t else kill_wait n h p (snd (ask h (Sleep 100000000) t)))"

definition killPID :: "host \<Rightarrow> int \<Rightarrow> trace \<Rightarrow> trace" where
  "killPID h p t = (if p \<le> 0 then t else kill_wait 30 h p (snd (ask h (Kill p ''SIGTERM'') t)))"

definition gcOps :: "Supervisor \<Rightarrow> Record \<Rightarrow> host_op list" where
  "gcOps s r =
     (if rc_CgroupPath r \<noteq> [] then [Remove (rc_CgroupPath r)] else [])
     @ (if rc_ChrootDir r \<noteq> [] then [RemoveAll (Dir (rc_ChrootDir r))] else [])
     @ [RemoveAll (Join [oc_StateDir (sv_cfg s), rc_ID r])]
     @ (if sv_recorder s then [RemoveRecord (rc_ID r)] else [])"

definition gcRecord :: "host \<Rightarrow> Supervisor \<Rightarrow> Record \<Rightarrow> trace \<Rightarrow> trace" where
  "gcRecord h s r t = ask_all h (gcOps s r) t"

fun reconcile_loop :: "host \<Rightarrow> Supervisor \<Rightarrow> Record list \<Rightarrow> trace \<Rightarrow> trace" where
  "reconcile_loop h s [] t = t"
| "reconcile_loop h s (r # rs) t =
     (if map_of (sv_inst s) (rc_ID r) \<noteq> None then reconcile_loop h s rs t
      else let t1 = (if rc_PID r > 0 \<and> processAlive h t (rc_PID r) then killPID h (rc_PID r) t else t)
           in reconcile_loop h s rs (gcRecord h s r t1))"

text \<open>The second argument is what the recorder's \<open>All\<close> returned.\<close>

definition Reconcile :: "host \<Rightarrow> (string, Record list) result \<Rightarrow> Supervisor \<Rightarrow> trace \<Rightarrow> sup_error option \<times> trace" where
  "Reconcile h all_recs s t =
     (if \<not> sv_recorder s then (None, t)
      else case all_recs of
        Inl e \<Rightarrow> (Some (ReconcileList e), t)
      | Inr recs \<Rightarrow> (None, reconcile_loop h s recs t))"

fun reap_loop :: "host \<Rightarrow> Instance list \<Rightarrow> Supervisor \<Rightarrow> trace \<Rightarrow> string list \<times> Supervisor \<times> trace" where
  "reap_loop h [] s t = ([], s, t)"
| "reap_loop h (i # is) s t =
     (if \<not> processAlive h t (in_PID i)
      then (case Terminate h (in_ID i) s t of
              (_, s1, t1) \<Rightarrow> (case reap_loop h is s1 t1 of (dead, s2, t2) \<Rightarrow> (in_ID i # dead, s2, t2)))
      else reap_loop h is s t)"

definition ReapDead :: "host \<Rightarrow> Supervisor \<Rightarrow> trace \<Rightarrow> string list \<times> Supervisor \<times> trace" where
  "ReapDead h s t = reap_loop h (List s) s t"

section \<open>What each step asks of the host\<close>

text \<open>\<open>asks t t' A\<close>: between the traces \<open>t\<close> and \<open>t'\<close> only operations in \<open>A\<close> were asked.\<close>

definition asks :: "trace \<Rightarrow> trace \<Rightarrow> host_op set \<Rightarrow> bool" where
  "asks t t' A \<longleftrightarrow> (\<exists>u. t' = t @ u \<and> (\<forall>x \<in> set u. fst x \<in> A))"

declare ask_seq.simps [simp del]

lemma asks_refl [simp]: "asks t t A"
  by (simp add: asks_def)

lemma asks_trans: "asks t t1 A \<Longrightarrow> asks t1 t2 B \<Longrightarrow> asks t t2 (A \<union> B)"
  by (auto simp: asks_def)

lemma asks_mono: "asks t t' A \<Longrightarrow> A \<subseteq> B \<Longrightarrow> asks t t' B"
  by (auto simp: asks_def)

lemma asks_ask: "ask h op t = (r, t') \<Longrightarrow> asks t t' {op}"
  by (auto simp: ask_def asks_def)

lemma asks_ask_all: "asks t (ask_all h ops t) (set ops)"
  using ask_all_ops [of h ops t] by (auto simp: asks_def) (meson set_zip_leftD)

lemma asks_ask_seq: "ask_seq h ops t = (r, t') \<Longrightarrow> asks t t' (snd ` set ops)"
  using ask_seq_prefix [of h ops t] by (auto simp: asks_def)

definition copyOps :: "string \<Rightarrow> string \<Rightarrow> host_op set" where
  "copyOps src dst = {OpenRead src, MkdirAll (Dir dst), CreateFile dst, CopyData src dst, CloseFile dst}"

lemma asks_copyFile: "copyFile h src dst t = (r, t') \<Longrightarrow> asks t t' (copyOps src dst)"
proof -
  assume run: "copyFile h src dst t = (r, t')"
  obtain r1 t1 where s1: "ask_seq h [([], OpenRead src), ([], MkdirAll (Dir dst)), ([], CreateFile dst)] t = (r1, t1)"
    by fastforce
  have a1: "asks t t1 (copyOps src dst)" using asks_ask_seq [OF s1] by (rule asks_mono) (auto simp: copyOps_def)
  obtain r2 t2 where s2: "ask h (CopyData src dst) t1 = (r2, t2)" by fastforce
  obtain r3 t3 where s3: "ask h (CloseFile dst) t2 = (r3, t3)" by fastforce
  have a2: "asks t t3 (copyOps src dst)"
    using asks_trans [OF asks_trans [OF a1 asks_ask [OF s2]] asks_ask [OF s3]] by (rule asks_mono) (auto simp: copyOps_def)
  show ?thesis
    using run s1 s2 s3 a1 a2 by (auto simp: copyFile_def Let_def split: option.splits)
qed

definition buildOps :: "Config \<Rightarrow> string \<Rightarrow> host_op set" where
  "buildOps cfg sid =
     (let sd = Join [oc_StateDir cfg, sid]; rc = Join [sd, ''rootfs.ext4''] in
      {MkdirAll sd, Chmod rc, Chown rc 0 (oc_JailerGID cfg)} \<union> copyOps (oc_RootfsPath cfg) rc)"

lemma asks_build:
  assumes "buildFirecrackerConfig h cfg sid cid sp t = (r, t')"
  shows "asks t t' (buildOps cfg sid)"
    and "r = Inr (fc, paths) \<Longrightarrow> fc = fcConfigOf cfg sid cid sp \<and> paths = bootPathsOf cfg sid"
proof -
  let ?sd = "Join [oc_StateDir cfg, sid]"
  let ?rc = "Join [?sd, ''rootfs.ext4'']"
  obtain r1 t1 where s1: "ask h (MkdirAll ?sd) t = (r1, t1)" by fastforce
  obtain r2 t2 where s2: "copyFile h (oc_RootfsPath cfg) ?rc t1 = (r2, t2)" by fastforce
  obtain r3 t3 where s3: "ask_seq h [(''chmod rootfs copy'', Chmod ?rc),
     (''chown rootfs copy'', Chown ?rc 0 (oc_JailerGID cfg))] t2 = (r3, t3)" by fastforce
  note a1 = asks_ask [OF s1]
  note a2 = asks_trans [OF a1 asks_copyFile [OF s2]]
  note a3 = asks_trans [OF a2 asks_ask_seq [OF s3]]
  have "asks t t1 (buildOps cfg sid)" "asks t t2 (buildOps cfg sid)" "asks t t3 (buildOps cfg sid)"
    by (rule asks_mono [OF a1], simp add: buildOps_def Let_def)
      (rule asks_mono [OF a2], auto simp: buildOps_def Let_def,
       rule asks_mono [OF a3], auto simp: buildOps_def Let_def)
  then show "asks t t' (buildOps cfg sid)"
    using assms s1 s2 s3 by (auto simp: buildFirecrackerConfig_def Let_def split: option.splits)
  show "r = Inr (fc, paths) \<Longrightarrow> fc = fcConfigOf cfg sid cid sp \<and> paths = bootPathsOf cfg sid"
    using assms s1 s2 s3 by (auto simp: buildFirecrackerConfig_def Let_def split: option.splits)
qed

definition cgroupOps :: "Config \<Rightarrow> string \<Rightarrow> LaunchSpec \<Rightarrow> host_op set" where
  "cgroupOps cfg sid sp =
     insert (MkdirAll (Join [oc_CgroupRoot cfg, oc_CgroupBase cfg]))
       (set (enableSubtreeControllers (oc_CgroupRoot cfg) (oc_CgroupBase cfg)) \<union>
        insert (MkdirAll (cgroupLeaf cfg sid)) (snd ` set (cgroupCaps (cgroupLeaf cfg sid) sp)))"

lemma asks_prepareCgroup:
  assumes "prepareCgroup h cfg sid sp t = (r, t')"
  shows "asks t t' (cgroupOps cfg sid sp)"
    and "r = Inr leaf \<Longrightarrow> leaf = cgroupLeaf cfg sid \<and>
      (\<exists>u. t' = t @ u \<and> (\<forall>op \<in> snd ` set (cgroupCaps (cgroupLeaf cfg sid) sp). (op, None) \<in> set u))"
proof -
  let ?leaf = "cgroupLeaf cfg sid"
  let ?seq = "(''mkdir leaf cgroup'', MkdirAll ?leaf) # cgroupCaps ?leaf sp"
  obtain r1 t1 where s1: "ask h (MkdirAll (Join [oc_CgroupRoot cfg, oc_CgroupBase cfg])) t = (r1, t1)" by fastforce
  define t2 where "t2 = ask_all h (enableSubtreeControllers (oc_CgroupRoot cfg) (oc_CgroupBase cfg)) t1"
  obtain r3 t3 where s3: "ask_seq h ?seq t2 = (r3, t3)" by fastforce
  note a1 = asks_ask [OF s1]
  have a2: "asks t1 t2 (set (enableSubtreeControllers (oc_CgroupRoot cfg) (oc_CgroupBase cfg)))"
    unfolding t2_def by (rule asks_ask_all)
  note a3 = asks_trans [OF asks_trans [OF a1 a2] asks_ask_seq [OF s3]]
  have b: "asks t t1 (cgroupOps cfg sid sp)" "asks t t3 (cgroupOps cfg sid sp)"
    by (rule asks_mono [OF a1], simp add: cgroupOps_def) (rule asks_mono [OF a3], auto simp: cgroupOps_def)
  have run: "(r, t') = (case r1 of Some e \<Rightarrow> (Inl (PrepareCgroup ''mkdir parent cgroup'' e), t1)
      | None \<Rightarrow> (case r3 of Some (l, e) \<Rightarrow> (Inl (PrepareCgroup l e), t3) | None \<Rightarrow> (Inr ?leaf, t3)))"
    using assms s1 s3 by (auto simp: prepareCgroup_def Let_def t2_def split: option.splits)
  then show "asks t t' (cgroupOps cfg sid sp)" using b by (auto split: option.splits)
  assume "r = Inr leaf"
  with run have "leaf = ?leaf" "r3 = None" "t' = t3" by (auto split: option.splits)
  moreover from this s3 have "t3 = t2 @ map (\<lambda>(l, op). (op, None)) ?seq" using ask_seq_None by blast
  moreover obtain u where "t2 = t @ u" using asks_trans [OF a1 a2] by (auto simp: asks_def)
  ultimately show "leaf = ?leaf \<and> (\<exists>u. t' = t @ u \<and>
      (\<forall>op \<in> snd ` set (cgroupCaps ?leaf sp). (op, None) \<in> set u))"
    by (intro conjI exI [of _ "u @ map (\<lambda>(l, op). (op, None)) ?seq"]) force+
qed

section \<open>Booting\<close>

definition machineArgs :: "Config \<Rightarrow> FCConfig \<Rightarrow> string list" where
  "machineArgs cfg fc =
     (if fc_JailerCfg fc \<noteq> None then []
      else [oc_FirecrackerBin cfg, fc_SocketPath fc]
           @ (if oc_SeccompFilterPath cfg \<noteq> [] then [''--seccomp-filter'', oc_SeccompFilterPath cfg] else []))"

definition procsWrite :: "string \<Rightarrow> int \<Rightarrow> host_op" where
  "procsWrite leaf p = WriteFile (Join [leaf, ''cgroup.procs'']) (itoa p)"

lemma boot_defs:
  "newMachine h cfg fc = ask h (NewMachine fc (machineArgs cfg fc))"
  "placeInCgroup h leaf p = ask h (procsWrite leaf p)"
  by (simp_all add: fun_eq_iff newMachine_def placeInCgroup_def machineArgs_def procsWrite_def writeCgroup_def)

lemma bootMachine_Inr:
  "bootMachine h cfg sid ctxErr fc paths leaf t = (Inr p, t') \<Longrightarrow>
   t' = t @ [(NewMachine fc (machineArgs cfg fc), None), (StartVM sid, None), (procsWrite leaf p, None)]"
  by (auto simp: bootMachine_def boot_defs ask_def Let_def split: option.splits sum.splits)

lemma bootMachine_Inl:
  assumes "bootMachine h cfg sid ctxErr fc paths leaf t = (Inl e, t')"
  shows "\<exists>u v. t' = t @ u @ v \<and> map fst v = cleanupOps cfg sid leaf paths \<and>
    (\<forall>x \<in> set u. (\<exists>as. fst x = NewMachine fc as) \<or> fst x \<in> {StartVM sid, StopVMM sid} \<or> (\<exists>p. fst x = procsWrite leaf p)) \<and>
    ((StartVM sid, None) \<in> set u \<longrightarrow>
      (\<exists>u1 u2. u = u1 @ (StartVM sid, None) # u2 \<and> StopVMM sid \<in> fst ` set u2))"
proof -
  let ?nm = "NewMachine fc (machineArgs cfg fc)"
  let ?only = "\<lambda>u. \<forall>x \<in> set u. (\<exists>as. fst x = NewMachine fc as) \<or> fst x \<in> {StartVM sid, StopVMM sid} \<or> (\<exists>p. fst x = procsWrite leaf p)"
  let ?stop = "\<lambda>u. (StartVM sid, None) \<in> set u \<longrightarrow>
      (\<exists>u1 u2. u = u1 @ (StartVM sid, None) # u2 \<and> StopVMM sid \<in> fst ` set u2)"
  have fin: ?thesis if fin: "t' = ask_all h (cleanupOps cfg sid leaf paths) (t @ u)" "?only u" "?stop u" for u
  proof -
    obtain rs where "t' = t @ u @ zip (cleanupOps cfg sid leaf paths) rs" "length rs = length (cleanupOps cfg sid leaf paths)"
      using ask_all_ops [of h "cleanupOps cfg sid leaf paths" "t @ u"] fin(1) by auto
    then show ?thesis using fin(2,3) by (intro exI [of _ u] exI [of _ "zip (cleanupOps cfg sid leaf paths) rs"]) simp
  qed
  have stop: "?stop ((?nm, None) # (StartVM sid, None) # us)" if "StopVMM sid \<in> fst ` set us" for us
    using that by (intro impI exI [of _ "[(?nm, None)]"] exI [of _ us]) simp
  from assms consider
      "t' = ask_all h (cleanupOps cfg sid leaf paths) (t @ [])"
    | x where "t' = ask_all h (cleanupOps cfg sid leaf paths) (t @ [(?nm, x)])"
    | x where "t' = ask_all h (cleanupOps cfg sid leaf paths) (t @ [(?nm, None), (StartVM sid, Some x)])"
    | x where "t' = ask_all h (cleanupOps cfg sid leaf paths)
        (t @ [(?nm, None), (StartVM sid, None), (StopVMM sid, x)])"
    | p x y where "t' = ask_all h (cleanupOps cfg sid leaf paths)
        (t @ [(?nm, None), (StartVM sid, None), (procsWrite leaf p, x), (StopVMM sid, y)])"
    by (auto simp: bootMachine_def boot_defs ask_def Let_def split: option.splits sum.splits)
  then show ?thesis
  proof cases
    case 1
    show ?thesis by (rule fin [OF 1]) simp_all
  next
    case 2
    show ?thesis by (rule fin [OF 2]) simp_all
  next
    case 3
    show ?thesis by (rule fin [OF 3]) simp_all
  next
    case 4
    show ?thesis by (rule fin [OF 4 _ stop]) simp_all
  next
    case 5
    show ?thesis by (rule fin [OF 5 _ stop]) auto
  qed
qed

section \<open>Launching: the interface between the critical sections\<close>

text \<open>
  What the supervisor relies on in the part of a launch that runs without its lock: a
  success describes the sandbox asked for, with its own CID, directories and cgroup, and
  the virtual machine never runs outside its limits.
\<close>

definition inst_wf :: "Config \<Rightarrow> LaunchSpec \<Rightarrow> u32 \<Rightarrow> Instance \<Rightarrow> bool" where
  "inst_wf cfg sp cid i \<longleftrightarrow>
     in_ID i = ls_ID sp \<and> in_CID i = cid \<and> in_Spec i = sp \<and> in_machine i \<and> in_cancel i \<and>
     in_CgroupPath i = cgroupLeaf cfg (ls_ID sp) \<and> in_ChrootDir i = bp_ChrootRoot (bootPathsOf cfg (ls_ID sp)) \<and>
     in_SocketPath i = bp_HostSocket (bootPathsOf cfg (ls_ID sp)) \<and>
     in_VsockUDSPath i = bp_HostVsock (bootPathsOf cfg (ls_ID sp))"

definition capped_boot :: "Config \<Rightarrow> LaunchSpec \<Rightarrow> (sup_error, Instance) result \<Rightarrow> trace \<Rightarrow> trace \<Rightarrow> bool" where
  "capped_boot cfg sp r t t' \<longleftrightarrow>
     (let sid = ls_ID sp; leaf = cgroupLeaf cfg sid in
      \<exists>u. t' = t @ u \<and>
        (\<forall>x. (StartVM x, None) \<in> set u \<longrightarrow> x = sid \<and>
          (\<exists>u1 u2. u = u1 @ (StartVM sid, None) # u2 \<and>
            (\<forall>op \<in> snd ` set (cgroupCaps leaf sp). (op, None) \<in> set u1) \<and>
            (case r of Inr i \<Rightarrow> (procsWrite leaf (in_PID i), None) \<in> set u2
                     | Inl e \<Rightarrow> StopVMM sid \<in> fst ` set u2))))"

lemma capped_boot_no_start:
  assumes "asks t t' A" and "\<And>x. StartVM x \<notin> A"
  shows "capped_boot cfg sp r t t'"
proof -
  obtain u where "t' = t @ u" "\<And>x. (StartVM x, None) \<notin> set u"
    using assms by (fastforce simp: asks_def)
  then show ?thesis by (simp add: capped_boot_def Let_def)
qed

lemma no_start:
  "StartVM x \<notin> buildOps cfg sid" "StartVM x \<notin> cgroupOps cfg sid sp" "StartVM x \<notin> copyOps src dst"
  "StartVM x \<notin> set (enableSubtreeControllers root base)"
proof -
  have p: "StartVM x \<notin> set (enable_parts cur ps)" for cur ps
    by (induction cur ps rule: enable_parts.induct) (auto simp: enableControllers_def Let_def)
  show "StartVM x \<notin> buildOps cfg sid" "StartVM x \<notin> cgroupOps cfg sid sp" "StartVM x \<notin> copyOps src dst"
    "StartVM x \<notin> set (enableSubtreeControllers root base)"
    using p by (auto simp: buildOps_def cgroupOps_def copyOps_def Let_def cgroupCaps_def writeCgroup_def
        enableSubtreeControllers_def enableControllers_def)
qed

text \<open>Booting after the limits are in place is a capped boot.\<close>

lemma capped_boot_after_caps:
  assumes "asks t t1 A" "\<And>x. StartVM x \<notin> A"
    and "t1 = t0 @ w" "\<forall>op \<in> snd ` set (cgroupCaps (cgroupLeaf cfg (ls_ID sp)) sp). (op, None) \<in> set w"
    and "asks t t0 B"
    and "bootMachine h cfg (ls_ID sp) ctxErr fc paths (cgroupLeaf cfg (ls_ID sp)) t1 = (r, t2)"
    and "r' = (case r of Inl e \<Rightarrow> Inl e | Inr p \<Rightarrow> Inr (i p))" "\<And>p. in_PID (i p) = p"
  shows "capped_boot cfg sp r' t t2"
proof -
  let ?sid = "ls_ID sp" and ?leaf = "cgroupLeaf cfg (ls_ID sp)"
  obtain v where v: "t1 = t @ v" "\<And>x. (StartVM x, None) \<notin> set v"
    using assms(1,2) by (fastforce simp: asks_def)
  obtain w0 where w0: "t0 = t @ w0" using assms(5) by (auto simp: asks_def)
  have w: "set w \<subseteq> set v" using v(1) w0 assms(3) by auto
  show ?thesis
  proof (cases r)
    case (Inr p)
    then have t2: "t2 = t @ (v @ [(NewMachine fc (machineArgs cfg fc), None)]) @ (StartVM ?sid, None) # [(procsWrite ?leaf p, None)]"
      using bootMachine_Inr assms(6) v(1) by fastforce
    have "x = ?sid" if "(StartVM x, None) \<in> set ((v @ [(NewMachine fc (machineArgs cfg fc), None)]) @
        (StartVM ?sid, None) # [(procsWrite ?leaf p, None)])" for x
      using that v(2) by (auto simp: procsWrite_def)
    with t2 assms(4) w Inr assms(7,8) show ?thesis
      unfolding capped_boot_def Let_def
      by (intro exI [of _ "(v @ [(NewMachine fc (machineArgs cfg fc), None)]) @ (StartVM ?sid, None) # [(procsWrite ?leaf p, None)]"])
        (force intro: exI [of _ "v @ [(NewMachine fc (machineArgs cfg fc), None)]"])
  next
    case (Inl e)
    obtain u c where u: "t2 = t1 @ u @ c" "map fst c = cleanupOps cfg ?sid ?leaf paths"
      "\<forall>x \<in> set u. (\<exists>as. fst x = NewMachine fc as) \<or> fst x \<in> {StartVM ?sid, StopVMM ?sid} \<or> (\<exists>p. fst x = procsWrite ?leaf p)"
      "(StartVM ?sid, None) \<in> set u \<longrightarrow> (\<exists>u1 u2. u = u1 @ (StartVM ?sid, None) # u2 \<and> StopVMM ?sid \<in> fst ` set u2)"
      using bootMachine_Inl assms(6) Inl by meson
    have c: "(StartVM x, None) \<notin> set c" for x
    proof
      assume "(StartVM x, None) \<in> set c"
      then have "StartVM x \<in> set (map fst c)" by force
      then show False unfolding u(2) by (auto simp: cleanupOps_def split: if_splits)
    qed
    have start: "x = ?sid \<and> (StartVM ?sid, None) \<in> set u" if "(StartVM x, None) \<in> set (v @ u @ c)" for x
      using that v(2) c u(3) by (fastforce simp: procsWrite_def)
    have "\<exists>u1 u2. v @ u @ c = u1 @ (StartVM ?sid, None) # u2 \<and>
        (\<forall>op \<in> snd ` set (cgroupCaps ?leaf sp). (op, None) \<in> set u1) \<and> StopVMM ?sid \<in> fst ` set u2"
      if "(StartVM ?sid, None) \<in> set u"
    proof -
      from u(4) that obtain u1 u2 where "u = u1 @ (StartVM ?sid, None) # u2" "StopVMM ?sid \<in> fst ` set u2" by blast
      then show ?thesis using assms(4) w by (intro exI [of _ "v @ u1"] exI [of _ "u2 @ c"]) auto
    qed
    with start have all: "\<forall>x. (StartVM x, None) \<in> set (v @ u @ c) \<longrightarrow> x = ?sid \<and>
      (\<exists>u1 u2. v @ u @ c = u1 @ (StartVM ?sid, None) # u2 \<and>
        (\<forall>op \<in> snd ` set (cgroupCaps ?leaf sp). (op, None) \<in> set u1) \<and> StopVMM ?sid \<in> fst ` set u2)" by blast
    show ?thesis
      unfolding capped_boot_def Let_def assms(7) Inl sum.case
      by (rule exI [of _ "v @ u @ c"], rule conjI [OF _ all]) (simp add: u(1) v(1))
  qed
qed

definition launchWith ::
  "(LaunchSpec \<Rightarrow> u32 \<Rightarrow> trace \<Rightarrow> (sup_error, Instance) result \<times> trace) \<Rightarrow> host \<Rightarrow> LaunchSpec \<Rightarrow> Supervisor \<Rightarrow> trace \<Rightarrow>
   (sup_error, Instance) result \<times> Supervisor \<times> trace" where
  "launchWith run h sp s t =
     (case launchCheck s sp of
        Some e \<Rightarrow> (Inl e, s, t)
      | None \<Rightarrow> (case cid_alloc (sv_cids s) of
          (Inl e, a) \<Rightarrow> (Inl (CIDPoolExhausted e), s\<lparr>sv_cids := a\<rparr>, t)
        | (Inr cid, a) \<Rightarrow> (case run sp cid t of
            (Inl e, t1) \<Rightarrow> (Inl e, s\<lparr>sv_cids := cid_free cid a\<rparr>, t1)
          | (Inr i, t1) \<Rightarrow>
              (Inr i, s\<lparr>sv_inst := inst_put (ls_ID sp) i (sv_inst s), sv_cids := a\<rparr>,
               if sv_recorder s then ask_all h [SaveRecord (toRecord i)] t1 else t1))))"

lemma Launch_launchWith:
  "Launch h ctxErr sp0 s t = launchWith (launchHost h (sv_cfg s) ctxErr) h (launchSpec h sp0 t) s t"
  by (simp add: Launch_def launchWith_def Let_def)

lemma launchWith_run:
  assumes "launchWith run h sp s t = (r, s', t')" and "t' \<noteq> t \<or> \<not> isl r"
  shows "\<exists>cid t1 w. run sp cid t = (r, t1) \<and> t' = t1 @ w \<and> (\<forall>z \<in> set w. \<exists>rec. fst z = SaveRecord rec)"
proof -
  obtain q a where al: "cid_alloc (sv_cids s) = (q, a)" by fastforce
  with assms obtain cid where q: "q = Inr cid" "launchCheck s sp = None"
    by (cases q) (auto simp: launchWith_def split: option.splits)
  obtain r1 t1 where r1: "run sp cid t = (r1, t1)" by fastforce
  define w where "w = (case r1 of Inl e \<Rightarrow> [] | Inr i \<Rightarrow> if sv_recorder s then
      [(SaveRecord (toRecord i), ho_op h t1 (SaveRecord (toRecord i)))] else [])"
  have "r = r1 \<and> t' = t1 @ w"
    using assms(1) al q r1 by (cases r1) (auto simp: launchWith_def w_def ask_def)
  moreover have "\<forall>z \<in> set w. \<exists>rec. fst z = SaveRecord rec" by (auto simp: w_def split: sum.splits)
  ultimately show ?thesis using r1 by blast
qed

text \<open>The invariant of the supervisor between operations.\<close>

definition inst_ok :: "Config \<Rightarrow> string \<Rightarrow> Instance \<Rightarrow> bool" where
  "inst_ok cfg k i \<longleftrightarrow> in_ID i = k \<and> in_machine i \<and> in_cancel i \<and> in_CgroupPath i = cgroupLeaf cfg k \<and>
     in_ChrootDir i = bp_ChrootRoot (bootPathsOf cfg k) \<and> ls_ID (in_Spec i) = k"

definition sup_ok :: "Supervisor \<Rightarrow> bool" where
  "sup_ok s \<longleftrightarrow> distinct (map fst (sv_inst s)) \<and> (\<forall>(k, i) \<in> set (sv_inst s). inst_ok (sv_cfg s) k i) \<and>
     cid_ok (sv_cids s) \<and> distinct (map (\<lambda>(k, i). in_CID i) (sv_inst s)) \<and>
     ca_used (sv_cids s) = (\<lambda>(k, i). in_CID i) ` set (sv_inst s)"

definition memTotal :: "Supervisor \<Rightarrow> int" where
  "memTotal s = sum_list (map (\<lambda>(k, i). ls_MemMiB (in_Spec i)) (sv_inst s))"

text \<open>The host limits: number of sandboxes and committed memory, in unbounded arithmetic.\<close>

definition limits_ok :: "Supervisor \<Rightarrow> bool" where
  "limits_ok s \<longleftrightarrow>
     (oc_MaxConcurrent (sv_cfg s) > 0 \<longrightarrow> int (length (sv_inst s)) \<le> oc_MaxConcurrent (sv_cfg s)) \<and>
     (oc_MemoryBudgetMiB (sv_cfg s) > 0 \<longrightarrow> memTotal s \<le> oc_MemoryBudgetMiB (sv_cfg s)) \<and>
     (\<forall>(k, i) \<in> set (sv_inst s). 0 < ls_MemMiB (in_Spec i))"

lemma wrap64_wrap64_add: "wrap64 (wrap64 a + b) = wrap64 (a + b)"
proof -
  have "(wrap64 a + b + 2 ^ 63) mod 2 ^ 64 = (((a + 2 ^ 63) mod 2 ^ 64) + (b + (2 ^ 63 - 2 ^ 63))) mod 2 ^ 64"
    unfolding wrap64_def by (simp add: algebra_simps)
  also have "\<dots> = (a + 2 ^ 63 + b) mod 2 ^ 64" by (simp add: mod_add_left_eq)
  finally show ?thesis by (simp add: wrap64_def algebra_simps)
qed

lemma usedMemMiB_wrap: "usedMemMiB (sv_inst s) = wrap64 (memTotal s)"
proof -
  have "fold (\<lambda>(_, i) used. wrap64 (used + ls_MemMiB (in_Spec i))) m (wrap64 a) =
      wrap64 (a + sum_list (map (\<lambda>(k, i). ls_MemMiB (in_Spec i)) m))" for m :: "(string \<times> Instance) list" and a
    by (induction m arbitrary: a) (auto simp: wrap64_wrap64_add add.assoc)
  from this [of "sv_inst s" 0] show ?thesis
    by (simp add: usedMemMiB_def memTotal_def wrap64_id int64_range_def)
qed

lemma memTotal_nonneg: "limits_ok s \<Longrightarrow> 0 \<le> memTotal s"
  unfolding limits_ok_def memTotal_def by (intro sum_list_nonneg) fastforce

locale launcher =
  fixes run :: "host \<Rightarrow> Config \<Rightarrow> 'x \<Rightarrow> LaunchSpec \<Rightarrow> u32 \<Rightarrow> trace \<Rightarrow> (sup_error, Instance) result \<times> trace"
  assumes run_wf: "run h cfg x sp cid t = (Inr i, t') \<Longrightarrow> inst_wf cfg sp cid i"
    and run_capped: "run h cfg x sp cid t = (r, t') \<Longrightarrow> capped_boot cfg sp r t t'"
begin

lemma launch_Inr:
  assumes "sup_ok s" and "launchWith (run h (sv_cfg s) x) h sp s t = (Inr i, s', t')"
  shows "\<exists>cid a t1. launchCheck s sp = None \<and> cid_alloc (sv_cids s) = (Inr cid, a) \<and>
    run h (sv_cfg s) x sp cid t = (Inr i, t1) \<and> map_of (sv_inst s) (ls_ID sp) = None \<and>
    s' = s\<lparr>sv_inst := sv_inst s @ [(ls_ID sp, i)], sv_cids := a\<rparr> \<and> inst_wf (sv_cfg s) sp cid i \<and>
    t' = (if sv_recorder s then ask_all h [SaveRecord (toRecord i)] t1 else t1)"
proof -
  from assms(2) have c: "launchCheck s sp = None" by (auto simp: launchWith_def split: option.splits)
  then have n: "map_of (sv_inst s) (ls_ID sp) = None" by (simp add: launchCheck_def split: if_splits)
  obtain r a where al: "cid_alloc (sv_cids s) = (r, a)" by fastforce
  with assms(2) c obtain cid where r: "r = Inr cid" by (cases r) (auto simp: launchWith_def)
  obtain q t1 where q: "run h (sv_cfg s) x sp cid t = (q, t1)" by fastforce
  with assms(2) c al r have "q = Inr i" by (cases q) (auto simp: launchWith_def)
  with assms(2) c al r q n run_wf [of h "sv_cfg s" x sp cid t i t1] show ?thesis
    by (auto simp: launchWith_def inst_put_new)
qed

lemma launch_sup_ok:
  assumes "sup_ok s" and "launchWith (run h (sv_cfg s) x) h sp s t = (r, s', t')"
  shows "sup_ok s'"
proof (cases r)
  case (Inr i)
  obtain cid a where l: "cid_alloc (sv_cids s) = (Inr cid, a)" "map_of (sv_inst s) (ls_ID sp) = None"
    "s' = s\<lparr>sv_inst := sv_inst s @ [(ls_ID sp, i)], sv_cids := a\<rparr>" "inst_wf (sv_cfg s) sp cid i"
    using launch_Inr [OF assms(1)] assms(2) Inr by blast
  have ok: "cid_ok (sv_cids s)" using assms(1) by (simp add: sup_ok_def)
  from cid_pool.alloc_Inr [OF ok l(1)] assms(1) l show ?thesis
    by (auto simp: sup_ok_def inst_ok_def inst_wf_def map_of_eq_None_iff image_iff)
next
  case (Inl e)
  have ok: "cid_ok (sv_cids s)" using assms(1) by (simp add: sup_ok_def)
  show ?thesis
  proof (cases "cid_alloc (sv_cids s)")
    case (Pair q a)
    have "s' = s \<or> (\<exists>e. q = Inl e \<and> s' = s\<lparr>sv_cids := a\<rparr>) \<or> (\<exists>c. q = Inr c \<and> s' = s\<lparr>sv_cids := cid_free c a\<rparr>)"
      using assms(2) Inl Pair by (auto simp: launchWith_def split: option.splits sum.splits prod.splits)
    then show ?thesis
      using assms(1) cid_pool.alloc_Inl [OF ok, of _ a] cid_pool.alloc_free [OF ok, of _ a] Pair
      by (auto simp: sup_ok_def)
  qed
qed

lemma launch_Inl:
  assumes "sup_ok s" and "launchWith (run h (sv_cfg s) x) h sp s t = (Inl e, s', t')"
  shows "sv_inst s' = sv_inst s \<and> sv_cfg s' = sv_cfg s \<and> ca_used (sv_cids s') = ca_used (sv_cids s)"
proof -
  have "sup_ok s'" by (rule launch_sup_ok [OF assms])
  moreover have "sv_inst s' = sv_inst s" "sv_cfg s' = sv_cfg s"
    using assms(2) by (auto simp: launchWith_def split: option.splits sum.splits prod.splits)
  ultimately show ?thesis using assms(1) by (simp add: sup_ok_def)
qed

lemma launch_capped:
  assumes "launchWith (run h (sv_cfg s) x) h sp s t = (r, s', t @ u)" and "(StartVM y, None) \<in> set u"
  shows "y = ls_ID sp \<and>
    (\<exists>u1 u2. u = u1 @ (StartVM y, None) # u2 \<and>
      (\<forall>op \<in> snd ` set (cgroupCaps (cgroupLeaf (sv_cfg s) y) sp). (op, None) \<in> set u1) \<and>
      (case r of Inr i \<Rightarrow> (procsWrite (cgroupLeaf (sv_cfg s) y) (in_PID i), None) \<in> set u2
               | Inl e \<Rightarrow> StopVMM y \<in> fst ` set u2))"
proof -
  have "t @ u \<noteq> t" using assms(2) by auto
  then obtain cid t1 w where w: "run h (sv_cfg s) x sp cid t = (r, t1)" "t @ u = t1 @ w" "\<forall>z \<in> set w. \<exists>rec. fst z = SaveRecord rec"
    using launchWith_run [OF assms(1)] by blast
  obtain v where v: "t1 = t @ v" "\<forall>z. (StartVM z, None) \<in> set v \<longrightarrow> z = ls_ID sp \<and>
      (\<exists>u1 u2. v = u1 @ (StartVM (ls_ID sp), None) # u2 \<and>
        (\<forall>op \<in> snd ` set (cgroupCaps (cgroupLeaf (sv_cfg s) (ls_ID sp)) sp). (op, None) \<in> set u1) \<and>
        (case r of Inr i \<Rightarrow> (procsWrite (cgroupLeaf (sv_cfg s) (ls_ID sp)) (in_PID i), None) \<in> set u2
                 | Inl e \<Rightarrow> StopVMM (ls_ID sp) \<in> fst ` set u2))"
    using run_capped [OF w(1)] unfolding capped_boot_def Let_def by blast
  have u: "u = v @ w" using w(2) v(1) by simp
  with assms(2) w(3) have "(StartVM y, None) \<in> set v" by fastforce
  with v(2) obtain u1 u2 where y: "y = ls_ID sp" "v = u1 @ (StartVM y, None) # u2"
    "\<forall>op \<in> snd ` set (cgroupCaps (cgroupLeaf (sv_cfg s) y) sp). (op, None) \<in> set u1"
    "case r of Inr i \<Rightarrow> (procsWrite (cgroupLeaf (sv_cfg s) y) (in_PID i), None) \<in> set u2
             | Inl e \<Rightarrow> StopVMM y \<in> fst ` set u2" by blast
  then show ?thesis using u by (intro conjI exI [of _ u1] exI [of _ "u2 @ w"]) (auto split: sum.splits)
qed

lemma launch_limits:
  assumes "sup_ok s" "limits_ok s" and "launchWith (run h (sv_cfg s) x) h sp s t = (r, s', t')"
    and "0 < ls_MemMiB sp" and "memTotal s + ls_MemMiB sp < 2 ^ 63"
  shows "limits_ok s'"
proof (cases r)
  case (Inl e)
  then show ?thesis using launch_Inl [OF assms(1)] assms(2,3) by (simp add: limits_ok_def memTotal_def)
next
  case (Inr i)
  obtain a cid where l: "launchCheck s sp = None" "map_of (sv_inst s) (ls_ID sp) = None" "inst_wf (sv_cfg s) sp cid i"
    "s' = s\<lparr>sv_inst := sv_inst s @ [(ls_ID sp, i)], sv_cids := a\<rparr>"
    using launch_Inr [OF assms(1)] assms(3) Inr by blast
  have "wrap64 (usedMemMiB (sv_inst s) + ls_MemMiB sp) = memTotal s + ls_MemMiB sp"
    using memTotal_nonneg [OF assms(2)] assms(4,5)
    by (simp add: usedMemMiB_wrap wrap64_wrap64_add wrap64_id int64_range_def)
  with l assms(2,4) show ?thesis
    by (auto simp: limits_ok_def memTotal_def launchCheck_def admitLocked_def Let_def inst_wf_def split: if_splits)
qed

end

text \<open>The body of \<open>Launch\<close> is such a launcher.\<close>

lemma launchHost_cases:
  assumes "launchHost h cfg ctxErr sp cid t = (r, t')"
  obtains (build) e where "buildFirecrackerConfig h cfg (ls_ID sp) cid sp t = (Inl e, t')" "r = Inl e"
  | (cgroup) t1 t2 e where "buildFirecrackerConfig h cfg (ls_ID sp) cid sp t = (Inr (fcConfigOf cfg (ls_ID sp) cid sp, bootPathsOf cfg (ls_ID sp)), t1)"
      "prepareCgroup h cfg (ls_ID sp) sp t1 = (Inl e, t2)" "r = Inl e"
      "t' = ask_all h [RemoveAll (Join [oc_StateDir cfg, ls_ID sp])] t2"
  | (boot) t1 t2 q where "buildFirecrackerConfig h cfg (ls_ID sp) cid sp t = (Inr (fcConfigOf cfg (ls_ID sp) cid sp, bootPathsOf cfg (ls_ID sp)), t1)"
      "prepareCgroup h cfg (ls_ID sp) sp t1 = (Inr (cgroupLeaf cfg (ls_ID sp)), t2)"
      "bootMachine h cfg (ls_ID sp) ctxErr (fcConfigOf cfg (ls_ID sp) cid sp) (bootPathsOf cfg (ls_ID sp)) (cgroupLeaf cfg (ls_ID sp)) t2 = (q, t')"
      "r = (case q of Inl e \<Rightarrow> Inl e | Inr p \<Rightarrow>
          Inr \<lparr>in_ID = ls_ID sp, in_CID = cid, in_PID = p, in_ChrootDir = bp_ChrootRoot (bootPathsOf cfg (ls_ID sp)),
            in_SocketPath = bp_HostSocket (bootPathsOf cfg (ls_ID sp)),
            in_VsockUDSPath = bp_HostVsock (bootPathsOf cfg (ls_ID sp)),
            in_CgroupPath = cgroupLeaf cfg (ls_ID sp), in_CreatedAt = ho_now h t', in_Spec = sp,
            in_machine = True, in_cancel = True\<rparr>)"
proof -
  obtain r1 t1 where b: "buildFirecrackerConfig h cfg (ls_ID sp) cid sp t = (r1, t1)" by fastforce
  show ?thesis
  proof (cases r1)
    case (Inl e)
    with b assms build show ?thesis by (simp add: launchHost_def Let_def)
  next
    case (Inr fp)
    with asks_build(2) [OF b] have r1: "r1 = Inr (fcConfigOf cfg (ls_ID sp) cid sp, bootPathsOf cfg (ls_ID sp))"
      by (cases fp) auto
    obtain r2 t2 where c: "prepareCgroup h cfg (ls_ID sp) sp t1 = (r2, t2)" by fastforce
    show ?thesis
    proof (cases r2)
      case (Inl e)
      with b c r1 assms cgroup show ?thesis by (simp add: launchHost_def Let_def)
    next
      case (Inr leaf)
      with asks_prepareCgroup(2) [OF c] have r2: "r2 = Inr (cgroupLeaf cfg (ls_ID sp))" by simp
      obtain q t3 where d: "bootMachine h cfg (ls_ID sp) ctxErr (fcConfigOf cfg (ls_ID sp) cid sp)
          (bootPathsOf cfg (ls_ID sp)) (cgroupLeaf cfg (ls_ID sp)) t2 = (q, t3)" by fastforce
      with b c r1 r2 assms have "t' = t3" by (auto simp: launchHost_def Let_def split: sum.splits)
      with b c d r1 r2 assms boot show ?thesis by (cases q) (auto simp: launchHost_def Let_def)
    qed
  qed
qed

interpretation fresh_launch: launcher launchHost
proof
  fix h cfg ctxErr sp cid t i t'
  assume "launchHost h cfg ctxErr sp cid t = (Inr i, t')"
  then show "inst_wf cfg sp cid i"
    by (cases rule: launchHost_cases) (auto simp: inst_wf_def split: sum.splits)
next
  fix h cfg ctxErr sp cid t r t'
  assume "launchHost h cfg ctxErr sp cid t = (r, t')"
  then show "capped_boot cfg sp r t t'"
  proof (cases rule: launchHost_cases)
    case (build e)
    then show ?thesis using asks_build(1) [OF build(1)] no_start(1) by (intro capped_boot_no_start) auto
  next
    case (cgroup t1 t2 e)
    have "asks t t' (buildOps cfg (ls_ID sp) \<union> cgroupOps cfg (ls_ID sp) sp \<union> {RemoveAll (Join [oc_StateDir cfg, ls_ID sp])})"
      using asks_trans [OF asks_trans [OF asks_build(1) [OF cgroup(1)] asks_prepareCgroup(1) [OF cgroup(2)]]
          asks_ask_all [of t2 h "[RemoveAll (Join [oc_StateDir cfg, ls_ID sp])]"]] cgroup(4) by simp
    then show ?thesis using no_start(1,2) by (intro capped_boot_no_start) auto
  next
    case (boot t1 t2 q)
    obtain w where w: "t2 = t1 @ w" "\<forall>op \<in> snd ` set (cgroupCaps (cgroupLeaf cfg (ls_ID sp)) sp). (op, None) \<in> set w"
      using asks_prepareCgroup(2) [OF boot(2)] by auto
    show ?thesis
      by (rule capped_boot_after_caps [OF _ _ w asks_build(1) [OF boot(1)] boot(3,4)],
          rule asks_trans [OF asks_build(1) [OF boot(1)] asks_prepareCgroup(1) [OF boot(2)]])
        (use no_start(1,2) in auto)
  qed
qed

lemma Launch_starts:
  assumes "Launch h ctxErr sp s t = (Inr i, s', t @ u)"
  shows "(StartVM (ls_ID (launchSpec h sp t)), None) \<in> set u"
proof -
  let ?sp = "launchSpec h sp t"
  obtain cid t1 w where run: "launchHost h (sv_cfg s) ctxErr ?sp cid t = (Inr i, t1)" "t @ u = t1 @ w"
    using launchWith_run [of "launchHost h (sv_cfg s) ctxErr" h ?sp s t "Inr i" s' "t @ u"] assms
    unfolding Launch_launchWith by auto
  from run(1) show ?thesis
  proof (cases rule: launchHost_cases)
    case (boot t2 t3 q)
    then obtain p where q: "q = Inr p" by (cases q) auto
    obtain v where "t3 = t @ v"
      using asks_trans [OF asks_build(1) [OF boot(1)] asks_prepareCgroup(1) [OF boot(2)]] by (auto simp: asks_def)
    with bootMachine_Inr boot(3) q run(2) show ?thesis by fastforce
  qed auto
qed

section \<open>Termination and reaping keep the invariant\<close>

lemma inst_delete_CIDs:
  assumes "distinct (map fst m)" "distinct (map (\<lambda>(k, i). in_CID i) m)" "map_of m k = Some i"
  shows "(\<lambda>(k, i). in_CID i) ` set (inst_delete k m) = (\<lambda>(k, i). in_CID i) ` set m - {in_CID i}"
proof -
  have ki: "(k, i) \<in> set m" using assms(3) by (rule map_of_SomeD)
  have same: "k' = k" if "(k', j) \<in> set m" "in_CID j = in_CID i" for k' j
    using that ki assms(2) by (auto simp: distinct_map inj_on_def)
  have only: "j = i" if "(k, j) \<in> set m" for j using that assms(1,3) by simp
  show ?thesis
  proof (intro set_eqI iffI)
    fix c
    assume "c \<in> (\<lambda>(k, i). in_CID i) ` set (inst_delete k m)"
    then obtain k' j where j: "(k', j) \<in> set m" "k' \<noteq> k" "c = in_CID j" by (auto simp: inst_delete_def)
    then show "c \<in> (\<lambda>(k, i). in_CID i) ` set m - {in_CID i}" using same by force
  next
    fix c
    assume "c \<in> (\<lambda>(k, i). in_CID i) ` set m - {in_CID i}"
    then obtain k' j where j: "(k', j) \<in> set m" "c = in_CID j" "c \<noteq> in_CID i" by auto
    then have "(k', j) \<in> set (inst_delete k m)" using only by (auto simp: inst_delete_def)
    then show "c \<in> (\<lambda>(k, i). in_CID i) ` set (inst_delete k m)" using j(2) by force
  qed
qed

lemma Terminate_sup_ok:
  assumes "sup_ok s" and "Terminate h sid s t = (r, s', t')"
  shows "sup_ok s'"
proof (cases "map_of (sv_inst s) sid")
  case None
  with assms show ?thesis by (simp add: Terminate_def)
next
  case (Some i)
  then have s': "s' = s\<lparr>sv_inst := inst_delete sid (sv_inst s), sv_cids := cid_free (in_CID i) (sv_cids s)\<rparr>"
    using assms(2) by (simp add: Terminate_def)
  have "cid_ok (sv_cids s)" using assms(1) by (simp add: sup_ok_def)
  note free = cid_pool.free_law [OF this, of "in_CID i"]
  have "(\<lambda>(k, i). in_CID i) ` set (inst_delete sid (sv_inst s)) = ca_used (sv_cids s) - {in_CID i}"
    using inst_delete_CIDs [OF _ _ Some] assms(1) by (simp add: sup_ok_def)
  then show ?thesis
    using assms(1) free keys_inst_delete [of "sv_inst s" sid]
    by (auto simp: sup_ok_def s' inst_delete_def distinct_map_filter)
qed

lemma reap_sup_ok: "sup_ok s \<Longrightarrow> reap_loop h is s t = (dead, s', t') \<Longrightarrow> sup_ok s'"
proof (induction h "is" s t arbitrary: dead s' t' rule: reap_loop.induct)
  case (2 h i "is" s t)
  obtain r1 s1 t1 where t1: "Terminate h (in_ID i) s t = (r1, s1, t1)" by (metis prod_cases3)
  show ?case
  proof (cases "processAlive h t (in_PID i)")
    case True
    with 2 show ?thesis by simp
  next
    case False
    obtain d s2 t2 where rec: "reap_loop h is s1 t1 = (d, s2, t2)" by (metis prod_cases3)
    then have "sup_ok s2" using 2(1) [OF False t1 [symmetric] refl _ rec] Terminate_sup_ok [OF 2(3) t1] by simp
    with 2(4) False t1 rec show ?thesis by simp
  qed
qed simp

lemma NewSupervisor_sup_ok:
  assumes "NewSupervisor h cfg rec t = (Inr s, t')"
    and "oc_CIDMin (configDefaults cfg) \<le> oc_CIDMax (configDefaults cfg)"
  shows "sup_ok s" and "limits_ok s"
proof -
  have s: "s = \<lparr>sv_cfg = configDefaults cfg, sv_recorder = rec, sv_inst = [],
      sv_cids = newCIDAllocator (oc_CIDMin (configDefaults cfg)) (oc_CIDMax (configDefaults cfg))\<rparr>"
    using assms(1) by (auto simp: NewSupervisor_def Let_def split: if_splits option.splits prod.splits)
  have "0 < oc_CIDMin (configDefaults cfg)"
    by (simp add: configDefaults_def word_gt_0)
  with assms(2) show "sup_ok s" by (simp add: s sup_ok_def cid_ok_new) (simp add: newCIDAllocator_def)
  show "limits_ok s" by (simp add: s limits_ok_def memTotal_def)
qed

text \<open>A host that never refuses anything.\<close>

definition willing :: "host \<Rightarrow> bool" where
  "willing h \<longleftrightarrow> (\<forall>t op. ho_op h t op = None) \<and> (\<forall>t. \<exists>p. ho_pid h t = Inr p)"

lemma willing_ask: "willing h \<Longrightarrow> ask h op t = (None, t @ [(op, None)])"
  by (simp add: willing_def ask_def)

lemma willing_seq: "willing h \<Longrightarrow> \<exists>t'. ask_seq h ops t = (None, t')"
proof (induction ops arbitrary: t)
  case (Cons x ops)
  then show ?case by (cases x) (simp add: ask_seq.simps willing_ask)
qed (simp add: ask_seq.simps)

lemma willing_copyFile: "willing h \<Longrightarrow> \<exists>t'. copyFile h src dst t = (None, t')"
  using willing_seq [of h "[([], OpenRead src), ([], MkdirAll (Dir dst)), ([], CreateFile dst)]" t]
  by (auto simp: copyFile_def willing_ask)

lemma willing_prepareCgroup:
  assumes w: "willing h"
  shows "\<exists>t'. prepareCgroup h cfg sid sp t = (Inr (cgroupLeaf cfg sid), t')"
proof -
  let ?leaf = "cgroupLeaf cfg sid"
  define t1 where "t1 = ask_all h (enableSubtreeControllers (oc_CgroupRoot cfg) (oc_CgroupBase cfg))
      (t @ [(MkdirAll (Join [oc_CgroupRoot cfg, oc_CgroupBase cfg]), None)])"
  obtain t2 where "ask_seq h ((''mkdir leaf cgroup'', MkdirAll ?leaf) # cgroupCaps ?leaf sp) t1 = (None, t2)"
    using willing_seq [OF w] by blast
  then show ?thesis by (simp add: prepareCgroup_def Let_def willing_ask [OF w] t1_def [symmetric])
qed

lemma willing_build:
  assumes w: "willing h"
  shows "\<exists>fp t'. buildFirecrackerConfig h cfg sid cid sp t = (Inr fp, t')"
proof -
  let ?sd = "Join [oc_StateDir cfg, sid]"
  let ?rc = "Join [?sd, ''rootfs.ext4'']"
  obtain t1 where t1: "copyFile h (oc_RootfsPath cfg) ?rc (t @ [(MkdirAll ?sd, None)]) = (None, t1)"
    using willing_copyFile [OF w] by blast
  obtain t2 where t2: "ask_seq h [(''chmod rootfs copy'', Chmod ?rc), (''chown rootfs copy'', Chown ?rc 0 (oc_JailerGID cfg))] t1 = (None, t2)"
    using willing_seq [OF w] by blast
  show ?thesis by (simp add: buildFirecrackerConfig_def Let_def willing_ask [OF w] t1 t2)
qed

lemma willing_bootMachine:
  assumes w: "willing h"
  shows "\<exists>p t'. bootMachine h cfg sid None fc paths leaf t = (Inr p, t')"
proof -
  obtain p where "ho_pid h (t @ [(NewMachine fc (machineArgs cfg fc), None), (StartVM sid, None)]) = Inr p"
    using w unfolding willing_def by blast
  then show ?thesis by (simp add: bootMachine_def boot_defs willing_ask [OF w])
qed

lemma willing_launchHost:
  assumes w: "willing h"
  shows "\<exists>i t'. launchHost h cfg None sp cid t = (Inr i, t')"
    and "\<exists>t'. launchHost h cfg (Some e) sp cid t = (Inl (CtxDone e), t')"
proof -
  obtain fc paths t1 where b: "buildFirecrackerConfig h cfg (ls_ID sp) cid sp t = (Inr (fc, paths), t1)"
    using willing_build [OF w] by fastforce
  obtain t2 where c: "prepareCgroup h cfg (ls_ID sp) sp t1 = (Inr (cgroupLeaf cfg (ls_ID sp)), t2)"
    using willing_prepareCgroup [OF w] by blast
  obtain p t3 where d: "bootMachine h cfg (ls_ID sp) None fc paths (cgroupLeaf cfg (ls_ID sp)) t2 = (Inr p, t3)"
    using willing_bootMachine [OF w] by blast
  show "\<exists>i t'. launchHost h cfg None sp cid t = (Inr i, t')"
    using b c d by (simp add: launchHost_def Let_def)
  show "\<exists>t'. launchHost h cfg (Some e) sp cid t = (Inl (CtxDone e), t')"
    using b c by (simp add: launchHost_def Let_def bootMachine_def)
qed

lemma Launch_succeeds:
  assumes "willing h" "sup_ok s" "launchCheck s (launchSpec h sp t) = None"
    and "\<exists>c. ca_min (sv_cids s) \<le> c \<and> c \<le> ca_max (sv_cids s) \<and> c \<notin> ca_used (sv_cids s)"
  shows "\<exists>i s' t'. Launch h None sp s t = (Inr i, s', t')"
    and "\<exists>s' t'. Launch h (Some e) sp s t = (Inl (CtxDone e), s', t')"
proof -
  have "cid_ok (sv_cids s)" using assms(2) by (simp add: sup_ok_def)
  then obtain cid a where "cid_alloc (sv_cids s) = (Inr cid, a)"
    using cid_pool.alloc_succeeds [of "sv_cids s"] assms(4) by (metis atLeastAtMost_iff)
  moreover obtain i t1 where "launchHost h (sv_cfg s) None (launchSpec h sp t) cid t = (Inr i, t1)"
    using willing_launchHost(1) [OF assms(1)] by blast
  moreover obtain t2 where "launchHost h (sv_cfg s) (Some e) (launchSpec h sp t) cid t = (Inl (CtxDone e), t2)"
    using willing_launchHost(2) [OF assms(1)] by blast
  ultimately show "\<exists>i s' t'. Launch h None sp s t = (Inr i, s', t')"
    and "\<exists>s' t'. Launch h (Some e) sp s t = (Inl (CtxDone e), s', t')"
    using assms(3) by (simp_all add: Launch_def Let_def)
qed

section \<open>Properties of the supervisor\<close>

text \<open>
  The supervisor's bookkeeping is an invariant. It holds of a new supervisor and is kept
  by \<open>Launch\<close>, \<open>Terminate\<close> and \<open>ReapDead\<close>, whatever the host answers: each tracked
  sandbox is filed under its own id, with its own cgroup and chroot; no two sandboxes share a
  CID; and the CIDs in use are exactly those of the tracked sandboxes, so a failed launch or
  a termination never leaks one.
\<close>

theorem supervisor_invariant:
  assumes "sup_ok s"
  shows "sup_ok (fst (snd (Launch h ctxErr sp s t))) \<and> sup_ok (fst (snd (Terminate h sid s t))) \<and>
    sup_ok (fst (snd (ReapDead h s t))) \<and>
    (oc_CIDMin (configDefaults cfg) \<le> oc_CIDMax (configDefaults cfg) \<longrightarrow>
      (\<forall>s0 t0. NewSupervisor h cfg rec t = (Inr s0, t0) \<longrightarrow> sup_ok s0))"
proof (intro conjI impI allI)
  show "sup_ok (fst (snd (Launch h ctxErr sp s t)))"
    using fresh_launch.launch_sup_ok [OF assms] unfolding Launch_launchWith by (metis prod.collapse)
  show "sup_ok (fst (snd (Terminate h sid s t)))"
    using Terminate_sup_ok [OF assms] by (metis prod.collapse)
  show "sup_ok (fst (snd (ReapDead h s t)))"
    using reap_sup_ok [OF assms] unfolding ReapDead_def by (metis prod.collapse)
  show "sup_ok s0" if "oc_CIDMin (configDefaults cfg) \<le> oc_CIDMax (configDefaults cfg)"
    "NewSupervisor h cfg rec t = (Inr s0, t0)" for s0 t0
    using NewSupervisor_sup_ok that by blast
qed

definition exCfg :: Config where
  "exCfg = \<lparr>oc_FirecrackerBin = [], oc_JailerBin = [], oc_KernelImagePath = ''/k'', oc_RootfsPath = ''/r'',
     oc_UseJailer = True, oc_ChrootBaseDir = [], oc_JailerUID = 0, oc_JailerGID = 0, oc_StateDir = [],
     oc_CgroupRoot = [], oc_CgroupBase = [], oc_KernelArgs = [], oc_SeccompFilterPath = [], oc_CIDMin = 0,
     oc_CIDMax = 0, oc_MaxConcurrent = 2, oc_MemoryBudgetMiB = 1024\<rparr>"

definition exHost :: host where
  "exHost = \<lparr>ho_op = \<lambda>_ _. None, ho_pid = \<lambda>_. Inr 4711, ho_alive = \<lambda>_ _. True, ho_now = \<lambda>_. ''2024-01-01T00:00:00Z'', ho_rand = \<lambda>_. ''ab'',
     ho_entropy = \<lambda>_. Inr (replicate 32 7)\<rparr>"

definition exSup :: Supervisor where
  "exSup = \<lparr>sv_cfg = configDefaults exCfg, sv_recorder = True, sv_inst = [], sv_cids = newCIDAllocator 3 9\<rparr>"

definition exSpec :: LaunchSpec where
  "exSpec = \<lparr>ls_ID = ''sb-1'', ls_VCPUs = 0, ls_MemMiB = 512, ls_CPUPercent = 0, ls_PidsMax = 0\<rparr>"

lemma exSup_ok: "sup_ok exSup" "limits_ok exSup"
  by (simp_all add: sup_ok_def exSup_def cid_ok_new limits_ok_def memTotal_def)
    (simp add: newCIDAllocator_def)

theorem supervisor_invariant_witness:
  "sup_ok (fst (snd (Launch exHost None exSpec exSup []))) \<and>
   sup_ok (fst (snd (ReapDead exHost (fst (snd (Launch exHost None exSpec exSup []))) [])))"
  using supervisor_invariant [OF exSup_ok(1), of exHost None exSpec "[]"] supervisor_invariant by blast

text \<open>
  What \<open>Launch\<close> does. A success means the checks passed; the new sandbox is tracked
  under its id beside the others, with a CID no other sandbox has, with the defaults filled
  in, and (with a recorder) its record is the last thing written. A failure leaves the
  tracked sandboxes and the CIDs in use as they were.
\<close>

theorem launch_effect:
  assumes "sup_ok s" and "Launch h ctxErr sp s t = (r, s', t')"
  shows "case r of
      Inl e \<Rightarrow> sv_inst s' = sv_inst s \<and> ca_used (sv_cids s') = ca_used (sv_cids s)
    | Inr i \<Rightarrow> Get s (in_ID i) = None \<and> sv_inst s' = sv_inst s @ [(in_ID i, i)] \<and>
        in_CID i \<notin> (\<lambda>(k, j). in_CID j) ` set (sv_inst s) \<and>
        in_Spec i = launchSpec h sp t \<and> in_ID i = ls_ID (launchSpec h sp t) \<and> Count s' = Count s + 1 \<and>
        (sv_recorder s \<longrightarrow> fst (last t') = SaveRecord (toRecord i))"
proof (cases r)
  case (Inl e)
  with fresh_launch.launch_Inl [OF assms(1)] assms(2) show ?thesis unfolding Launch_launchWith by force
next
  case (Inr i)
  obtain cid a t1 where l: "cid_alloc (sv_cids s) = (Inr cid, a)"
    "map_of (sv_inst s) (ls_ID (launchSpec h sp t)) = None"
    "s' = s\<lparr>sv_inst := sv_inst s @ [(ls_ID (launchSpec h sp t), i)], sv_cids := a\<rparr>"
    "inst_wf (sv_cfg s) (launchSpec h sp t) cid i"
    "t' = (if sv_recorder s then ask_all h [SaveRecord (toRecord i)] t1 else t1)"
    using fresh_launch.launch_Inr [OF assms(1)] assms(2) Inr unfolding Launch_launchWith by metis
  have "cid \<notin> ca_used (sv_cids s)"
    using cid_pool.alloc_Inr [OF _ l(1)] assms(1) by (simp add: sup_ok_def)
  with l assms(1) Inr show ?thesis
    by (auto simp: inst_wf_def Get_def Count_def sup_ok_def ask_def)
qed

lemma exLaunch: "\<exists>i s' t'. Launch exHost None exSpec exSup [] = (Inr i, s', t')"
  and exLaunch_cancelled: "\<exists>s' t'. Launch exHost (Some e) exSpec exSup [] = (Inl (CtxDone e), s', t')"
proof -
  have w: "willing exHost" by (simp add: willing_def exHost_def)
  have c: "launchCheck exSup (launchSpec exHost exSpec []) = None"
    by (simp add: launchCheck_def exSup_def launchSpec_def applySpecDefaults_def exSpec_def admitLocked_def
        configDefaults_def exCfg_def usedMemMiB_def wrap64_id int64_range_def)
  have "(3::u32) \<le> 9" by simp
  then have f: "\<exists>c. ca_min (sv_cids exSup) \<le> c \<and> c \<le> ca_max (sv_cids exSup) \<and> c \<notin> ca_used (sv_cids exSup)"
    by (intro exI [of _ 3]) (simp add: exSup_def newCIDAllocator_def)
  show "\<exists>i s' t'. Launch exHost None exSpec exSup [] = (Inr i, s', t')"
    and "\<exists>s' t'. Launch exHost (Some e) exSpec exSup [] = (Inl (CtxDone e), s', t')"
    using Launch_succeeds [OF w exSup_ok(1) c f] by blast+
qed

lemma exSpec_id: "ls_ID (launchSpec exHost exSpec t) = ''sb-1''"
  by (simp add: launchSpec_def applySpecDefaults_def exSpec_def)

theorem launch_effect_witness:
  "\<exists>i s' t'. Launch exHost None exSpec exSup [] = (Inr i, s', t') \<and> in_ID i = ''sb-1'' \<and>
     sv_inst s' = [(''sb-1'', i)] \<and> fst (last t') = SaveRecord (toRecord i)"
proof -
  obtain i s' t' where l: "Launch exHost None exSpec exSup [] = (Inr i, s', t')" using exLaunch by blast
  have "sv_recorder exSup" "sv_inst exSup = []" by (simp_all add: exSup_def)
  with launch_effect [OF exSup_ok(1) l] l exSpec_id show ?thesis by simp
qed



text \<open>
  C17: Host limits hold as long as launches do not overlap. From a supervisor within its
  limits, any \<open>Launch\<close> leaves at most \<open>MaxConcurrent\<close> sandboxes whose memory adds up to at
  most \<open>MemoryBudgetMiB\<close>, provided the sum of the memory committed and asked for fits in 64 bits.
\<close>

theorem launch_respects_limits:
  assumes "sup_ok s" and "limits_ok s"
    and "memTotal s + ls_MemMiB (launchSpec h sp t) < 2 ^ 63"
    and "Launch h ctxErr sp s t = (r, s', t')"
  shows "limits_ok s'"
proof -
  have "0 < ls_MemMiB (launchSpec h sp t)"
    by (simp add: launchSpec_def applySpecDefaults_def Let_def)
  with fresh_launch.launch_limits [OF assms(1,2)] assms(3,4) show ?thesis
    unfolding Launch_launchWith by blast
qed

theorem launch_respects_limits_witness:
  "\<exists>r s' t'. Launch exHost None exSpec exSup [] = (r, s', t') \<and> limits_ok s'"
proof -
  obtain i s' t' where l: "Launch exHost None exSpec exSup [] = (Inr i, s', t')" using exLaunch by blast
  have "memTotal exSup + ls_MemMiB (launchSpec exHost exSpec []) < 2 ^ 63"
    by (simp add: memTotal_def exSup_def launchSpec_def applySpecDefaults_def exSpec_def)
  from launch_respects_limits [OF exSup_ok this l] l show ?thesis by blast
qed

section \<open>What a failed launch leaves behind\<close>

definition created :: "trace \<Rightarrow> string set" where
  "created u = {p. (MkdirAll p, None) \<in> set u \<or> (CreateFile p, None) \<in> set u}"

text \<open>The cgroup directories all sandboxes share: the parent and its ancestors.\<close>

definition sharedCgroups :: "Config \<Rightarrow> string set" where
  "sharedCgroups cfg = insert (Join [oc_CgroupRoot cfg, oc_CgroupBase cfg])
     {p. MkdirAll p \<in> set (enableSubtreeControllers (oc_CgroupRoot cfg) (oc_CgroupBase cfg))}"

lemma asks_created: "asks t (t @ u) A \<Longrightarrow> created u \<subseteq> {p. MkdirAll p \<in> A \<or> CreateFile p \<in> A}"
  by (fastforce simp: asks_def created_def)

lemma no_create:
  "CreateFile p \<notin> cgroupOps cfg sid sp"
proof -
  have "CreateFile p \<notin> set (enable_parts cur ps)" for cur ps
    by (induction cur ps rule: enable_parts.induct) (auto simp: enableControllers_def Let_def)
  then show ?thesis
    by (auto simp: cgroupOps_def cgroupCaps_def writeCgroup_def enableSubtreeControllers_def enableControllers_def)
qed

lemma mkdir_cgroupOps:
  "MkdirAll p \<in> cgroupOps cfg sid sp \<Longrightarrow> p \<in> sharedCgroups cfg \<or> p = cgroupLeaf cfg sid"
  by (auto simp: cgroupOps_def sharedCgroups_def cgroupCaps_def writeCgroup_def)

lemma plain_rootfs: "plain ''rootfs.ext4''"
  by (simp add: plain_def)

lemma build_within:
  assumes "rooted (oc_StateDir cfg)" "plain sid" "MkdirAll p \<in> buildOps cfg sid \<or> CreateFile p \<in> buildOps cfg sid"
  shows "within (Join [oc_StateDir cfg, sid]) p"
proof -
  let ?sd = "Join [oc_StateDir cfg, sid]"
  have sd: "rooted ?sd" using assms(1,2) by (intro rooted_Join) simp_all
  have rc: "within ?sd (Join [?sd, ''rootfs.ext4''])"
    using sd plain_rootfs by (simp add: within_def comps_of_Join rooted_Join)
  have "Dir (Join [?sd, ''rootfs.ext4'']) = Clean ?sd"
    using Dir_Join [of ?sd "[]" "''rootfs.ext4''"] sd plain_rootfs by (simp add: Join_def Clean_rooted rooted_not_Nil)
  moreover have "comps_of (Clean ?sd) = comps_of ?sd" "rooted (Clean ?sd)"
    using sd by (simp_all add: Clean_rooted comps_of_abs_path comps_of_plain)
  ultimately have "within ?sd (Dir (Join [?sd, ''rootfs.ext4'']))" using sd by (simp add: within_def)
  moreover have "within ?sd ?sd" using sd by (simp add: within_def)
  ultimately show ?thesis using rc assms(3) by (auto simp: buildOps_def copyOps_def Let_def)
qed


lemma exSup_fields:
  "oc_StateDir (sv_cfg exSup) = ''/srv/sandbox-state''" "oc_ChrootBaseDir (sv_cfg exSup) = ''/srv/jailer''"
  "oc_CgroupRoot (sv_cfg exSup) = ''/sys/fs/cgroup''" "oc_CgroupBase (sv_cfg exSup) = ''sandboxes''"
  "oc_UseJailer (sv_cfg exSup)"
  by (simp_all add: exSup_def configDefaults_def exCfg_def defaultStr_def)


lemma ask_seq_first:
  assumes "ask_seq h ((l0, op0) # ops) t = (Some (l, e), t @ u)" and "l \<noteq> l0"
  shows "(op0, None) \<in> set u"
proof -
  from assms have n: "ho_op h t op0 = None" and r: "ask_seq h ops (t @ [(op0, None)]) = (Some (l, e), t @ u)"
    by (auto simp: ask_seq.simps ask_def split: option.splits)
  obtain v where "t @ u = (t @ [(op0, None)]) @ v" using ask_seq_prefix [of h ops "t @ [(op0, None)]"] r by auto
  then show ?thesis by simp
qed

lemma build_failure:
  assumes "buildFirecrackerConfig h cfg sid cid sp t = (Inl e, t @ u)"
  shows "\<exists>l x. e = BuildConfig l x" and "Remove p \<notin> fst ` set u" and "RemoveAll p \<notin> fst ` set u"
    and "e = BuildConfig l x \<Longrightarrow> l \<noteq> ''mkdir state dir'' \<Longrightarrow> (MkdirAll (Join [oc_StateDir cfg, sid]), None) \<in> set u"
proof -
  show "\<exists>l x. e = BuildConfig l x"
    using assms by (auto simp: buildFirecrackerConfig_def Let_def split: prod.splits option.splits)
  have "asks t (t @ u) (buildOps cfg sid)" using asks_build(1) [OF assms] .
  then have ops: "\<forall>x \<in> set u. fst x \<in> buildOps cfg sid" by (simp add: asks_def)
  then show "Remove p \<notin> fst ` set u" "RemoveAll p \<notin> fst ` set u"
    by (auto simp: buildOps_def copyOps_def Let_def)
  let ?sd = "Join [oc_StateDir cfg, sid]"
  assume l: "e = BuildConfig l x" "l \<noteq> ''mkdir state dir''"
  have n: "ho_op h t (MkdirAll ?sd) = None"
    using assms l by (auto simp: buildFirecrackerConfig_def Let_def ask_def split: option.splits)
  obtain r2 t2 where c: "copyFile h (oc_RootfsPath cfg) (Join [?sd, ''rootfs.ext4'']) (t @ [(MkdirAll ?sd, None)]) = (r2, t2)"
    by fastforce
  obtain r3 t3 where d: "ask_seq h [(''chmod rootfs copy'', Chmod (Join [?sd, ''rootfs.ext4''])),
     (''chown rootfs copy'', Chown (Join [?sd, ''rootfs.ext4'']) 0 (oc_JailerGID cfg))] t2 = (r3, t3)" by fastforce
  have "t @ u = t2 \<or> t @ u = t3"
    using assms n c d by (auto simp: buildFirecrackerConfig_def Let_def ask_def split: option.splits)
  moreover obtain v w where "t2 = (t @ [(MkdirAll ?sd, None)]) @ v" "t3 = t2 @ w"
    using asks_copyFile [OF c] asks_ask_seq [OF d] by (auto simp: asks_def)
  ultimately show "(MkdirAll ?sd, None) \<in> set u" by auto
qed

lemma cgroup_failure:
  assumes "prepareCgroup h cfg sid sp t = (Inl e, t @ u)"
  shows "\<exists>l x. e = PrepareCgroup l x" and "Remove p \<notin> fst ` set u"
    and "e = PrepareCgroup l x \<Longrightarrow> l \<noteq> ''mkdir parent cgroup'' \<Longrightarrow> l \<noteq> ''mkdir leaf cgroup'' \<Longrightarrow>
      (MkdirAll (cgroupLeaf cfg sid), None) \<in> set u"
proof -
  show "\<exists>l x. e = PrepareCgroup l x"
    using assms by (auto simp: prepareCgroup_def Let_def split: prod.splits option.splits)
  have "Remove p \<notin> set (enable_parts cur ps)" for cur ps
    by (induction cur ps rule: enable_parts.induct) (auto simp: enableControllers_def Let_def)
  then have "Remove p \<notin> cgroupOps cfg sid sp"
    by (auto simp: cgroupOps_def cgroupCaps_def writeCgroup_def enableSubtreeControllers_def enableControllers_def)
  then show "Remove p \<notin> fst ` set u"
    using asks_prepareCgroup(1) [OF assms] by (auto simp: asks_def)
  let ?par = "MkdirAll (Join [oc_CgroupRoot cfg, oc_CgroupBase cfg])"
  let ?seq = "(''mkdir leaf cgroup'', MkdirAll (cgroupLeaf cfg sid)) # cgroupCaps (cgroupLeaf cfg sid) sp"
  assume l: "e = PrepareCgroup l x" "l \<noteq> ''mkdir parent cgroup''" "l \<noteq> ''mkdir leaf cgroup''"
  have n: "ho_op h t ?par = None"
    using assms l by (auto simp: prepareCgroup_def Let_def ask_def split: option.splits)
  define t2 where "t2 = ask_all h (enableSubtreeControllers (oc_CgroupRoot cfg) (oc_CgroupBase cfg)) (t @ [(?par, None)])"
  have s: "ask_seq h ?seq t2 = (Some (l, x), t @ u)"
    using assms n l(1) by (auto simp: prepareCgroup_def Let_def ask_def t2_def split: option.splits prod.splits)
  obtain v where v: "t2 = t @ v" using asks_ask_all [of "t @ [(?par, None)]" h] by (auto simp: asks_def t2_def)
  moreover obtain w where w: "t @ u = t2 @ w" using asks_ask_seq [OF s] by (auto simp: asks_def)
  moreover have "(MkdirAll (cgroupLeaf cfg sid), None) \<in> set w"
    using ask_seq_first [of h "''mkdir leaf cgroup''" _ _ t2 l x w] s l(3) w by simp
  ultimately show "(MkdirAll (cgroupLeaf cfg sid), None) \<in> set u" by auto
qed

text \<open>
  Two early failures are not rolled back. When the root file system cannot be prepared, the state
  directory that was made for it stays behind: nothing at all is removed. When the limits cannot be
  written to the cgroup, the cgroup made for the sandbox stays behind: it is never removed.
\<close>

theorem launch_rollback_gaps:
  assumes "Launch h ctxErr sp s t = (Inl e, s', t @ u)"
  shows "(\<forall>l x. e = BuildConfig l x \<longrightarrow>
      (\<forall>p. Remove p \<notin> fst ` set u \<and> RemoveAll p \<notin> fst ` set u) \<and>
      (l \<noteq> ''mkdir state dir'' \<longrightarrow> (MkdirAll (Join [oc_StateDir (sv_cfg s), ls_ID (launchSpec h sp t)]), None) \<in> set u)) \<and>
    (\<forall>l x. e = PrepareCgroup l x \<longrightarrow>
      (\<forall>p. Remove p \<notin> fst ` set u) \<and>
      (l \<noteq> ''mkdir parent cgroup'' \<and> l \<noteq> ''mkdir leaf cgroup'' \<longrightarrow>
        (MkdirAll (cgroupLeaf (sv_cfg s) (ls_ID (launchSpec h sp t))), None) \<in> set u))"
proof -
  let ?sp = "launchSpec h sp t" and ?cfg = "sv_cfg s"
  have run: "\<exists>cid. launchHost h ?cfg ctxErr ?sp cid t = (Inl e, t @ u)"
    if "(\<exists>l x. e = BuildConfig l x) \<or> (\<exists>l x. e = PrepareCgroup l x)"
    using assms that by (auto simp: Launch_def Let_def launchCheck_def admitLocked_def
        split: option.splits sum.splits prod.splits if_splits)
  have boot_other: "(\<nexists>l x. e = BuildConfig l x) \<and> (\<nexists>l x. e = PrepareCgroup l x)"
    if "bootMachine h ?cfg (ls_ID ?sp) ctxErr fc paths leaf t2 = (Inl e, t')" for fc paths leaf t2 t'
    using that by (auto simp: bootMachine_def Let_def split: option.splits prod.splits sum.splits)
  have build: "(\<forall>p. Remove p \<notin> fst ` set u \<and> RemoveAll p \<notin> fst ` set u) \<and>
      (l \<noteq> ''mkdir state dir'' \<longrightarrow> (MkdirAll (Join [oc_StateDir ?cfg, ls_ID ?sp]), None) \<in> set u)"
    if e: "e = BuildConfig l x" for l x
  proof -
    obtain cid where "launchHost h ?cfg ctxErr ?sp cid t = (Inl e, t @ u)" using run e by blast
    then show ?thesis
    proof (cases rule: launchHost_cases)
      case (build e')
      with e build_failure [of h ?cfg "ls_ID ?sp" cid ?sp t e u] show ?thesis by auto
    next
      case (cgroup t1 t2 e')
      then show ?thesis using e by (auto simp: prepareCgroup_def Let_def split: prod.splits option.splits)
    next
      case (boot t1 t2 q)
      then have "q = Inl e" by (cases q) auto
      with boot(3) boot_other e show ?thesis by blast
    qed
  qed
  have cg: "(\<forall>p. Remove p \<notin> fst ` set u) \<and>
      (l \<noteq> ''mkdir parent cgroup'' \<and> l \<noteq> ''mkdir leaf cgroup'' \<longrightarrow> (MkdirAll (cgroupLeaf ?cfg (ls_ID ?sp)), None) \<in> set u)"
    if e: "e = PrepareCgroup l x" for l x
  proof -
    obtain cid where "launchHost h ?cfg ctxErr ?sp cid t = (Inl e, t @ u)" using run e by blast
    then show ?thesis
    proof (cases rule: launchHost_cases)
      case (build e')
      then show ?thesis using e build_failure(1) [of h ?cfg "ls_ID ?sp" cid ?sp t e' u] by auto
    next
      case (cgroup t1 t2 e')
      obtain v where v: "t1 = t @ v" "\<forall>z \<in> set v. fst z \<in> buildOps ?cfg (ls_ID ?sp)"
        using asks_build(1) [OF cgroup(1)] by (auto simp: asks_def)
      obtain w where w: "t2 = t1 @ w" using asks_prepareCgroup(1) [OF cgroup(2)] by (auto simp: asks_def)
      have u: "\<exists>y. u = v @ w @ [(RemoveAll (Join [oc_StateDir ?cfg, ls_ID ?sp]), y)]"
        using cgroup(4) v w by (simp add: ask_def)
      have "Remove p \<notin> fst ` set v" for p using v(2) by (fastforce simp: buildOps_def copyOps_def Let_def)
      moreover obtain y where y: "u = v @ w @ [(RemoveAll (Join [oc_StateDir ?cfg, ls_ID ?sp]), y)]" using u by blast
      then have "fst ` set u = fst ` set v \<union> fst ` set w \<union> {RemoveAll (Join [oc_StateDir ?cfg, ls_ID ?sp])}"
        by (simp add: image_Un)
      ultimately show ?thesis
        using y cgroup_failure(2) [of h ?cfg "ls_ID ?sp" ?sp t1 e' w]
          cgroup_failure(3) [of h ?cfg "ls_ID ?sp" ?sp t1 e' w l x] cgroup(2,3) w e by auto
    next
      case (boot t1 t2 q)
      then have "q = Inl e" by (cases q) auto
      with boot(3) boot_other e show ?thesis by blast
    qed
  qed
  from build cg show ?thesis by blast
qed

definition exFull :: host where
  "exFull = exHost\<lparr>ho_op := \<lambda>_ op. case op of CopyData _ _ \<Rightarrow> Some ''no space left'' | _ \<Rightarrow> None\<rparr>"

theorem launch_rollback_gaps_witness:
  "\<exists>s' u. Launch exFull None exSpec exSup [] = (Inl (BuildConfig ''copy rootfs'' ''no space left''), s', u) \<and>
     (MkdirAll (Join [''/srv/sandbox-state'', ''sb-1'']), None) \<in> set u"
proof -
  have sp: "launchSpec exFull exSpec [] = launchSpec exHost exSpec []"
    by (simp add: launchSpec_def exSpec_def applySpecDefaults_def)
  have c: "launchCheck exSup (launchSpec exFull exSpec []) = None"
    by (simp add: launchCheck_def exSup_def launchSpec_def applySpecDefaults_def exSpec_def admitLocked_def
        configDefaults_def exCfg_def usedMemMiB_def wrap64_id int64_range_def)
  have "(3::u32) \<in> {3..9}" by simp
  then obtain cid a where al: "cid_alloc (sv_cids exSup) = (Inr cid, a)"
    using cid_pool.alloc_succeeds [of "sv_cids exSup" 3] exSup_ok(1)
    by (auto simp: sup_ok_def exSup_def newCIDAllocator_def)
  obtain u where b: "launchHost exFull (sv_cfg exSup) None (launchSpec exFull exSpec []) cid [] =
      (Inl (BuildConfig ''copy rootfs'' ''no space left''), u)"
    by (simp add: launchHost_def buildFirecrackerConfig_def copyFile_def Let_def ask_def ask_seq.simps exFull_def)
  then obtain s' where l: "Launch exFull None exSpec exSup [] = (Inl (BuildConfig ''copy rootfs'' ''no space left''), s', [] @ u)"
    using c al by (simp add: Launch_def Let_def)
  have d: "''copy rootfs'' \<noteq> ''mkdir state dir''" by simp
  show ?thesis
    using launch_rollback_gaps [OF l] l d by (auto simp: sp exSpec_id exSup_fields)
qed

section \<open>Termination\<close>

text \<open>The directories of one sandbox, and bases that keep those of different kinds apart.\<close>

definition sandboxDirs :: "Config \<Rightarrow> string \<Rightarrow> string set" where
  "sandboxDirs cfg k = {Join [oc_StateDir cfg, k], Join [oc_ChrootBaseDir cfg, ''firecracker'', k], cgroupLeaf cfg k}"

definition separated :: "Config \<Rightarrow> bool" where
  "separated cfg \<longleftrightarrow>
     (let bs = [oc_StateDir cfg, oc_ChrootBaseDir cfg, Join [oc_CgroupRoot cfg, oc_CgroupBase cfg]] in
      list_all rooted bs \<and>
      (\<forall>i < 3. \<forall>j < 3. i \<noteq> j \<longrightarrow> \<not> prefix (comps_of (bs ! i)) (comps_of (bs ! j))))"

lemma plain_fixed: "plain ''firecracker''" "plain ''root''" "plain ''sandboxes''"
  by (simp_all add: plain_def)

lemma prefix_bases: "\<not> prefix xs ys \<Longrightarrow> \<not> prefix ys xs \<Longrightarrow> prefix (xs @ a) (ys @ b) = False"
  by (meson append_prefixD prefixI prefix_same_cases)

lemma all_less_three: "(\<forall>i < (3::nat). P i) \<longleftrightarrow> P 0 \<and> P 1 \<and> P 2"
  by (auto simp: numeral_3_eq_3 less_Suc_eq numeral_2_eq_2)

lemma dirs_disjoint:
  assumes "separated cfg" "plain k" "plain m" "k \<noteq> m" "p \<in> sandboxDirs cfg k" "q \<in> sandboxDirs cfg m"
  shows "\<not> within p q"
proof -
  let ?S = "oc_StateDir cfg" and ?C = "oc_ChrootBaseDir cfg" and ?G = "Join [oc_CgroupRoot cfg, oc_CgroupBase cfg]"
  have r: "rooted ?S" "rooted ?C" "rooted ?G" using assms(1) by (simp_all add: separated_def Let_def)
  have apart: "\<not> prefix (comps_of ?S) (comps_of ?C)" "\<not> prefix (comps_of ?S) (comps_of ?G)"
    "\<not> prefix (comps_of ?C) (comps_of ?S)" "\<not> prefix (comps_of ?C) (comps_of ?G)"
    "\<not> prefix (comps_of ?G) (comps_of ?S)" "\<not> prefix (comps_of ?G) (comps_of ?C)"
    using assms(1) by (simp_all add: separated_def Let_def all_less_three)
  have c: "comps_of (Join [?S, x]) = comps_of ?S @ [x]" "comps_of (Join [?C, ''firecracker'', x]) = comps_of ?C @ [''firecracker'', x]"
    "comps_of (cgroupLeaf cfg x) = comps_of ?G @ [x]" if "plain x" for x
    using that r plain_fixed by (simp_all add: comps_of_Join cgroupLeaf_def)
  show ?thesis
    using assms(4-6) apart
    by (auto simp: sandboxDirs_def within_def c [OF assms(2)] c [OF assms(3)] prefix_bases simp del: prefix_snoc)
qed

text \<open>
  C18: Terminating a sandbox reclaims what it has and nothing else. The sandbox is no longer tracked,
  all others are, and its CID is free again; the VM is shut down and stopped, and its cgroup, state
  directory, chroot and record are removed. Under bases that do not contain each other, none of
  the paths removed contains a directory of another sandbox with a plain name.
\<close>

theorem terminate_reclaims:
  assumes "sup_ok s" and "separated (sv_cfg s)" and "plain sid"
    and "Get s sid = Some i" and "Terminate h sid s t = (r, s', t')"
  shows "r = None \<and> Get s' sid = None \<and> (\<forall>k. k \<noteq> sid \<longrightarrow> Get s' k = Get s k) \<and>
    ca_used (sv_cids s') = ca_used (sv_cids s) - {in_CID i} \<and>
    map fst t' = map fst t @ [ShutdownVM sid, StopVMM sid, CancelCtx sid, Remove (cgroupLeaf (sv_cfg s) sid),
        RemoveAll (Join [oc_StateDir (sv_cfg s), sid])]
      @ (if oc_UseJailer (sv_cfg s) then [RemoveAll (Join [oc_ChrootBaseDir (sv_cfg s), ''firecracker'', sid])] else [])
      @ (if sv_recorder s then [RemoveRecord sid] else []) \<and>
    (\<forall>k p q. plain k \<and> k \<noteq> sid \<and> (Remove p \<in> set (terminateOps s i) \<or> RemoveAll p \<in> set (terminateOps s i)) \<and>
       q \<in> sandboxDirs (sv_cfg s) k \<longrightarrow> \<not> within p q)"
proof -
  have i: "map_of (sv_inst s) sid = Some i" using assms(4) by (simp add: Get_def)
  then have ok: "inst_ok (sv_cfg s) sid i" using assms(1) by (auto simp: sup_ok_def dest!: map_of_SomeD)
  have r: "rooted (oc_ChrootBaseDir (sv_cfg s))" "rooted (Join [oc_CgroupRoot (sv_cfg s), oc_CgroupBase (sv_cfg s)])"
    using assms(2) by (simp_all add: separated_def Let_def)
  let ?root = "Join [oc_ChrootBaseDir (sv_cfg s), ''firecracker'', sid, ''root'']"
  have root: "?root \<noteq> []" "Dir ?root = Join [oc_ChrootBaseDir (sv_cfg s), ''firecracker'', sid]"
    using Dir_Join [of "oc_ChrootBaseDir (sv_cfg s)" "[''firecracker'', sid]" "''root''"] r(1) assms(3) plain_fixed
    by (simp_all add: Join_plain [of _ "[''firecracker'', sid, ''root'']"] abs_path_def)
  have leaf: "cgroupLeaf (sv_cfg s) sid \<noteq> []"
    using r(2) assms(3) by (simp add: cgroupLeaf_def Join_plain [of _ "[sid]"] abs_path_def)
  have ops: "terminateOps s i = [ShutdownVM sid, StopVMM sid, CancelCtx sid, Remove (cgroupLeaf (sv_cfg s) sid),
        RemoveAll (Join [oc_StateDir (sv_cfg s), sid])]
      @ (if oc_UseJailer (sv_cfg s) then [RemoveAll (Join [oc_ChrootBaseDir (sv_cfg s), ''firecracker'', sid])] else [])
      @ (if sv_recorder s then [RemoveRecord sid] else [])"
    using ok leaf root by (simp add: terminateOps_def inst_ok_def bootPathsOf_def Let_def)
  have "p \<in> sandboxDirs (sv_cfg s) sid" if "Remove p \<in> set (terminateOps s i) \<or> RemoveAll p \<in> set (terminateOps s i)" for p
    using that unfolding ops by (auto simp: sandboxDirs_def split: if_splits)
  then have "\<forall>k p q. plain k \<and> k \<noteq> sid \<and> (Remove p \<in> set (terminateOps s i) \<or> RemoveAll p \<in> set (terminateOps s i)) \<and>
       q \<in> sandboxDirs (sv_cfg s) k \<longrightarrow> \<not> within p q"
    using dirs_disjoint [OF assms(2,3)] by blast
  moreover have "ca_used (cid_free (in_CID i) (sv_cids s)) = ca_used (sv_cids s) - {in_CID i}"
    using cid_pool.free_law assms(1) by (auto simp: sup_ok_def)
  moreover have "r = None" "s' = s\<lparr>sv_inst := inst_delete sid (sv_inst s), sv_cids := cid_free (in_CID i) (sv_cids s)\<rparr>"
    "map fst t' = map fst t @ terminateOps s i"
    using assms(5) i by (auto simp: Terminate_def)
  ultimately show ?thesis using ops by (simp add: Get_def map_of_inst_delete)
qed

lemma exSup_separated: "separated (sv_cfg exSup)"
proof -
  have c: "comps_of ''/srv/sandbox-state'' = [''srv'', ''sandbox-state'']" "comps_of ''/srv/jailer'' = [''srv'', ''jailer'']"
    "Join [''/sys/fs/cgroup'', ''sandboxes''] = ''/sys/fs/cgroup/sandboxes''"
    "comps_of ''/sys/fs/cgroup/sandboxes'' = [''sys'', ''fs'', ''cgroup'', ''sandboxes'']" by code_simp+
  show ?thesis by (simp add: separated_def exSup_fields c all_less_three rooted_def)
qed

theorem terminate_reclaims_witness:
  "\<exists>i s1 t1 s2 t2. Launch exHost None exSpec exSup [] = (Inr i, s1, t1) \<and>
     Terminate exHost ''sb-1'' s1 t1 = (None, s2, t2) \<and> Get s2 ''sb-1'' = None \<and>
     map fst t2 = map fst t1 @ [ShutdownVM ''sb-1'', StopVMM ''sb-1'', CancelCtx ''sb-1'',
       Remove (cgroupLeaf (sv_cfg exSup) ''sb-1''), RemoveAll (Join [''/srv/sandbox-state'', ''sb-1'']),
       RemoveAll (Join [''/srv/jailer'', ''firecracker'', ''sb-1'']), RemoveRecord ''sb-1'']"
proof -
  obtain i s1 t1 where l: "Launch exHost None exSpec exSup [] = (Inr i, s1, t1)" using exLaunch by blast
  obtain r s2 t2 where t: "Terminate exHost ''sb-1'' s1 t1 = (r, s2, t2)" by (metis prod_cases3)
  have ok: "sup_ok s1"
    using fresh_launch.launch_sup_ok [OF exSup_ok(1)] l unfolding Launch_launchWith by blast
  obtain a where s1: "s1 = exSup\<lparr>sv_inst := sv_inst exSup @ [(''sb-1'', i)], sv_cids := a\<rparr>"
    using fresh_launch.launch_Inr [OF exSup_ok(1)] l unfolding Launch_launchWith by (metis exSpec_id)
  have cfg: "sv_cfg s1 = sv_cfg exSup" "sv_recorder s1" "Get s1 ''sb-1'' = Some i"
    by (simp_all add: s1 Get_def) (simp_all add: exSup_def)
  have "separated (sv_cfg s1)" "plain ''sb-1''" using exSup_separated by (simp_all add: cfg plain_def)
  from terminate_reclaims [OF ok this cfg(3) t] l t show ?thesis
    by (simp add: cfg exSup_fields)
qed

section \<open>Reconciliation and reaping\<close>

lemma asks_kill_wait: "asks t (kill_wait n h p t) {Kill p ''SIGKILL'', Sleep 100000000}"
proof (induction n h p t rule: kill_wait.induct)
  case (1 h p t)
  then show ?case by (auto simp: asks_def ask_def)
next
  case (2 n h p t)
  show ?case
  proof (cases "processAlive h t p")
    case True
    have "asks t (snd (ask h (Sleep 100000000) t)) {Sleep 100000000}" by (simp add: asks_def ask_def)
    from asks_trans [OF this 2] True show ?thesis by (simp add: insert_commute)
  qed simp
qed

lemma kill_wait_kills:
  "\<forall>t. processAlive h t p \<Longrightarrow> \<exists>u. kill_wait n h p t = t @ u \<and> Kill p ''SIGKILL'' \<in> fst ` set u"
proof (induction n arbitrary: t)
  case (Suc n)
  let ?x = "(Sleep 100000000, ho_op h t (Sleep 100000000))"
  obtain u where "kill_wait n h p (t @ [?x]) = (t @ [?x]) @ u" "Kill p ''SIGKILL'' \<in> fst ` set u"
    using Suc by blast
  then show ?case using Suc.prems by (intro exI [of _ "?x # u"]) (simp add: ask_def)
qed (simp add: ask_def)

lemma asks_killPID: "asks t (killPID h p t) {Kill p ''SIGTERM'', Kill p ''SIGKILL'', Sleep 100000000}"
proof (cases "p \<le> 0")
  case False
  have "asks t (snd (ask h (Kill p ''SIGTERM'') t)) {Kill p ''SIGTERM''}" by (simp add: asks_def ask_def)
  from asks_trans [OF this asks_kill_wait [of _ 30 h p]] False show ?thesis
    by (auto simp: killPID_def elim: asks_mono)
qed (simp add: killPID_def)

lemma killPID_kills:
  assumes "0 < p" and "\<forall>t. processAlive h t p"
  shows "\<exists>u. killPID h p t = t @ u \<and> {Kill p ''SIGTERM'', Kill p ''SIGKILL''} \<subseteq> fst ` set u"
proof -
  let ?t1 = "t @ [(Kill p ''SIGTERM'', ho_op h t (Kill p ''SIGTERM''))]"
  have k: "killPID h p t = kill_wait 30 h p ?t1" using assms(1) by (simp add: killPID_def ask_def)
  obtain u where u: "kill_wait 30 h p ?t1 = ?t1 @ u" "Kill p ''SIGKILL'' \<in> fst ` set u"
    using kill_wait_kills [OF assms(2)] by blast
  then show ?thesis using u k by (intro exI [of _ "(Kill p ''SIGTERM'', ho_op h t (Kill p ''SIGTERM'')) # u"]) auto
qed

text \<open>One orphan, then the others.\<close>

definition orphanOps :: "Supervisor \<Rightarrow> Record \<Rightarrow> host_op set" where
  "orphanOps s r = set (gcOps s r) \<union>
     (if rc_PID r > 0 then {Kill (rc_PID r) ''SIGTERM'', Kill (rc_PID r) ''SIGKILL'', Sleep 100000000} else {})"

lemma reconcile_loop_asks:
  "\<exists>u. reconcile_loop h s recs t = t @ u \<and>
    (\<forall>x \<in> set u. \<exists>r \<in> set recs. map_of (sv_inst s) (rc_ID r) = None \<and> fst x \<in> orphanOps s r) \<and>
    (\<forall>r \<in> set recs. map_of (sv_inst s) (rc_ID r) = None \<longrightarrow> set (gcOps s r) \<subseteq> fst ` set u \<and>
      (0 < rc_PID r \<and> (\<forall>t. processAlive h t (rc_PID r)) \<longrightarrow>
        {Kill (rc_PID r) ''SIGTERM'', Kill (rc_PID r) ''SIGKILL''} \<subseteq> fst ` set u))"
proof (induction recs arbitrary: t)
  case (Cons r recs)
  show ?case
  proof (cases "map_of (sv_inst s) (rc_ID r)")
    case (Some i)
    with Cons [of t] show ?thesis by auto
  next
    case None
    let ?alive = "rc_PID r > 0 \<and> processAlive h t (rc_PID r)"
    define t1 where "t1 = (if ?alive then killPID h (rc_PID r) t else t)"
    have "asks t t1 (orphanOps s r)"
      unfolding t1_def using asks_mono [OF asks_killPID, of "rc_PID r" "orphanOps s r" t h]
      by (auto simp: orphanOps_def)
    then obtain v where v: "t1 = t @ v" "\<forall>x \<in> set v. fst x \<in> orphanOps s r" by (auto simp: asks_def)
    have kill: "{Kill (rc_PID r) ''SIGTERM'', Kill (rc_PID r) ''SIGKILL''} \<subseteq> fst ` set v"
      if "0 < rc_PID r" "\<forall>t. processAlive h t (rc_PID r)"
      using killPID_kills [OF that, of t] v(1) that by (auto simp: t1_def)
    obtain w where w: "gcRecord h s r t1 = t1 @ w" "map fst w = gcOps s r"
      using ask_all_ops [of h "gcOps s r" t1] by (auto simp: gcRecord_def)
    then have w': "fst ` set w = set (gcOps s r)" by (metis list.set_map)
    obtain u where u: "reconcile_loop h s recs (t1 @ w) = (t1 @ w) @ u"
      "\<forall>x \<in> set u. \<exists>r \<in> set recs. map_of (sv_inst s) (rc_ID r) = None \<and> fst x \<in> orphanOps s r"
      "\<forall>r \<in> set recs. map_of (sv_inst s) (rc_ID r) = None \<longrightarrow> set (gcOps s r) \<subseteq> fst ` set u \<and>
      (0 < rc_PID r \<and> (\<forall>t. processAlive h t (rc_PID r)) \<longrightarrow>
        {Kill (rc_PID r) ''SIGTERM'', Kill (rc_PID r) ''SIGKILL''} \<subseteq> fst ` set u)"
      using Cons [of "t1 @ w"] by blast
    have run: "reconcile_loop h s (r # recs) t = t @ (v @ w @ u)"
      using None u(1) v(1) w(1) by (simp add: t1_def)
    have own: "fst x \<in> orphanOps s r" if "x \<in> set (v @ w)" for x
      using that v(2) w' by (auto simp: orphanOps_def)
    show ?thesis
      using run own u(2,3) None kill w' by (intro exI [of _ "v @ w @ u"]) (auto simp: image_Un)
  qed
qed simp


definition exRecord :: Record where
  "exRecord = \<lparr>rc_ID = ''sb-9'', rc_CID = 7, rc_PID = 99, rc_VsockUDSPath = [], rc_SocketPath = [],
     rc_ChrootDir = [], rc_CgroupPath = ''/sys/fs/cgroup/sandboxes/sb-9'', rc_Status = StatusRunning,
     rc_CreatedAt = [], rc_Spec = \<lparr>sp_VCPUs = 1, sp_MemMiB = 256, sp_CPUPercent = 100, sp_PidsMax = 128\<rparr>\<rparr>"


lemma inst_delete_absent: "map_of m k = None \<Longrightarrow> inst_delete k m = m"
  unfolding inst_delete_def by (induction m) (auto split: if_splits)

lemma reap_loop_effect:
  assumes "\<And>t t' p. ho_alive h t p = ho_alive h t' p"
  shows "reap_loop h is s t = (dead, s', t') \<Longrightarrow>
    dead = map in_ID (filter (\<lambda>i. \<not> processAlive h t0 (in_PID i)) is) \<and>
    sv_inst s' = filter (\<lambda>(k, _). k \<notin> set dead) (sv_inst s) \<and> sv_cfg s' = sv_cfg s"
proof (induction "is" arbitrary: s t dead s' t')
  case (Cons i "is")
  have al: "processAlive h t (in_PID i) = processAlive h t0 (in_PID i)"
    using assms [of t "in_PID i" t0] by (simp add: processAlive_def)
  show ?case
  proof (cases "processAlive h t (in_PID i)")
    case True
    with Cons al show ?thesis by simp
  next
    case False
    obtain r1 s1 t1 where t1: "Terminate h (in_ID i) s t = (r1, s1, t1)" by (metis prod_cases3)
    obtain d s2 t2 where rec: "reap_loop h is s1 t1 = (d, s2, t2)" by (metis prod_cases3)
    have s1: "sv_inst s1 = inst_delete (in_ID i) (sv_inst s)" "sv_cfg s1 = sv_cfg s"
      using t1 inst_delete_absent [of "sv_inst s" "in_ID i"]
      by (auto simp: Terminate_def split: option.splits)
    have "dead = in_ID i # d" "s' = s2" using Cons.prems False t1 rec by auto
    with Cons.IH [OF rec] False al s1 show ?thesis
      by (auto simp: inst_delete_def filter_filter intro!: filter_cong)
  qed
qed simp

text \<open>
  \<open>ReapDead\<close> removes the dead and only the dead. If liveness of processes does not change
  during the call, the ids returned are those of the tracked sandboxes whose VMM is gone, and exactly
  the other sandboxes stay tracked.
\<close>

theorem reap_dead_exact:
  assumes "sup_ok s" and "\<And>t t' p. ho_alive h t p = ho_alive h t' p"
    and "ReapDead h s t = (dead, s', t')"
  shows "dead = map in_ID (filter (\<lambda>i. \<not> processAlive h t (in_PID i)) (List s)) \<and>
    sv_inst s' = filter (\<lambda>(k, i). processAlive h t (in_PID i)) (sv_inst s)"
proof -
  have d: "dead = map in_ID (filter (\<lambda>i. \<not> processAlive h t (in_PID i)) (List s))"
    "sv_inst s' = filter (\<lambda>(k, _). k \<notin> set dead) (sv_inst s)"
    using reap_loop_effect [of h "List s" s t dead s' t' t] assms(2,3) by (auto simp: ReapDead_def)
  have keys: "distinct (map fst (sv_inst s))" using assms(1) by (simp add: sup_ok_def)
  have "k \<notin> set dead \<longleftrightarrow> processAlive h t (in_PID i)" if ki: "(k, i) \<in> set (sv_inst s)" for k i
  proof -
    have id: "in_ID j = m" if "(m, j) \<in> set (sv_inst s)" for m j
      using that assms(1) by (auto simp: sup_ok_def inst_ok_def)
    have "j = i" if "(k, j) \<in> set (sv_inst s)" for j
      using map_of_is_SomeI [OF keys that] map_of_is_SomeI [OF keys ki] by simp
    moreover have "k \<in> set dead \<longleftrightarrow> (\<exists>(m, j) \<in> set (sv_inst s). in_ID j = k \<and> \<not> processAlive h t (in_PID j))"
      unfolding d(1) List_def by (auto simp: image_iff)
    moreover have "(\<exists>(m, j) \<in> set (sv_inst s). in_ID j = k \<and> \<not> processAlive h t (in_PID j)) \<longleftrightarrow>
        (\<exists>j. (k, j) \<in> set (sv_inst s) \<and> \<not> processAlive h t (in_PID j))"
      using id by blast
    ultimately show ?thesis using ki by blast
  qed
  then show ?thesis using d by (auto intro!: filter_cong)
qed

theorem reap_dead_exact_witness:
  "\<exists>i s1 t1 s2 t2. Launch exHost None exSpec exSup [] = (Inr i, s1, t1) \<and>
     ReapDead (exHost\<lparr>ho_alive := \<lambda>_ _. False\<rparr>) s1 t1 = ([''sb-1''], s2, t2) \<and> sv_inst s2 = []"
proof -
  let ?h = "exHost\<lparr>ho_alive := \<lambda>_ _. False\<rparr>"
  obtain i s1 t1 where l: "Launch exHost None exSpec exSup [] = (Inr i, s1, t1)" using exLaunch by blast
  obtain d s2 t2 where r: "ReapDead ?h s1 t1 = (d, s2, t2)" by (metis prod_cases3)
  have ok: "sup_ok s1"
    using fresh_launch.launch_sup_ok [OF exSup_ok(1)] l unfolding Launch_launchWith by blast
  obtain a cid where s1: "s1 = exSup\<lparr>sv_inst := sv_inst exSup @ [(''sb-1'', i)], sv_cids := a\<rparr>"
    "inst_wf (sv_cfg exSup) (launchSpec exHost exSpec []) cid i"
    using fresh_launch.launch_Inr [OF exSup_ok(1)] l unfolding Launch_launchWith by (metis exSpec_id)
  have dead: "\<not> processAlive ?h t1 p" for p by (simp add: processAlive_def)
  have "in_ID i = ''sb-1''" "sv_inst s1 = [(''sb-1'', i)]"
    using s1 by (simp_all add: inst_wf_def exSpec_id) (simp add: exSup_def)
  with reap_dead_exact [OF ok _ r] dead l r show ?thesis by (simp add: List_def)
qed

end
