(* ===== verification/Launches.thy ===== *)
theory Launches
  imports Supervisor "HOL-Library.Multiset"
begin

text \<open>
  Launches and terminations that overlap. The supervisor takes its lock twice in a launch,
  once to check and once to insert, and the CID allocator has a lock of its own; between
  these critical sections other goroutines run. The step relation below has one rule per
  critical section (and one for the outcome of the boot), on the shared state and the
  multiset of goroutines under way. It refines \<open>Launch\<close> and \<open>Terminate\<close> of theory
  \<open>Supervisor\<close>: each of them, run alone, is a sequence of these steps.
\<close>

section \<open>The step relation\<close>

datatype goroutine =
    Admitted LaunchSpec
  | Booting LaunchSpec u32
  | Booted LaunchSpec Instance
  | Releasing u32

record shared =
  sh_sup :: Supervisor
  sh_run :: "goroutine multiset"

inductive sup_step :: "shared \<Rightarrow> shared \<Rightarrow> bool" where
  admit: "launchCheck s sp = None \<Longrightarrow>
    sup_step \<lparr>sh_sup = s, sh_run = M\<rparr> \<lparr>sh_sup = s, sh_run = add_mset (Admitted sp) M\<rparr>"
| alloc_ok: "cid_alloc (sv_cids s) = (Inr c, a) \<Longrightarrow>
    sup_step \<lparr>sh_sup = s, sh_run = add_mset (Admitted sp) M\<rparr>
      \<lparr>sh_sup = s\<lparr>sv_cids := a\<rparr>, sh_run = add_mset (Booting sp c) M\<rparr>"
| alloc_fail: "cid_alloc (sv_cids s) = (Inl e, a) \<Longrightarrow>
    sup_step \<lparr>sh_sup = s, sh_run = add_mset (Admitted sp) M\<rparr> \<lparr>sh_sup = s\<lparr>sv_cids := a\<rparr>, sh_run = M\<rparr>"
| boot_ok: "inst_wf (sv_cfg s) sp c i \<Longrightarrow>
    sup_step \<lparr>sh_sup = s, sh_run = add_mset (Booting sp c) M\<rparr> \<lparr>sh_sup = s, sh_run = add_mset (Booted sp i) M\<rparr>"
| boot_fail:
    "sup_step \<lparr>sh_sup = s, sh_run = add_mset (Booting sp c) M\<rparr> \<lparr>sh_sup = s, sh_run = add_mset (Releasing c) M\<rparr>"
| commit:
    "sup_step \<lparr>sh_sup = s, sh_run = add_mset (Booted sp i) M\<rparr>
      \<lparr>sh_sup = s\<lparr>sv_inst := inst_put (ls_ID sp) i (sv_inst s)\<rparr>, sh_run = M\<rparr>"
| remove: "map_of (sv_inst s) k = Some i \<Longrightarrow>
    sup_step \<lparr>sh_sup = s, sh_run = M\<rparr>
      \<lparr>sh_sup = s\<lparr>sv_inst := inst_delete k (sv_inst s)\<rparr>, sh_run = add_mset (Releasing (in_CID i)) M\<rparr>"
| release:
    "sup_step \<lparr>sh_sup = s, sh_run = add_mset (Releasing c) M\<rparr>
      \<lparr>sh_sup = s\<lparr>sv_cids := cid_free c (sv_cids s)\<rparr>, sh_run = M\<rparr>"

inductive_cases sup_stepE: "sup_step x y"

definition idle :: "Supervisor \<Rightarrow> shared" where
  "idle s = \<lparr>sh_sup = s, sh_run = {#}\<rparr>"

inductive reachable :: "shared \<Rightarrow> shared \<Rightarrow> bool" where
  start: "reachable x x"
| more: "reachable x y \<Longrightarrow> sup_step y z \<Longrightarrow> reachable x z"

lemma reachable_trans: "reachable y z \<Longrightarrow> reachable x y \<Longrightarrow> reachable x z"
  by (induction rule: reachable.induct) (auto intro: reachable.more)

section \<open>Who holds a CID\<close>

fun held_by :: "goroutine \<Rightarrow> u32 multiset" where
  "held_by (Admitted sp) = {#}"
| "held_by (Booting sp c) = {#c#}"
| "held_by (Booted sp i) = {#in_CID i#}"
| "held_by (Releasing c) = {#c#}"

definition inst_cids :: "(string \<times> Instance) list \<Rightarrow> u32 multiset" where
  "inst_cids m = mset (map (\<lambda>(k, i). in_CID i) m)"

definition held :: "shared \<Rightarrow> u32 multiset" where
  "held x = inst_cids (sv_inst (sh_sup x)) + (\<Sum>g \<in># sh_run x. held_by g)"

definition cids_safe :: "shared \<Rightarrow> bool" where
  "cids_safe x \<longleftrightarrow> distinct (map fst (sv_inst (sh_sup x))) \<and> cid_ok (sv_cids (sh_sup x)) \<and>
     (\<forall>c. count (held x) c \<le> 1) \<and> set_mset (held x) \<subseteq> ca_used (sv_cids (sh_sup x))"

lemma inst_replace_absent:
  "k \<notin> fst ` set m \<Longrightarrow> map (\<lambda>(k', j). if k' = k then (k, i) else (k', j)) m = m"
  by (induction m) auto

lemma inst_cids_simps [simp]:
  "inst_cids [] = {#}" "inst_cids ((k, i) # m) = add_mset (in_CID i) (inst_cids m)"
  "inst_cids (m @ n) = inst_cids m + inst_cids n"
  by (simp_all add: inst_cids_def)

lemma inst_delete_Cons: "inst_delete k ((k', i) # m) = (if k' = k then inst_delete k m else (k', i) # inst_delete k m)"
  by (simp add: inst_delete_def)

lemma inst_cids_delete:
  "distinct (map fst m) \<Longrightarrow> map_of m k = Some i \<Longrightarrow> inst_cids m = add_mset (in_CID i) (inst_cids (inst_delete k m))"
proof (induction m)
  case (Cons x m)
  obtain k' j where x: "x = (k', j)" by fastforce
  show ?case
  proof (cases "k' = k")
    case True
    with Cons.prems(1) x have "inst_delete k m = m" by (intro inst_delete_absent) (auto simp: map_of_eq_None_iff)
    with True Cons.prems(2) x show ?thesis by (simp add: inst_delete_Cons)
  next
    case False
    with Cons x show ?thesis by (simp add: inst_delete_Cons)
  qed
qed simp

lemma inst_cids_replace:
  "distinct (map fst m) \<Longrightarrow> map_of m k = Some j \<Longrightarrow>
   inst_cids (map (\<lambda>(k', j). if k' = k then (k, i) else (k', j)) m) = add_mset (in_CID i) (inst_cids (inst_delete k m))"
proof (induction m)
  case (Cons x m)
  obtain k' j' where x: "x = (k', j')" by fastforce
  show ?case
  proof (cases "k' = k")
    case True
    with Cons.prems(1) x have "inst_delete k m = m" by (intro inst_delete_absent) (auto simp: map_of_eq_None_iff)
    moreover have "map (\<lambda>(k', j). if k' = k then (k, i) else (k', j)) m = m"
      using Cons.prems(1) x True by (intro inst_replace_absent) auto
    ultimately show ?thesis using True x by (simp add: inst_delete_Cons)
  next
    case False
    with Cons x show ?thesis by (simp add: inst_delete_Cons)
  qed
qed simp

lemma inst_cids_put: "distinct (map fst m) \<Longrightarrow> inst_cids (inst_put k i m) \<subseteq># add_mset (in_CID i) (inst_cids m)"
proof (cases "map_of m k")
  case None
  then show ?thesis by (simp add: inst_put_new)
next
  case (Some j)
  assume d: "distinct (map fst m)"
  have "inst_cids (inst_delete k m) \<subseteq># inst_cids m" using inst_cids_delete [OF d Some] by simp
  then show ?thesis using inst_cids_replace [OF d Some] Some by (simp add: inst_put_def)
qed

lemma cids_safe_step:
  assumes "sup_step x y" and "cids_safe x"
  shows "cids_safe y"
  using assms
proof (induction rule: sup_step.induct)
  case (alloc_ok s c a sp M)
  have "cid_ok (sv_cids s)" using alloc_ok by (simp add: cids_safe_def)
  from cid_pool.alloc_Inr [OF this alloc_ok(1)] alloc_ok(2) show ?case
    by (auto simp: cids_safe_def held_def count_eq_zero_iff)
next
  case (alloc_fail s e a sp M)
  have "cid_ok (sv_cids s)" using alloc_fail by (simp add: cids_safe_def)
  from cid_pool.alloc_Inl [OF this alloc_fail(1)] alloc_fail(2) show ?case
    by (auto simp: cids_safe_def held_def)
next
  case (boot_ok s sp c i M)
  then show ?case by (auto simp: cids_safe_def held_def inst_wf_def)
next
  case (commit s sp i M)
  have d: "distinct (map fst (sv_inst s))" using commit by (simp add: cids_safe_def)
  then have "held \<lparr>sh_sup = s\<lparr>sv_inst := inst_put (ls_ID sp) i (sv_inst s)\<rparr>, sh_run = M\<rparr> \<subseteq>#
      held \<lparr>sh_sup = s, sh_run = add_mset (Booted sp i) M\<rparr>"
    using inst_cids_put [OF d, of "ls_ID sp" i] by (simp add: held_def)
  with commit keys_inst_put [OF d] show ?case
    unfolding cids_safe_def by (auto dest: mset_subset_eqD) (meson le_trans mset_subset_eq_count)
next
  case (remove s k i M)
  have d: "distinct (map fst (sv_inst s))" using remove by (simp add: cids_safe_def)
  from inst_cids_delete [OF d remove(1)] remove(2) keys_inst_delete [OF d] show ?case
    by (simp add: cids_safe_def held_def)
next
  case (release s c M)
  have "cid_ok (sv_cids s)" using release by (simp add: cids_safe_def)
  note f = cid_pool.free_law [OF this, of c]
  let ?y = "\<lparr>sh_sup = s\<lparr>sv_cids := cid_free c (sv_cids s)\<rparr>, sh_run = M\<rparr>"
  have h: "held \<lparr>sh_sup = s, sh_run = add_mset (Releasing c) M\<rparr> = add_mset c (held ?y)" by (simp add: held_def)
  have le: "\<forall>d. count (add_mset c (held ?y)) d \<le> 1" using release unfolding cids_safe_def h by blast
  then have "c \<notin># held ?y" by (metis count_add_mset count_greater_zero_iff not_less_eq_eq One_nat_def Suc_le_eq)
  moreover have "count (held ?y) d \<le> 1" for d using spec [OF le, of d] by (simp split: if_splits)
  moreover have "set_mset (held ?y) \<subseteq> ca_used (sv_cids s)" using release h by (simp add: cids_safe_def)
  ultimately show ?case using release f by (auto simp: cids_safe_def)
qed (auto simp: cids_safe_def held_def)

lemma cids_safe_reachable: "reachable x y \<Longrightarrow> cids_safe x \<Longrightarrow> cids_safe y"
  by (induction rule: reachable.induct) (auto intro: cids_safe_step)

lemma count_le_1_distinct: "\<forall>c. count (mset xs) c \<le> 1 \<Longrightarrow> distinct xs"
proof (induction xs)
  case (Cons x xs)
  have "count (mset xs) c \<le> 1" for c
    by (rule le_trans [OF _ spec [OF Cons.prems, of c]]) simp
  moreover have "x \<notin># mset xs" using spec [OF Cons.prems, of x] by (simp add: not_in_iff)
  ultimately show ?case using Cons.IH by simp
qed simp

lemma sup_ok_safe: "sup_ok s \<Longrightarrow> cids_safe (idle s)"
  by (auto simp: sup_ok_def cids_safe_def idle_def held_def inst_cids_def distinct_count_atmost_1 count_mset_0_iff
      split: if_splits)

section \<open>The sequential operations are runs\<close>

lemma Launch_run:
  assumes "Launch h ctxErr sp s t = (r, s', t')"
  shows "reachable (idle s) (idle s')"
proof -
  let ?sp = "launchSpec h sp t"
  show ?thesis
  proof (cases "launchCheck s ?sp")
    case (Some e)
    then show ?thesis using assms by (simp add: Launch_def Let_def reachable.start)
  next
    case None
    then have adm: "reachable (idle s) \<lparr>sh_sup = s, sh_run = {#Admitted ?sp#}\<rparr>"
      unfolding idle_def by (intro reachable.more [OF reachable.start] sup_step.admit)
    obtain q a where al: "cid_alloc (sv_cids s) = (q, a)" by fastforce
    show ?thesis
    proof (cases q)
      case (Inl e)
      with al have "sup_step \<lparr>sh_sup = s, sh_run = {#Admitted ?sp#}\<rparr> \<lparr>sh_sup = s\<lparr>sv_cids := a\<rparr>, sh_run = {#}\<rparr>"
        by (intro sup_step.alloc_fail) simp
      then show ?thesis using reachable.more [OF adm] assms None al Inl by (simp add: Launch_def Let_def idle_def)
    next
      case (Inr c)
      let ?s1 = "s\<lparr>sv_cids := a\<rparr>"
      have boot: "reachable (idle s) \<lparr>sh_sup = ?s1, sh_run = {#Booting ?sp c#}\<rparr>"
        using al Inr by (intro reachable.more [OF adm] sup_step.alloc_ok) simp
      obtain p t1 where run: "launchHost h (sv_cfg s) ctxErr ?sp c t = (p, t1)" by fastforce
      show ?thesis
      proof (cases p)
        case (Inl e)
        have "reachable (idle s) \<lparr>sh_sup = ?s1, sh_run = {#Releasing c#}\<rparr>"
          by (rule reachable.more [OF boot sup_step.boot_fail])
        then have "reachable (idle s) \<lparr>sh_sup = ?s1\<lparr>sv_cids := cid_free c (sv_cids ?s1)\<rparr>, sh_run = {#}\<rparr>"
          by (rule reachable.more [OF _ sup_step.release])
        then show ?thesis using assms None al Inr run Inl by (simp add: Launch_def Let_def idle_def)
      next
        case (Inr i)
        then have "inst_wf (sv_cfg ?s1) ?sp c i" using fresh_launch.run_wf run by simp
        then have "reachable (idle s) \<lparr>sh_sup = ?s1, sh_run = {#Booted ?sp i#}\<rparr>"
          by (rule reachable.more [OF boot sup_step.boot_ok])
        then have "reachable (idle s) \<lparr>sh_sup = ?s1\<lparr>sv_inst := inst_put (ls_ID ?sp) i (sv_inst ?s1)\<rparr>, sh_run = {#}\<rparr>"
          by (rule reachable.more [OF _ sup_step.commit])
        moreover have "s' = ?s1\<lparr>sv_inst := inst_put (ls_ID ?sp) i (sv_inst ?s1)\<rparr>"
          using assms None al \<open>q = Inr c\<close> run Inr by (cases s) (auto simp: Launch_def Let_def)
        ultimately show ?thesis by (simp add: idle_def)
      qed
    qed
  qed
qed

lemma Terminate_run:
  assumes "Terminate h sid s t = (r, s', t')"
  shows "reachable (idle s) (idle s')"
proof (cases "map_of (sv_inst s) sid")
  case None
  then show ?thesis using assms by (simp add: Terminate_def reachable.start)
next
  case (Some i)
  have "reachable (idle s) \<lparr>sh_sup = s\<lparr>sv_inst := inst_delete sid (sv_inst s)\<rparr>, sh_run = {#Releasing (in_CID i)#}\<rparr>"
    unfolding idle_def by (intro reachable.more [OF reachable.start] sup_step.remove Some)
  from reachable.more [OF this sup_step.release] show ?thesis
    using assms Some by (simp add: Terminate_def idle_def)
qed

section \<open>Properties\<close>


text \<open>
  CIDs are never shared, however launches and terminations interleave. From an idle supervisor
  that satisfies its invariant, in every state that can be reached no CID is held twice: not by two
  tracked sandboxes, nor by a sandbox and a launch or termination under way; every CID held is
  marked as used; and no id is filed twice.
\<close>

theorem concurrent_cids_distinct:
  assumes "sup_ok s" and "reachable (idle s) x"
  shows "(\<forall>c. count (held x) c \<le> 1) \<and> set_mset (held x) \<subseteq> ca_used (sv_cids (sh_sup x)) \<and>
    distinct (map fst (sv_inst (sh_sup x))) \<and> distinct (map (\<lambda>(k, i). in_CID i) (sv_inst (sh_sup x)))"
proof -
  have safe: "cids_safe x" using cids_safe_reachable assms sup_ok_safe by blast
  have "count (inst_cids (sv_inst (sh_sup x))) c \<le> 1" for c
    using safe by (metis cids_safe_def count_union held_def le_add1 le_trans)
  then have "distinct (map (\<lambda>(k, i). in_CID i) (sv_inst (sh_sup x)))"
    unfolding inst_cids_def by (intro count_le_1_distinct) blast
  with safe show ?thesis by (simp add: cids_safe_def)
qed

theorem concurrent_cids_distinct_witness:
  "distinct (map fst (sv_inst (sh_sup (idle exSup)))) \<and> count (held (idle exSup)) 3 \<le> 1"
  using concurrent_cids_distinct [OF exSup_ok(1) reachable.start] by blast

section \<open>The admission race\<close>

definition some_instance :: "Config \<Rightarrow> LaunchSpec \<Rightarrow> u32 \<Rightarrow> Instance" where
  "some_instance cfg sp c = \<lparr>in_ID = ls_ID sp, in_CID = c, in_PID = 1,
     in_ChrootDir = bp_ChrootRoot (bootPathsOf cfg (ls_ID sp)), in_SocketPath = bp_HostSocket (bootPathsOf cfg (ls_ID sp)),
     in_VsockUDSPath = bp_HostVsock (bootPathsOf cfg (ls_ID sp)), in_CgroupPath = cgroupLeaf cfg (ls_ID sp),
     in_CreatedAt = [], in_Spec = sp, in_machine = True, in_cancel = True\<rparr>"

lemma some_instance_wf: "inst_wf cfg sp c (some_instance cfg sp c)"
  by (simp add: inst_wf_def some_instance_def)

lemma two_launches:
  assumes "launchCheck s A = None" "launchCheck s B = None"
    and "cid_alloc (sv_cids s) = (Inr c, a)" "cid_alloc a = (Inr d, b)"
  shows "reachable (idle s) (idle (s\<lparr>sv_cids := b,
    sv_inst := inst_put (ls_ID B) (some_instance (sv_cfg s) B d)
      (inst_put (ls_ID A) (some_instance (sv_cfg s) A c) (sv_inst s))\<rparr>))"
proof -
  let ?s1 = "s\<lparr>sv_cids := a\<rparr>" and ?s2 = "s\<lparr>sv_cids := b\<rparr>"
  let ?i = "some_instance (sv_cfg s) A c" and ?j = "some_instance (sv_cfg s) B d"
  let ?s3 = "?s2\<lparr>sv_inst := inst_put (ls_ID A) ?i (sv_inst ?s2)\<rparr>"
  have "reachable (idle s) \<lparr>sh_sup = s, sh_run = {#Admitted A#}\<rparr>"
    unfolding idle_def by (intro reachable.more [OF reachable.start] sup_step.admit assms(1))
  from reachable.more [OF this sup_step.admit [OF assms(2)]]
  have "reachable (idle s) \<lparr>sh_sup = s, sh_run = add_mset (Admitted A) {#Admitted B#}\<rparr>"
    by (simp add: add_mset_commute)
  from reachable.more [OF this sup_step.alloc_ok [OF assms(3)]]
  have "reachable (idle s) \<lparr>sh_sup = ?s1, sh_run = add_mset (Admitted B) {#Booting A c#}\<rparr>"
    by (simp add: add_mset_commute)
  from reachable.more [OF this sup_step.alloc_ok [where s = ?s1 and c = d and a = b]]
  have "reachable (idle s) \<lparr>sh_sup = ?s2, sh_run = add_mset (Booting B d) {#Booting A c#}\<rparr>"
    using assms(4) by simp
  from reachable.more [OF this sup_step.boot_ok [of ?s2 B d ?j]]
  have "reachable (idle s) \<lparr>sh_sup = ?s2, sh_run = add_mset (Booting A c) {#Booted B ?j#}\<rparr>"
    by (simp add: some_instance_wf add_mset_commute)
  from reachable.more [OF this sup_step.boot_ok [of ?s2 A c ?i]]
  have "reachable (idle s) \<lparr>sh_sup = ?s2, sh_run = add_mset (Booted A ?i) {#Booted B ?j#}\<rparr>"
    by (simp add: some_instance_wf)
  from reachable.more [OF reachable.more [OF this sup_step.commit] sup_step.commit]
  show ?thesis by (simp add: idle_def)
qed

text \<open>
  C22: Admission control does not survive overlapping launches: the check and the insertion are two
  critical sections. Two launches that each pass the check on the same state can both be inserted.
  With different ids the number of sandboxes grows by two, so it can pass \<open>MaxConcurrent\<close>; with
  the same id the second replaces the first, whose CID then stays in use although nobody holds it.
\<close>

theorem admission_race:
  assumes "sup_ok s" and "launchCheck s A = None" and "launchCheck s B = None"
    and "{c, d} \<subseteq> {ca_min (sv_cids s)..ca_max (sv_cids s)} - ca_used (sv_cids s)" and "c \<noteq> d"
  shows "\<exists>x. reachable (idle s) x \<and> sh_run x = {#} \<and>
    (if ls_ID A \<noteq> ls_ID B
     then Count (sh_sup x) = Count s + 2
     else Count (sh_sup x) = Count s + 1 \<and> (\<exists>e \<in> ca_used (sv_cids (sh_sup x)). e \<notin># held x))"
proof -
  have ok: "cid_ok (sv_cids s)" using assms(1) by (simp add: sup_ok_def)
  obtain e a where a: "cid_alloc (sv_cids s) = (Inr e, a)"
    using cid_pool.alloc_succeeds [OF ok, of c] assms(4) by auto
  note a' = cid_pool.alloc_Inr [OF ok a]
  obtain f b where b: "cid_alloc a = (Inr f, b)"
    using cid_pool.alloc_succeeds [of a c] cid_pool.alloc_succeeds [of a d] a' assms(4,5) by (metis DiffD1 DiffD2 insertE insert_subset)
  have b': "cid_ok b" "f \<notin> ca_used a" "ca_used b = insert f (ca_used a)" using cid_pool.alloc_Inr [OF _ b] a' by auto
  let ?i = "some_instance (sv_cfg s) A e" and ?j = "some_instance (sv_cfg s) B f"
  let ?s' = "s\<lparr>sv_cids := b, sv_inst := inst_put (ls_ID B) ?j (inst_put (ls_ID A) ?i (sv_inst s))\<rparr>"
  have run: "reachable (idle s) (idle ?s')" by (rule two_launches [OF assms(2,3) a b])
  have new: "map_of (sv_inst s) (ls_ID A) = None" "map_of (sv_inst s) (ls_ID B) = None"
    using assms(2,3) by (auto simp: launchCheck_def split: if_splits)
  show ?thesis
  proof (cases "ls_ID A = ls_ID B")
    case False
    then have "sv_inst ?s' = sv_inst s @ [(ls_ID A, ?i), (ls_ID B, ?j)]"
      using new by (simp add: inst_put_def)
    then show ?thesis using run False by (intro exI [of _ "idle ?s'"]) (simp add: idle_def Count_def)
  next
    case True
    have "map (\<lambda>(k', j). if k' = ls_ID B then (ls_ID B, ?j) else (k', j)) (sv_inst s) = sv_inst s"
      using new by (intro inst_replace_absent) (simp add: map_of_eq_None_iff)
    then have inst: "sv_inst ?s' = sv_inst s @ [(ls_ID B, ?j)]" using True new by (simp add: inst_put_def)
    have "e \<notin># inst_cids (sv_inst ?s')"
      unfolding inst using a' b'(2) assms(1) by (auto simp: inst_cids_def some_instance_def sup_ok_def)
    then have "e \<in> ca_used (sv_cids (sh_sup (idle ?s'))) \<and> e \<notin># held (idle ?s')"
      using a' b'(3) by (simp add: idle_def held_def)
    then show ?thesis using run True inst by (intro exI [of _ "idle ?s'"]) (auto simp: idle_def Count_def)
  qed
qed

definition exTight :: Supervisor where
  "exTight = exSup\<lparr>sv_cfg := (sv_cfg exSup)\<lparr>oc_MaxConcurrent := 1\<rparr>\<rparr>"

theorem admission_race_witness:
  "\<exists>x. reachable (idle exTight) x \<and> sh_run x = {#} \<and> oc_MaxConcurrent (sv_cfg exTight) = 1 \<and> Count (sh_sup x) = 2"
proof -
  let ?B = "exSpec\<lparr>ls_ID := ''sb-2''\<rparr>"
  have ok: "sup_ok exTight" using exSup_ok(1) by (simp add: sup_ok_def exTight_def exSup_def)
  have chk: "launchCheck exTight exSpec = None" "launchCheck exTight ?B = None"
    by (simp_all add: launchCheck_def exTight_def exSup_def exSpec_def admitLocked_def
        configDefaults_def exCfg_def usedMemMiB_def wrap64_id int64_range_def)
  have "(3::u32) \<in> {3..9}" "(4::u32) \<in> {3..9}" "(3::u32) \<noteq> 4" by simp_all
  then have "{3, 4} \<subseteq> {ca_min (sv_cids exTight)..ca_max (sv_cids exTight)} - ca_used (sv_cids exTight)"
    by (simp add: exTight_def exSup_def newCIDAllocator_def)
  from admission_race [OF ok chk this] show ?thesis
    by (simp add: exSpec_def) (simp add: exTight_def exSup_def Count_def)
qed

end
