(* ===== verification/Snapshots.thy ===== *)
theory Snapshots
  imports Supervisor
begin

text \<open>
  Snapshots (\<open>internal/orchestrator/snapshot.go\<close>): the engine that pauses a microVM and
  captures its memory, device state and disk, stopping a sandbox with a snapshot, the
  overlay helpers, and restoring a sandbox from a snapshot. Restoring is another instance of
  the launcher interface of \<open>Supervisor\<close>, so the invariant, the host limits and
  the rule that no VM runs without its limits carry over to it.
\<close>

section \<open>Types\<close>

record SnapshotPaths =
  sf_MemFile :: string
  sf_StateFile :: string
  sf_DiskFile :: string

record Snapshot =
  ss_ID :: string
  ss_SandboxID :: string
  ss_Paths :: SnapshotPaths
  ss_CreatedAt :: time
  ss_GuestMemMiB :: int
  ss_GuestVCPUs :: int

record SnapshotEngine =
  se_snapshotDir :: string

record OverlayMount =
  om_MergedDir :: string
  om_UpperDir :: string
  om_WorkDir :: string
  om_LowerDir :: string

record RestoredIdentity =
  ri_CID :: u32
  ri_VsockUDSPath :: string
  ri_EntropyBytes :: "u8 list"

datatype snap_error =
    SnapMkdir string
  | SnapPause string
  | SnapCreate string
  | SnapCreateResume string string
  | SnapResume string
  | SnapDisk string
  | SnapNotFound string
  | OverlayMkdir string string
  | OverlayMountFailed string
  | OverlayUmount string string

section \<open>The engine\<close>

definition NewSnapshotEngine :: "host \<Rightarrow> string \<Rightarrow> trace \<Rightarrow> (snap_error, SnapshotEngine) result \<times> trace" where
  "NewSnapshotEngine h dir t = (case ask h (MkdirAll dir) t of
      (Some e, t1) \<Rightarrow> (Inl (SnapMkdir e), t1)
    | (None, t1) \<Rightarrow> (Inr \<lparr>se_snapshotDir = dir\<rparr>, t1))"

definition snapDir :: "host \<Rightarrow> SnapshotEngine \<Rightarrow> trace \<Rightarrow> string" where
  "snapDir h eng t = Join [se_snapshotDir eng, ''snap-'' @ ho_rand h t]"

definition Create :: "host \<Rightarrow> SnapshotEngine \<Rightarrow> Instance \<Rightarrow> trace \<Rightarrow> (snap_error, Snapshot) result \<times> trace" where
  "Create h eng i t =
     (let dir = snapDir h eng t; memFile = Join [dir, ''mem.img'']; stateFile = Join [dir, ''state.img''] in
      case ask h (MkdirAll dir) t of
        (Some e, t1) \<Rightarrow> (Inl (SnapMkdir e), t1)
      | (None, t1) \<Rightarrow> (case ask h (PauseVM (in_ID i)) t1 of
          (Some e, t2) \<Rightarrow> (Inl (SnapPause e), t2)
        | (None, t2) \<Rightarrow> (case ask h (CreateSnapshot (in_ID i) memFile stateFile) t2 of
            (createErr, t3) \<Rightarrow> (case ask h (ResumeVM (in_ID i)) t3 of
              (Some re, t4) \<Rightarrow>
                (Inl (case createErr of Some ce \<Rightarrow> SnapCreateResume ce re | None \<Rightarrow> SnapResume re), t4)
            | (None, t4) \<Rightarrow> (case createErr of
                Some ce \<Rightarrow> (Inl (SnapCreate ce), ask_all h [RemoveAll dir] t4)
              | None \<Rightarrow> (Inr \<lparr>ss_ID = ''snap-'' @ ho_rand h t, ss_SandboxID = in_ID i,
                    ss_Paths = \<lparr>sf_MemFile = memFile, sf_StateFile = stateFile, sf_DiskFile = []\<rparr>,
                    ss_CreatedAt = ho_now h t4, ss_GuestMemMiB = ls_MemMiB (in_Spec i),
                    ss_GuestVCPUs = ls_VCPUs (in_Spec i)\<rparr>, t4))))))"

definition Delete :: "host \<Rightarrow> Snapshot \<Rightarrow> trace \<Rightarrow> string option \<times> trace" where
  "Delete h snap t = ask h (RemoveAll (Dir (sf_MemFile (ss_Paths snap)))) t"

definition CreatePausedWithDisk ::
  "host \<Rightarrow> SnapshotEngine \<Rightarrow> Instance \<Rightarrow> string \<Rightarrow> trace \<Rightarrow> (snap_error, Snapshot) result \<times> trace" where
  "CreatePausedWithDisk h eng i diskPath t =
     (let dir = snapDir h eng t; memFile = Join [dir, ''mem.img'']; stateFile = Join [dir, ''state.img''];
          diskFile = Join [dir, ''disk.img'']; drop_dir = ask_all h [RemoveAll dir] in
      case ask h (MkdirAll dir) t of
        (Some e, t1) \<Rightarrow> (Inl (SnapMkdir e), t1)
      | (None, t1) \<Rightarrow> (case ask h (PauseVM (in_ID i)) t1 of
          (Some e, t2) \<Rightarrow> (Inl (SnapPause e), drop_dir t2)
        | (None, t2) \<Rightarrow> (case ask h (CreateSnapshot (in_ID i) memFile stateFile) t2 of
            (Some e, t3) \<Rightarrow> (Inl (SnapCreate e), drop_dir t3)
          | (None, t3) \<Rightarrow> (case copyFile h diskPath diskFile t3 of
              (Some e, t4) \<Rightarrow> (Inl (SnapDisk e), drop_dir t4)
            | (None, t4) \<Rightarrow> (Inr \<lparr>ss_ID = ''snap-'' @ ho_rand h t, ss_SandboxID = in_ID i,
                ss_Paths = \<lparr>sf_MemFile = memFile, sf_StateFile = stateFile, sf_DiskFile = diskFile\<rparr>,
                ss_CreatedAt = ho_now h t4, ss_GuestMemMiB = ls_MemMiB (in_Spec i),
                ss_GuestVCPUs = ls_VCPUs (in_Spec i)\<rparr>, t4)))))"

text \<open>The error of \<open>Terminate\<close> is only logged.\<close>

definition StopWithSnapshot ::
  "host \<Rightarrow> SnapshotEngine \<Rightarrow> string \<Rightarrow> Supervisor \<Rightarrow> trace \<Rightarrow> (snap_error, Snapshot) result \<times> Supervisor \<times> trace" where
  "StopWithSnapshot h eng sid s t = (case map_of (sv_inst s) sid of
      None \<Rightarrow> (Inl (SnapNotFound sid), s, t)
    | Some i \<Rightarrow> (case CreatePausedWithDisk h eng i (Join [oc_StateDir (sv_cfg s), sid, ''rootfs.ext4'']) t of
        (Inl e, t1) \<Rightarrow> (Inl e, s, t1)
      | (Inr snap, t1) \<Rightarrow> (case Terminate h sid s t1 of (_, s2, t2) \<Rightarrow> (Inr snap, s2, t2))))"

section \<open>Overlay file systems\<close>

definition MountOverlay :: "host \<Rightarrow> string \<Rightarrow> string \<Rightarrow> string \<Rightarrow> trace \<Rightarrow> (snap_error, OverlayMount) result \<times> trace" where
  "MountOverlay h stateDir sid goldenRootfs t =
     (let vmDir = Join [stateDir, sid]; merged = Join [vmDir, ''rootfs'']; upper = Join [vmDir, ''overlay-upper''];
          work = Join [vmDir, ''overlay-work''] in
      case ask_seq h (map (\<lambda>d. (d, MkdirAll d)) [merged, upper, work]) t of
        (Some (d, e), t1) \<Rightarrow> (Inl (OverlayMkdir d e), t1)
      | (None, t1) \<Rightarrow> (case ask h (Mount ''overlay'' merged ''overlay''
            (''lowerdir='' @ goldenRootfs @ '',upperdir='' @ upper @ '',workdir='' @ work)) t1 of
          (Some e, t2) \<Rightarrow> (Inl (OverlayMountFailed e), t2)
        | (None, t2) \<Rightarrow> (Inr \<lparr>om_MergedDir = merged, om_UpperDir = upper, om_WorkDir = work, om_LowerDir = goldenRootfs\<rparr>, t2)))"

definition UnmountOverlay :: "host \<Rightarrow> OverlayMount \<Rightarrow> trace \<Rightarrow> snap_error option \<times> trace" where
  "UnmountOverlay h m t = (case ask h (Unmount (om_MergedDir m)) t of
      (Some e, t1) \<Rightarrow> (Some (OverlayUmount (om_MergedDir m) e), t1)
    | (None, t1) \<Rightarrow>
        (None, ask_all h [RemoveAll (om_UpperDir m), RemoveAll (om_WorkDir m), Remove (om_MergedDir m)] t1))"

section \<open>Restoring\<close>

definition newRestoredIdentity :: "host \<Rightarrow> string \<Rightarrow> u32 \<Rightarrow> trace \<Rightarrow> (string, RestoredIdentity) result" where
  "newRestoredIdentity h vsockPath cid t = (case ho_entropy h t of
      Inl e \<Rightarrow> Inl e
    | Inr buf \<Rightarrow> Inr \<lparr>ri_CID = cid, ri_VsockUDSPath = vsockPath, ri_EntropyBytes = buf\<rparr>)"

definition restoreConfig :: "Config \<Rightarrow> string \<Rightarrow> u32 \<Rightarrow> Snapshot \<Rightarrow> FCConfig" where
  "restoreConfig cfg sid cid snap =
     (let stateDir = Join [oc_StateDir cfg, sid] in
      \<lparr>fc_SocketPath = (if oc_UseJailer cfg then ''run/firecracker.socket''
                        else Join [stateDir, ''firecracker.socket'']),
       fc_KernelImagePath = [], fc_KernelArgs = [],
       fc_Drives = [\<lparr>dr_DriveID = ''rootfs'', dr_PathOnHost = Join [stateDir, ''rootfs.ext4''],
                     dr_IsRootDevice = True, dr_IsReadOnly = False\<rparr>],
       fc_VcpuCount = ss_GuestVCPUs snap, fc_MemSizeMib = ss_GuestMemMiB snap,
       fc_VsockDevices = [\<lparr>vd_ID = ''vsock0'', vd_CID = cid,
                           vd_Path = (if oc_UseJailer cfg then ''v.sock'' else Join [stateDir, ''v.sock''])\<rparr>],
       fc_NetworkInterfaces = [], fc_VMID = sid,
       fc_Snapshot = Some \<lparr>sn_MemFilePath = sf_MemFile (ss_Paths snap), sn_SnapshotPath = sf_StateFile (ss_Paths snap),
                           sn_EnableDiffSnapshots = False, sn_ResumeVM = True\<rparr>,
       fc_JailerCfg = (if oc_UseJailer cfg then Some (buildJailerConfig cfg sid) else None)\<rparr>)"

text \<open>The retained disk, copied into the state directory of the restored sandbox.\<close>

definition restoreDisk :: "host \<Rightarrow> Config \<Rightarrow> string \<Rightarrow> Snapshot \<Rightarrow> trace \<Rightarrow> sup_error option \<times> trace" where
  "restoreDisk h cfg sid snap t =
     (let stateDir = Join [oc_StateDir cfg, sid]; rootfsCopy = Join [stateDir, ''rootfs.ext4''] in
      case ask h (MkdirAll stateDir) t of
        (Some e, t1) \<Rightarrow> (Some (RestoreDisk ''mkdir state'' e), t1)
      | (None, t1) \<Rightarrow> (case copyFile h (sf_DiskFile (ss_Paths snap)) rootfsCopy t1 of
          (Some e, t2) \<Rightarrow> (Some (RestoreDisk ''copy disk'' e), ask_all h [RemoveAll stateDir] t2)
        | (None, t2) \<Rightarrow> (case ask_seq h
              [(''chmod disk'', Chmod rootfsCopy), (''chown disk'', Chown rootfsCopy 0 (oc_JailerGID cfg))] t2 of
            (Some (l, e), t3) \<Rightarrow> (Some (RestoreDisk l e), ask_all h [RemoveAll stateDir] t3)
          | (None, t3) \<Rightarrow> (None, t3))))"

text \<open>The middle of \<open>LoadSnapshot\<close>, between the two critical sections.\<close>

definition restoreHost ::
  "host \<Rightarrow> Config \<Rightarrow> Snapshot \<Rightarrow> LaunchSpec \<Rightarrow> u32 \<Rightarrow> trace \<Rightarrow> (sup_error, Instance) result \<times> trace" where
  "restoreHost h cfg snap sp cid t =
     (let sid = ls_ID sp; paths = bootPathsOf cfg sid in
      case restoreDisk h cfg sid snap t of
        (Some e, t1) \<Rightarrow> (Inl e, t1)
      | (None, t1) \<Rightarrow> (case prepareCgroup h cfg sid sp t1 of
          (Inl e, t2) \<Rightarrow> (Inl (Restoring e), ask_all h [RemoveAll (Join [oc_StateDir cfg, sid])] t2)
        | (Inr leaf, t2) \<Rightarrow> (case bootMachine h cfg sid None (restoreConfig cfg sid cid snap) paths leaf t2 of
            (Inl e, t3) \<Rightarrow> (Inl (Restoring e), t3)
          | (Inr p, t3) \<Rightarrow> (case newRestoredIdentity h (bp_HostVsock paths) cid t3 of
              Inl e \<Rightarrow> (Inl (Restoring (Entropy e)),
                        ask_all h (cleanupOps cfg sid leaf paths) (ask_all h [StopVMM sid] t3))
            | Inr identity \<Rightarrow>
                (Inr \<lparr>in_ID = sid, in_CID = ri_CID identity, in_PID = p, in_ChrootDir = bp_ChrootRoot paths,
                      in_SocketPath = bp_HostSocket paths, in_VsockUDSPath = ri_VsockUDSPath identity,
                      in_CgroupPath = leaf, in_CreatedAt = ho_now h t3, in_Spec = sp,
                      in_machine = True, in_cancel = True\<rparr>, t3)))))"

text \<open>\<open>LoadSnapshot\<close>; the request context it is given is not used by the code.\<close>

definition LoadSnapshot ::
  "host \<Rightarrow> Snapshot \<Rightarrow> LaunchSpec \<Rightarrow> Supervisor \<Rightarrow> trace \<Rightarrow> (sup_error, Instance) result \<times> Supervisor \<times> trace" where
  "LoadSnapshot h snap sp0 s t =
     (let sp = launchSpec h sp0 t in
      case launchCheck s sp of
        Some e \<Rightarrow> (Inl e, s, t)
      | None \<Rightarrow> (case cid_alloc (sv_cids s) of
          (Inl e, a) \<Rightarrow> (Inl (CIDPoolExhausted e), s\<lparr>sv_cids := a\<rparr>, t)
        | (Inr cid, a) \<Rightarrow> (case restoreHost h (sv_cfg s) snap sp cid t of
            (Inl e, t1) \<Rightarrow> (Inl e, s\<lparr>sv_cids := cid_free cid a\<rparr>, t1)
          | (Inr i, t1) \<Rightarrow>
              (Inr i, s\<lparr>sv_inst := inst_put (ls_ID sp) i (sv_inst s), sv_cids := a\<rparr>,
               if sv_recorder s then ask_all h [SaveRecord (toRecord i)] t1 else t1))))"

lemma LoadSnapshot_launchWith:
  "LoadSnapshot h snap sp0 s t = launchWith (restoreHost h (sv_cfg s) snap) h (launchSpec h sp0 t) s t"
  by (simp add: LoadSnapshot_def launchWith_def Let_def)

section \<open>Restoring is a launcher\<close>

definition restoreOps :: "Config \<Rightarrow> string \<Rightarrow> Snapshot \<Rightarrow> host_op set" where
  "restoreOps cfg sid snap =
     (let sd = Join [oc_StateDir cfg, sid]; rc = Join [sd, ''rootfs.ext4''] in
      {MkdirAll sd, Chmod rc, Chown rc 0 (oc_JailerGID cfg), RemoveAll sd} \<union> copyOps (sf_DiskFile (ss_Paths snap)) rc)"

lemma asks_restoreDisk:
  assumes "restoreDisk h cfg sid snap t = (r, t')"
  shows "asks t t' (restoreOps cfg sid snap)"
proof -
  let ?sd = "Join [oc_StateDir cfg, sid]" and ?A = "restoreOps cfg sid snap"
  let ?rc = "Join [?sd, ''rootfs.ext4'']"
  obtain r1 t1 where s1: "ask h (MkdirAll ?sd) t = (r1, t1)" by fastforce
  obtain r2 t2 where s2: "copyFile h (sf_DiskFile (ss_Paths snap)) ?rc t1 = (r2, t2)" by fastforce
  obtain r3 t3 where s3: "ask_seq h [(''chmod disk'', Chmod ?rc), (''chown disk'', Chown ?rc 0 (oc_JailerGID cfg))] t2 = (r3, t3)"
    by fastforce
  have a1: "asks t t1 ?A" by (rule asks_mono [OF asks_ask [OF s1]]) (simp add: restoreOps_def Let_def)
  have a2: "asks t t2 ?A"
    by (rule asks_mono [OF asks_trans [OF a1 asks_copyFile [OF s2]]]) (auto simp: restoreOps_def Let_def)
  have a3: "asks t t3 ?A"
    by (rule asks_mono [OF asks_trans [OF a2 asks_ask_seq [OF s3]]]) (auto simp: restoreOps_def Let_def)
  have rm: "asks t (ask_all h [RemoveAll ?sd] u) ?A" if "asks t u ?A" for u
    by (rule asks_mono [OF asks_trans [OF that asks_ask_all]]) (simp add: restoreOps_def Let_def)
  show ?thesis
    using assms s1 s2 s3 a1 a3 rm [OF a2] rm [OF a3]
    by (auto simp: restoreDisk_def Let_def split: option.splits)
qed

lemma no_start_restore: "StartVM x \<notin> restoreOps cfg sid snap"
  using no_start(3) by (auto simp: restoreOps_def Let_def)

text \<open>Stopping the VM turns a capped success into a capped failure; errors may be wrapped.\<close>

lemma capped_boot_stopped:
  assumes "capped_boot cfg sp (Inr i) t t1" and "t2 = t1 @ w" and "\<And>x. StartVM x \<notin> fst ` set w"
    and "StopVMM (ls_ID sp) \<in> fst ` set w"
  shows "capped_boot cfg sp (Inl e) t t2"
proof -
  let ?sid = "ls_ID sp"
  let ?caps = "snd ` set (cgroupCaps (cgroupLeaf cfg ?sid) sp)"
  obtain u where u: "t1 = t @ u" "\<forall>x. (StartVM x, None) \<in> set u \<longrightarrow> x = ?sid \<and>
      (\<exists>u1 u2. u = u1 @ (StartVM ?sid, None) # u2 \<and> (\<forall>op \<in> ?caps. (op, None) \<in> set u1) \<and>
        (procsWrite (cgroupLeaf cfg ?sid) (in_PID i), None) \<in> set u2)"
    using assms(1) unfolding capped_boot_def Let_def by auto
  have "x = ?sid \<and> (\<exists>u1 u2. u @ w = u1 @ (StartVM ?sid, None) # u2 \<and> (\<forall>op \<in> ?caps. (op, None) \<in> set u1) \<and>
      StopVMM ?sid \<in> fst ` set u2)" if x: "(StartVM x, None) \<in> set (u @ w)" for x
  proof -
    have "(StartVM x, None) \<in> set u" using x assms(3) [of x] by force
    with u(2) obtain u1 u2 where "x = ?sid" "u = u1 @ (StartVM ?sid, None) # u2"
      "\<forall>op \<in> ?caps. (op, None) \<in> set u1" by blast
    then show ?thesis using assms(4) by (intro conjI exI [of _ u1] exI [of _ "u2 @ w"]) auto
  qed
  then have all: "\<forall>x. (StartVM x, None) \<in> set (u @ w) \<longrightarrow> x = ?sid \<and> (\<exists>u1 u2. u @ w = u1 @ (StartVM ?sid, None) # u2 \<and>
      (\<forall>op \<in> ?caps. (op, None) \<in> set u1) \<and> StopVMM ?sid \<in> fst ` set u2)" by blast
  show ?thesis
    unfolding capped_boot_def Let_def sum.case
    by (rule exI [of _ "u @ w"], rule conjI [OF _ all]) (simp add: u(1) assms(2))
qed

lemma capped_boot_Inl: "capped_boot cfg sp (Inl e) t t' \<Longrightarrow> capped_boot cfg sp (Inl e') t t'"
  by (simp add: capped_boot_def)

lemma restoreHost_cases:
  assumes "restoreHost h cfg snap sp cid t = (r, t')"
  obtains (disk) e where "restoreDisk h cfg (ls_ID sp) snap t = (Some e, t')" "r = Inl e"
  | (cgroup) t1 t2 e where "restoreDisk h cfg (ls_ID sp) snap t = (None, t1)"
      "prepareCgroup h cfg (ls_ID sp) sp t1 = (Inl e, t2)" "r = Inl (Restoring e)"
      "t' = ask_all h [RemoveAll (Join [oc_StateDir cfg, ls_ID sp])] t2"
  | (boot) t1 t2 q t3 where "restoreDisk h cfg (ls_ID sp) snap t = (None, t1)"
      "prepareCgroup h cfg (ls_ID sp) sp t1 = (Inr (cgroupLeaf cfg (ls_ID sp)), t2)"
      "bootMachine h cfg (ls_ID sp) None (restoreConfig cfg (ls_ID sp) cid snap) (bootPathsOf cfg (ls_ID sp))
         (cgroupLeaf cfg (ls_ID sp)) t2 = (q, t3)"
      "case q of Inl e \<Rightarrow> r = Inl (Restoring e) \<and> t' = t3
       | Inr p \<Rightarrow> (case ho_entropy h t3 of
           Inl e \<Rightarrow> r = Inl (Restoring (Entropy e)) \<and>
             t' = ask_all h (cleanupOps cfg (ls_ID sp) (cgroupLeaf cfg (ls_ID sp)) (bootPathsOf cfg (ls_ID sp)))
                    (ask_all h [StopVMM (ls_ID sp)] t3)
         | Inr buf \<Rightarrow> t' = t3 \<and>
             r = Inr \<lparr>in_ID = ls_ID sp, in_CID = cid, in_PID = p, in_ChrootDir = bp_ChrootRoot (bootPathsOf cfg (ls_ID sp)),
               in_SocketPath = bp_HostSocket (bootPathsOf cfg (ls_ID sp)),
               in_VsockUDSPath = bp_HostVsock (bootPathsOf cfg (ls_ID sp)),
               in_CgroupPath = cgroupLeaf cfg (ls_ID sp), in_CreatedAt = ho_now h t3, in_Spec = sp,
               in_machine = True, in_cancel = True\<rparr>)"
proof -
  obtain r1 t1 where d: "restoreDisk h cfg (ls_ID sp) snap t = (r1, t1)" by fastforce
  show ?thesis
  proof (cases r1)
    case (Some e)
    with d assms disk show ?thesis by (simp add: restoreHost_def Let_def)
  next
    case None
    obtain r2 t2 where c: "prepareCgroup h cfg (ls_ID sp) sp t1 = (r2, t2)" by fastforce
    show ?thesis
    proof (cases r2)
      case (Inl e)
      with d c None assms cgroup show ?thesis by (simp add: restoreHost_def Let_def)
    next
      case (Inr leaf)
      with asks_prepareCgroup(2) [OF c] have r2: "r2 = Inr (cgroupLeaf cfg (ls_ID sp))" by simp
      obtain q t3 where b: "bootMachine h cfg (ls_ID sp) None (restoreConfig cfg (ls_ID sp) cid snap)
          (bootPathsOf cfg (ls_ID sp)) (cgroupLeaf cfg (ls_ID sp)) t2 = (q, t3)" by fastforce
      show ?thesis
        by (rule boot [OF d [unfolded None] c [unfolded r2] b])
          (use assms d None c r2 b in \<open>auto simp: restoreHost_def Let_def newRestoredIdentity_def split: sum.splits\<close>)
    qed
  qed
qed

lemma cleanup_no_start: "StartVM x \<notin> set (cleanupOps cfg sid leaf paths)"
  by (auto simp: cleanupOps_def)

lemma restore_capped:
  assumes "restoreHost h cfg snap sp cid t = (r, t')"
  shows "capped_boot cfg sp r t t'"
  using assms
proof (cases rule: restoreHost_cases)
  case (disk e)
  then show ?thesis using asks_restoreDisk [OF disk(1)] no_start_restore by (intro capped_boot_no_start) auto
next
  case (cgroup t1 t2 e)
  have "asks t t' (restoreOps cfg (ls_ID sp) snap \<union> cgroupOps cfg (ls_ID sp) sp \<union> {RemoveAll (Join [oc_StateDir cfg, ls_ID sp])})"
    using asks_trans [OF asks_trans [OF asks_restoreDisk [OF cgroup(1)] asks_prepareCgroup(1) [OF cgroup(2)]]
        asks_ask_all [of t2 h "[RemoveAll (Join [oc_StateDir cfg, ls_ID sp])]"]] cgroup(4) by simp
  then show ?thesis using no_start_restore no_start(2) by (intro capped_boot_no_start) auto
next
  case (boot t1 t2 q t3)
  let ?mk = "\<lambda>p. \<lparr>in_ID = [], in_CID = cid, in_PID = p, in_ChrootDir = [], in_SocketPath = [], in_VsockUDSPath = [],
      in_CgroupPath = [], in_CreatedAt = [], in_Spec = sp, in_machine = True, in_cancel = True\<rparr>"
  obtain w where w: "t2 = t1 @ w" "\<forall>op \<in> snd ` set (cgroupCaps (cgroupLeaf cfg (ls_ID sp)) sp). (op, None) \<in> set w"
    using asks_prepareCgroup(2) [OF boot(2)] by auto
  have c: "capped_boot cfg sp (case q of Inl e \<Rightarrow> Inl e | Inr p \<Rightarrow> Inr (?mk p)) t t3"
    by (rule capped_boot_after_caps [OF _ _ w asks_restoreDisk [OF boot(1)] boot(3)],
        rule asks_trans [OF asks_restoreDisk [OF boot(1)] asks_prepareCgroup(1) [OF boot(2)]])
      (use no_start_restore no_start(2) in auto)
  show ?thesis
  proof (cases q)
    case (Inl e)
    with boot(4) c show ?thesis by (auto intro: capped_boot_Inl)
  next
    case (Inr p)
    show ?thesis
    proof (cases "ho_entropy h t3")
      case (Inl e)
      let ?ops = "StopVMM (ls_ID sp) # cleanupOps cfg (ls_ID sp) (cgroupLeaf cfg (ls_ID sp)) (bootPathsOf cfg (ls_ID sp))"
      have t': "t' = ask_all h ?ops t3" using boot(4) Inr Inl by simp
      obtain v where v: "t' = t3 @ v" "map fst v = ?ops"
        using ask_all_ops [of h ?ops t3] t' by auto
      then have "fst ` set v = set ?ops" by (metis list.set_map)
      then show ?thesis
        using capped_boot_stopped [OF _ v(1)] c Inr Inl boot(4) cleanup_no_start by fastforce
    next
      case (Inr buf)
      with boot(4) c \<open>q = Inr p\<close> show ?thesis by (simp add: capped_boot_def)
    qed
  qed
qed

interpretation restore_launch: launcher restoreHost
proof
  fix h cfg snap sp cid t i t'
  assume "restoreHost h cfg snap sp cid t = (Inr i, t')"
  then show "inst_wf cfg sp cid i"
    by (cases rule: restoreHost_cases) (auto simp: inst_wf_def split: sum.splits)
qed (rule restore_capped)

section \<open>What the engine asks of the host\<close>

definition copySeq :: "string \<Rightarrow> string \<Rightarrow> host_op list" where
  "copySeq src dst = [OpenRead src, MkdirAll (Dir dst), CreateFile dst, CopyData src dst, CloseFile dst]"

lemma copyFile_None:
  assumes "copyFile h src dst t = (None, t')"
  shows "t' = t @ map (\<lambda>op. (op, None)) (copySeq src dst)"
proof -
  let ?seq = "[([], OpenRead src), ([], MkdirAll (Dir dst)), ([], CreateFile dst)]"
  obtain r t1 where s: "ask_seq h ?seq t = (r, t1)" by fastforce
  with assms have "r = None" by (auto simp: copyFile_def split: option.splits)
  with s ask_seq_None [of h ?seq t t1] assms show ?thesis
    by (auto simp: copyFile_def copySeq_def ask_def split: option.splits)
qed

definition snapOps :: "string \<Rightarrow> string \<Rightarrow> host_op list" where
  "snapOps dir sid = [MkdirAll dir, PauseVM sid, CreateSnapshot sid (Join [dir, ''mem.img'']) (Join [dir, ''state.img''])]"

lemma CreatePausedWithDisk_Inr:
  assumes "CreatePausedWithDisk h eng i disk t = (Inr snap, t')"
  shows "t' = t @ map (\<lambda>op. (op, None)) (snapOps (snapDir h eng t) (in_ID i) @ copySeq disk (sf_DiskFile (ss_Paths snap)))"
    and "ss_Paths snap = \<lparr>sf_MemFile = Join [snapDir h eng t, ''mem.img''], sf_StateFile = Join [snapDir h eng t, ''state.img''],
      sf_DiskFile = Join [snapDir h eng t, ''disk.img'']\<rparr>"
    and "ss_SandboxID snap = in_ID i" and "ss_GuestMemMiB snap = ls_MemMiB (in_Spec i)" and "ss_GuestVCPUs snap = ls_VCPUs (in_Spec i)"
  using assms
  by (auto simp: CreatePausedWithDisk_def Let_def ask_def snapOps_def split: option.splits prod.splits dest!: copyFile_None)

lemma CreatePausedWithDisk_Inl:
  assumes "CreatePausedWithDisk h eng i disk t = (Inl e, t @ u)"
  shows "(\<exists>x. e = SnapMkdir x \<and> u = [(MkdirAll (snapDir h eng t), Some x)]) \<or> fst (last u) = RemoveAll (snapDir h eng t)"
    and "asks t (t @ u) (set (snapOps (snapDir h eng t) (in_ID i)) \<union> copyOps disk (Join [snapDir h eng t, ''disk.img'']) \<union> {RemoveAll (snapDir h eng t)})"
proof -
  let ?dir = "snapDir h eng t"
  let ?cs = "CreateSnapshot (in_ID i) (Join [?dir, ''mem.img'']) (Join [?dir, ''state.img''])"
  let ?A = "set (snapOps ?dir (in_ID i)) \<union> copyOps disk (Join [?dir, ''disk.img'']) \<union> {RemoveAll ?dir}"
  obtain r4 t4 where c: "copyFile h disk (Join [?dir, ''disk.img'']) (t @ [(MkdirAll ?dir, None), (PauseVM (in_ID i), None), (?cs, None)]) = (r4, t4)"
    by fastforce
  have rmv: "\<exists>x. u = v @ [(RemoveAll ?dir, x)]" if "t @ u = ask_all h [RemoveAll ?dir] (t @ v)" for v
    using that by (auto simp: ask_def)
  obtain v4 where v4: "t4 = t @ v4" "asks t t4 ?A"
  proof -
    have "asks t (t @ [(MkdirAll ?dir, None), (PauseVM (in_ID i), None), (?cs, None)]) (set (snapOps ?dir (in_ID i)))"
      by (simp add: asks_def snapOps_def)
    from asks_trans [OF this asks_copyFile [OF c]] have "asks t t4 ?A" by (rule asks_mono) auto
    with that show ?thesis by (auto simp: asks_def)
  qed
  consider (mk) x where "e = SnapMkdir x" "u = [(MkdirAll ?dir, Some x)]"
    | (rm) v y where "u = v @ [(RemoveAll ?dir, y)]" "asks t (t @ v) ?A"
  proof -
    have known: "asks t (t @ v) ?A" if "set (map fst v) \<subseteq> ?A" for v using that by (auto simp: asks_def)
    have "(\<exists>x. e = SnapMkdir x \<and> t @ u = t @ [(MkdirAll ?dir, Some x)]) \<or>
        (\<exists>v. t @ u = ask_all h [RemoveAll ?dir] (t @ v) \<and> (t @ v = t4 \<or> set (map fst v) \<subseteq> ?A))"
      using assms c v4(1) unfolding CreatePausedWithDisk_def Let_def
      by (auto simp: ask_def snapOps_def split: option.splits)
    then show ?thesis
    proof
      assume "\<exists>v. t @ u = ask_all h [RemoveAll ?dir] (t @ v) \<and> (t @ v = t4 \<or> set (map fst v) \<subseteq> ?A)"
      then obtain v where v: "t @ u = ask_all h [RemoveAll ?dir] (t @ v)" "t @ v = t4 \<or> set (map fst v) \<subseteq> ?A" by blast
      obtain y where "u = v @ [(RemoveAll ?dir, y)]" using rmv [OF v(1)] by blast
      moreover have "asks t (t @ v) ?A" using v(2) known v4(2) by metis
      ultimately show ?thesis by (rule rm)
    qed (use mk in auto)
  qed
  then show "(\<exists>x. e = SnapMkdir x \<and> u = [(MkdirAll ?dir, Some x)]) \<or> fst (last u) = RemoveAll ?dir"
    and "asks t (t @ u) ?A"
    by (cases; auto simp: asks_def snapOps_def)+
qed

lemma StopWithSnapshot_Inr:
  assumes "StopWithSnapshot h eng sid s t = (Inr snap, s', t')"
  shows "\<exists>i t1. map_of (sv_inst s) sid = Some i \<and>
    CreatePausedWithDisk h eng i (Join [oc_StateDir (sv_cfg s), sid, ''rootfs.ext4'']) t = (Inr snap, t1) \<and>
    Terminate h sid s t1 = (None, s', t')"
  using assms by (auto simp: StopWithSnapshot_def Terminate_def split: option.splits sum.splits prod.splits)

lemma StopWithSnapshot_Inl:
  assumes "StopWithSnapshot h eng sid s t = (Inl e, s', t')"
  shows "s' = s \<and> (e = SnapNotFound sid \<and> t' = t \<or> (\<exists>i. map_of (sv_inst s) sid = Some i \<and>
    CreatePausedWithDisk h eng i (Join [oc_StateDir (sv_cfg s), sid, ''rootfs.ext4'']) t = (Inl e, t')))"
  using assms by (auto simp: StopWithSnapshot_def split: option.splits sum.splits prod.splits)

section \<open>Properties of snapshots\<close>

text \<open>
  C23: A snapshot taken by \<open>StopWithSnapshot\<close> is consistent. On success the host was asked, with every
  answer a success, to pause the VM, to write memory and device state, and to copy the sandbox's own
  disk beside them, in this order with nothing in between; only then is the sandbox terminated, and it
  alone is no longer tracked. On failure the supervisor is unchanged, the snapshot directory is
  removed last unless it could not be made, and the VM is neither resumed nor stopped.
\<close>

theorem stop_snapshot_consistent:
  assumes "sup_ok s" and "StopWithSnapshot h eng sid s t = (r, s', t @ u)"
  shows "case r of
      Inr snap \<Rightarrow> (\<exists>i v. Get s sid = Some i \<and>
        u = map (\<lambda>op. (op, None)) (snapOps (snapDir h eng t) sid @
              copySeq (Join [oc_StateDir (sv_cfg s), sid, ''rootfs.ext4'']) (sf_DiskFile (ss_Paths snap))) @ v \<and>
        map fst v = terminateOps s i \<and> Get s' sid = None \<and> (\<forall>k. k \<noteq> sid \<longrightarrow> Get s' k = Get s k) \<and> sup_ok s' \<and>
        ss_SandboxID snap = sid \<and> ss_GuestMemMiB snap = ls_MemMiB (in_Spec i) \<and>
        sf_MemFile (ss_Paths snap) = Join [snapDir h eng t, ''mem.img''] \<and>
        sf_StateFile (ss_Paths snap) = Join [snapDir h eng t, ''state.img''] \<and>
        sf_DiskFile (ss_Paths snap) = Join [snapDir h eng t, ''disk.img''])
    | Inl e \<Rightarrow> s' = s \<and> (\<forall>x. ResumeVM x \<notin> fst ` set u \<and> StopVMM x \<notin> fst ` set u) \<and>
        (e = SnapNotFound sid \<or> (\<exists>x. e = SnapMkdir x) \<or> fst (last u) = RemoveAll (snapDir h eng t))"
proof (cases r)
  case (Inr snap)
  let ?disk = "Join [oc_StateDir (sv_cfg s), sid, ''rootfs.ext4'']"
  obtain i t1 where i: "map_of (sv_inst s) sid = Some i" "CreatePausedWithDisk h eng i ?disk t = (Inr snap, t1)"
    and te: "Terminate h sid s t1 = (None, s', t @ u)"
    using StopWithSnapshot_Inr assms(2) Inr by blast
  have id: "in_ID i = sid" using assms(1) i(1) by (auto simp: sup_ok_def inst_ok_def dest!: map_of_SomeD)
  obtain v where v: "t @ u = t1 @ v" "map fst v = terminateOps s i"
    using te i(1) ask_all_ops [of h "terminateOps s i" t1] by (auto simp: Terminate_def)
  note c = CreatePausedWithDisk_Inr [OF i(2), unfolded id]
  have s': "sv_inst s' = inst_delete sid (sv_inst s)" using te i(1) by (auto simp: Terminate_def)
  show ?thesis
    using i(1) v c s' Terminate_sup_ok [OF assms(1) te]
    by (auto simp: Inr Get_def map_of_inst_delete)
next
  case (Inl e)
  have u': "s' = s" "e = SnapNotFound sid \<and> u = [] \<or> (\<exists>i. CreatePausedWithDisk h eng i
      (Join [oc_StateDir (sv_cfg s), sid, ''rootfs.ext4'']) t = (Inl e, t @ u))"
    using StopWithSnapshot_Inl [of h eng sid s t e s' "t @ u"] assms(2) Inl by auto
  then show ?thesis
    using Inl CreatePausedWithDisk_Inl [of h eng _ _ t e u]
    by (fastforce simp: asks_def snapOps_def copyOps_def)
qed

text \<open>A host that never refuses anything, the random source included.\<close>

definition generous :: "host \<Rightarrow> bool" where
  "generous h \<longleftrightarrow> willing h \<and> (\<forall>t. \<exists>buf. ho_entropy h t = Inr buf)"

lemma generous_restoreHost:
  assumes g: "generous h"
  shows "\<exists>i t'. restoreHost h cfg snap sp cid t = (Inr i, t')"
proof -
  have w: "willing h" using g by (simp add: generous_def)
  let ?sd = "Join [oc_StateDir cfg, ls_ID sp]"
  let ?rc = "Join [?sd, ''rootfs.ext4'']"
  obtain t1 where t1: "copyFile h (sf_DiskFile (ss_Paths snap)) ?rc (t @ [(MkdirAll ?sd, None)]) = (None, t1)"
    using willing_copyFile [OF w] by blast
  obtain t2 where t2: "ask_seq h [(''chmod disk'', Chmod ?rc), (''chown disk'', Chown ?rc 0 (oc_JailerGID cfg))] t1 = (None, t2)"
    using willing_seq [OF w] by blast
  have d: "restoreDisk h cfg (ls_ID sp) snap t = (None, t2)"
    by (simp add: restoreDisk_def Let_def willing_ask [OF w] t1 t2)
  obtain t3 where c: "prepareCgroup h cfg (ls_ID sp) sp t2 = (Inr (cgroupLeaf cfg (ls_ID sp)), t3)"
    using willing_prepareCgroup [OF w] by blast
  obtain p t4 where b: "bootMachine h cfg (ls_ID sp) None (restoreConfig cfg (ls_ID sp) cid snap) (bootPathsOf cfg (ls_ID sp))
      (cgroupLeaf cfg (ls_ID sp)) t3 = (Inr p, t4)" using willing_bootMachine [OF w] by blast
  obtain buf where "ho_entropy h t4 = Inr buf" using g by (auto simp: generous_def)
  with d c b show ?thesis by (simp add: restoreHost_def Let_def newRestoredIdentity_def)
qed

text \<open>What a successful restore asked: the disk copied back, then the VM made from the snapshot's files.\<close>

lemma restoreHost_asked:
  assumes "restoreHost h cfg snap sp cid t = (Inr i, t @ u)"
  shows "(CopyData (sf_DiskFile (ss_Paths snap)) (Join [Join [oc_StateDir cfg, ls_ID sp], ''rootfs.ext4'']), None) \<in> set u \<and>
    (\<exists>as. (NewMachine (restoreConfig cfg (ls_ID sp) cid snap) as, None) \<in> set u) \<and> (StartVM (ls_ID sp), None) \<in> set u"
  using assms
proof (cases rule: restoreHost_cases)
  case (boot t1 t2 q t3)
  then obtain p where q: "q = Inr p" "t @ u = t3" by (cases q) (auto split: sum.splits)
  let ?sd = "Join [oc_StateDir cfg, ls_ID sp]"
  let ?rc = "Join [?sd, ''rootfs.ext4'']" and ?disk = "sf_DiskFile (ss_Paths snap)"
  obtain r2 t2' where c: "copyFile h ?disk ?rc (t @ [(MkdirAll ?sd, None)]) = (r2, t2')" by fastforce
  have "r2 = None" "ho_op h t (MkdirAll ?sd) = None"
    using boot(1) c by (auto simp: restoreDisk_def Let_def ask_def split: option.splits prod.splits)
  with copyFile_None c have t2': "t2' = (t @ [(MkdirAll ?sd, None)]) @ map (\<lambda>op. (op, None)) (copySeq ?disk ?rc)" by blast
  obtain w where w: "t1 = t2' @ w"
    using boot(1) c \<open>r2 = None\<close> \<open>ho_op h t (MkdirAll ?sd) = None\<close>
    by (auto simp: restoreDisk_def Let_def ask_def dest!: asks_ask_seq split: option.splits prod.splits) (auto simp: asks_def)
  obtain x where x: "t2 = t1 @ x" using asks_prepareCgroup(1) [OF boot(2)] by (auto simp: asks_def)
  have "t3 = t2 @ [(NewMachine (restoreConfig cfg (ls_ID sp) cid snap) (machineArgs cfg (restoreConfig cfg (ls_ID sp) cid snap)), None),
      (StartVM (ls_ID sp), None), (procsWrite (cgroupLeaf cfg (ls_ID sp)) p, None)]"
    using bootMachine_Inr boot(3) q(1) by blast
  then have "u = [(MkdirAll ?sd, None)] @ map (\<lambda>op. (op, None)) (copySeq ?disk ?rc) @ w @ x @
      [(NewMachine (restoreConfig cfg (ls_ID sp) cid snap) (machineArgs cfg (restoreConfig cfg (ls_ID sp) cid snap)), None),
      (StartVM (ls_ID sp), None), (procsWrite (cgroupLeaf cfg (ls_ID sp)) p, None)]"
    using q(2) t2' w x by simp
  then show ?thesis by (auto simp: copySeq_def)
qed auto

lemma LoadSnapshot_Inr:
  assumes "sup_ok s" and "LoadSnapshot h snap sp s t = (Inr i, s', t @ u)"
  shows "\<exists>a. Get s (in_ID i) = None \<and> s' = s\<lparr>sv_inst := sv_inst s @ [(in_ID i, i)], sv_cids := a\<rparr> \<and>
    inst_wf (sv_cfg s) (launchSpec h sp t) (in_CID i) i \<and> in_CID i \<notin> ca_used (sv_cids s) \<and>
    (CopyData (sf_DiskFile (ss_Paths snap)) (Join [Join [oc_StateDir (sv_cfg s), in_ID i], ''rootfs.ext4'']), None) \<in> set u \<and>
    (\<exists>as. (NewMachine (restoreConfig (sv_cfg s) (in_ID i) (in_CID i) snap) as, None) \<in> set u)"
proof -
  let ?sp = "launchSpec h sp t"
  have run: "launchWith (restoreHost h (sv_cfg s) snap) h ?sp s t = (Inr i, s', t @ u)"
    using assms(2) by (simp add: LoadSnapshot_launchWith)
  obtain cid a t1 where l: "cid_alloc (sv_cids s) = (Inr cid, a)" "map_of (sv_inst s) (ls_ID ?sp) = None"
    "restoreHost h (sv_cfg s) snap ?sp cid t = (Inr i, t1)"
    "s' = s\<lparr>sv_inst := sv_inst s @ [(ls_ID ?sp, i)], sv_cids := a\<rparr>" "inst_wf (sv_cfg s) ?sp cid i"
    "t @ u = (if sv_recorder s then ask_all h [SaveRecord (toRecord i)] t1 else t1)"
    using restore_launch.launch_Inr [OF assms(1) run] by blast
  obtain v where v: "t1 = t @ v" using restore_capped [OF l(3)] by (auto simp: capped_boot_def Let_def)
  with l(6) have vu: "set v \<subseteq> set u" by (auto simp: ask_def split: if_splits)
  have "cid \<notin> ca_used (sv_cids s)"
    using cid_pool.alloc_Inr [OF _ l(1)] assms(1) by (simp add: sup_ok_def)
  with restoreHost_asked [of h "sv_cfg s" snap ?sp cid t i v] l v vu show ?thesis
    by (auto simp: inst_wf_def Get_def)
qed


section \<open>Stop and resume\<close>

lemma inst_delete_split:
  assumes "distinct (map fst m)" and "map_of m k = Some i"
  shows "\<exists>xs ys. m = xs @ (k, i) # ys \<and> inst_delete k m = xs @ ys"
proof -
  obtain xs ys where m: "m = xs @ (k, i) # ys" using split_list [OF map_of_SomeD [OF assms(2)]] by blast
  have "filter (\<lambda>(k', _). k' \<noteq> k) zs = zs" if "k \<notin> fst ` set zs" for zs :: "(string \<times> Instance) list"
    using that by (intro filter_True) force
  then have "inst_delete k m = xs @ ys" using m assms(1) by (simp add: inst_delete_def)
  with m show ?thesis by blast
qed

lemma launchSpec_resume:
  assumes "applySpecDefaults sp = sp" and "ls_ID sp \<noteq> []"
  shows "launchSpec h sp t = sp"
  using assms by (simp add: launchSpec_def)

text \<open>After a sandbox is gone there is room to bring it back.\<close>

lemma readmitted:
  assumes "sup_ok s" "limits_ok s" "map_of (sv_inst s) sid = Some i" "memTotal s < 2 ^ 63"
    and s1: "s1 = s\<lparr>sv_inst := inst_delete sid (sv_inst s), sv_cids := a\<rparr>"
  shows "launchCheck s1 (in_Spec i) = None" and "memTotal s1 + ls_MemMiB (in_Spec i) = memTotal s"
    and "limits_ok s1" and "length (sv_inst s1) + 1 = length (sv_inst s)"
proof -
  obtain xs ys where m: "sv_inst s = xs @ (sid, i) # ys" "inst_delete sid (sv_inst s) = xs @ ys"
    using inst_delete_split [OF _ assms(3)] assms(1) by (auto simp: sup_ok_def)
  show len: "length (sv_inst s1) + 1 = length (sv_inst s)" using m s1 by simp
  show mem: "memTotal s1 + ls_MemMiB (in_Spec i) = memTotal s" using m s1 by (simp add: memTotal_def)
  have pos: "0 < ls_MemMiB (in_Spec i)" using assms(2) m(1) by (auto simp: limits_ok_def)
  show lim: "limits_ok s1"
    using assms(2) m s1 pos by (auto simp: limits_ok_def memTotal_def)
  have "wrap64 (usedMemMiB (sv_inst s1) + ls_MemMiB (in_Spec i)) = memTotal s"
    using memTotal_nonneg [OF assms(2)] assms(4)
    by (simp add: usedMemMiB_wrap wrap64_wrap64_add mem wrap64_id int64_range_def)
  moreover have "ls_ID (in_Spec i) = sid" using assms(1) m(1) by (auto simp: sup_ok_def inst_ok_def)
  moreover have "map_of (sv_inst s1) sid = None" using s1 by (simp add: map_of_inst_delete)
  ultimately show "launchCheck s1 (in_Spec i) = None"
    using assms(2) len s1 by (auto simp: launchCheck_def admitLocked_def Let_def limits_ok_def)
qed

lemma willing_stop:
  assumes w: "willing h" and "sup_ok s" and i: "map_of (sv_inst s) sid = Some i"
  shows "\<exists>snap u. StopWithSnapshot h eng sid s t =
      (Inr snap, s\<lparr>sv_inst := inst_delete sid (sv_inst s), sv_cids := cid_free (in_CID i) (sv_cids s)\<rparr>, t @ u) \<and>
    sup_ok (s\<lparr>sv_inst := inst_delete sid (sv_inst s), sv_cids := cid_free (in_CID i) (sv_cids s)\<rparr>) \<and>
    (CopyData (Join [oc_StateDir (sv_cfg s), sid, ''rootfs.ext4'']) (sf_DiskFile (ss_Paths snap)), None) \<in> set u \<and>
    (CreateSnapshot sid (sf_MemFile (ss_Paths snap)) (sf_StateFile (ss_Paths snap)), None) \<in> set u"
proof -
  let ?disk = "Join [oc_StateDir (sv_cfg s), sid, ''rootfs.ext4'']" and ?dir = "snapDir h eng t"
  let ?s1 = "s\<lparr>sv_inst := inst_delete sid (sv_inst s), sv_cids := cid_free (in_CID i) (sv_cids s)\<rparr>"
  have id: "in_ID i = sid" using assms(2) i by (auto simp: sup_ok_def inst_ok_def dest!: map_of_SomeD)
  obtain t0 where c0: "copyFile h ?disk (Join [?dir, ''disk.img'']) (t @ map (\<lambda>op. (op, None)) (snapOps ?dir sid)) = (None, t0)"
    using willing_copyFile [OF w] by blast
  obtain snap where c: "CreatePausedWithDisk h eng i ?disk t = (Inr snap, t0)"
    using c0 by (simp add: CreatePausedWithDisk_def Let_def willing_ask [OF w] snapOps_def id)
  note cs = CreatePausedWithDisk_Inr [OF c, unfolded id]
  obtain x where te: "Terminate h sid s t0 = (None, ?s1, t0 @ x)"
    using i ask_all_ops [of h "terminateOps s i" t0] by (auto simp: Terminate_def)
  define u where "u = map (\<lambda>op. (op, None)) (snapOps ?dir sid @ copySeq ?disk (sf_DiskFile (ss_Paths snap))) @ x"
  have "StopWithSnapshot h eng sid s t = (Inr snap, ?s1, t @ u)"
    using i c te cs(1) by (simp add: StopWithSnapshot_def u_def)
  moreover have "(CopyData ?disk (sf_DiskFile (ss_Paths snap)), None) \<in> set u"
    "(CreateSnapshot sid (sf_MemFile (ss_Paths snap)) (sf_StateFile (ss_Paths snap)), None) \<in> set u"
    using cs(2) by (auto simp: u_def copySeq_def snapOps_def)
  ultimately show ?thesis using Terminate_sup_ok [OF assms(2) te] by blast
qed

lemma freed_cid:
  assumes "sup_ok s" "map_of (sv_inst s) sid = Some i"
    and "s1 = s\<lparr>sv_inst := m, sv_cids := cid_free (in_CID i) (sv_cids s)\<rparr>"
  shows "\<exists>c. c \<in> {ca_min (sv_cids s1)..ca_max (sv_cids s1)} \<and> c \<notin> ca_used (sv_cids s1)"
proof -
  have cok: "cid_ok (sv_cids s)" "in_CID i \<in> ca_used (sv_cids s)"
    using assms(1) map_of_SomeD [OF assms(2)] by (force simp: sup_ok_def)+
  note free = cid_pool.free_law [OF cok(1), of "in_CID i"]
  have "in_CID i \<in> {ca_min (sv_cids s)..ca_max (sv_cids s)}" using cok by (auto simp: cid_ok_def)
  with free have "in_CID i \<in> {ca_min (cid_free (in_CID i) (sv_cids s))..ca_max (cid_free (in_CID i) (sv_cids s))}"
    "in_CID i \<notin> ca_used (cid_free (in_CID i) (sv_cids s))" by blast+
  then show ?thesis unfolding assms(3) by auto
qed

lemma generous_load:
  assumes "generous h" "sup_ok s" "launchCheck s (launchSpec h sp t) = None"
    and "\<exists>c. c \<in> {ca_min (sv_cids s)..ca_max (sv_cids s)} \<and> c \<notin> ca_used (sv_cids s)"
  shows "\<exists>j s2 v. LoadSnapshot h snap sp s t = (Inr j, s2, t @ v)"
proof -
  have "cid_ok (sv_cids s)" using assms(2) by (simp add: sup_ok_def)
  with assms(4) obtain cid a where al: "cid_alloc (sv_cids s) = (Inr cid, a)"
    using cid_pool.alloc_succeeds by blast
  obtain j t1 where r: "restoreHost h (sv_cfg s) snap (launchSpec h sp t) cid t = (Inr j, t1)"
    using generous_restoreHost [OF assms(1)] by blast
  obtain y where "t1 = t @ y" using restore_capped [OF r] by (auto simp: capped_boot_def Let_def)
  with assms(3) al r show ?thesis by (auto simp: LoadSnapshot_def Let_def ask_def)
qed

text \<open>
  A sandbox stopped with a snapshot can be resumed. On a host that refuses nothing, stopping a
  tracked sandbox and loading the snapshot with its own specification both succeed, whatever else is
  running: the sandbox is back under its id with the same specification, cgroup and chroot,
  its disk went into the snapshot and came back from it, the machine is made from the files
  the stop wrote, all other sandboxes are untouched, and the host limits still hold.
\<close>

theorem stop_resume_roundtrip:
  assumes "generous h" and "sup_ok s" and "limits_ok s" and "memTotal s < 2 ^ 63"
    and "Get s sid = Some i" and "applySpecDefaults (in_Spec i) = in_Spec i" and "sid \<noteq> []"
  shows "\<exists>snap s1 u j s2 v as. StopWithSnapshot h eng sid s t = (Inr snap, s1, t @ u) \<and> Get s1 sid = None \<and>
    LoadSnapshot h snap (in_Spec i) s1 (t @ u) = (Inr j, s2, t @ u @ v) \<and>
    Get s2 sid = Some j \<and> in_Spec j = in_Spec i \<and> in_CgroupPath j = in_CgroupPath i \<and> in_ChrootDir j = in_ChrootDir i \<and>
    (\<forall>k. k \<noteq> sid \<longrightarrow> Get s2 k = Get s k) \<and> Count s2 = Count s \<and> sup_ok s2 \<and> limits_ok s2 \<and>
    (CopyData (Join [oc_StateDir (sv_cfg s), sid, ''rootfs.ext4'']) (sf_DiskFile (ss_Paths snap)), None) \<in> set u \<and>
    (CreateSnapshot sid (sf_MemFile (ss_Paths snap)) (sf_StateFile (ss_Paths snap)), None) \<in> set u \<and>
    (CopyData (sf_DiskFile (ss_Paths snap)) (Join [Join [oc_StateDir (sv_cfg s), sid], ''rootfs.ext4'']), None) \<in> set v \<and>
    (NewMachine (restoreConfig (sv_cfg s) sid (in_CID j) snap) as, None) \<in> set v"
proof -
  have i: "map_of (sv_inst s) sid = Some i" using assms(5) by (simp add: Get_def)
  have ok: "inst_ok (sv_cfg s) sid i" using assms(2) i by (auto simp: sup_ok_def dest!: map_of_SomeD)
  then have id: "ls_ID (in_Spec i) = sid" by (simp add: inst_ok_def)
  define s1 where "s1 = s\<lparr>sv_inst := inst_delete sid (sv_inst s), sv_cids := cid_free (in_CID i) (sv_cids s)\<rparr>"
  obtain snap u where stop: "StopWithSnapshot h eng sid s t = (Inr snap, s1, t @ u)" "sup_ok s1"
      "(CopyData (Join [oc_StateDir (sv_cfg s), sid, ''rootfs.ext4'']) (sf_DiskFile (ss_Paths snap)), None) \<in> set u"
      "(CreateSnapshot sid (sf_MemFile (ss_Paths snap)) (sf_StateFile (ss_Paths snap)), None) \<in> set u"
    using willing_stop [OF _ assms(2) i] assms(1) unfolding generous_def s1_def by blast
  note re = readmitted [OF assms(2,3) i assms(4) s1_def]
  have sp: "launchSpec h (in_Spec i) t' = in_Spec i" for t'
    using launchSpec_resume [OF assms(6)] id assms(7) by simp
  obtain j s2 v where load: "LoadSnapshot h snap (in_Spec i) s1 (t @ u) = (Inr j, s2, (t @ u) @ v)"
    using generous_load [OF assms(1) stop(2)] re(1) freed_cid [OF assms(2) i s1_def] sp by metis
  from LoadSnapshot_Inr [OF stop(2) load] obtain a as where l: "s2 = s1\<lparr>sv_inst := sv_inst s1 @ [(in_ID j, j)], sv_cids := a\<rparr>"
      "inst_wf (sv_cfg s1) (in_Spec i) (in_CID j) j"
      "(CopyData (sf_DiskFile (ss_Paths snap)) (Join [Join [oc_StateDir (sv_cfg s1), in_ID j], ''rootfs.ext4'']), None) \<in> set v"
      "(NewMachine (restoreConfig (sv_cfg s1) (in_ID j) (in_CID j) snap) as, None) \<in> set v"
    unfolding sp by blast
  have run: "launchWith (restoreHost h (sv_cfg s1) snap) h (in_Spec i) s1 (t @ u) = (Inr j, s2, (t @ u) @ v)"
    using load by (simp add: LoadSnapshot_launchWith sp)
  have lim: "limits_ok s2"
    using restore_launch.launch_limits [OF stop(2) re(3) run] re(2) assms(3,4) map_of_SomeD [OF i]
    by (auto simp: limits_ok_def)
  have j: "in_ID j = sid" "in_Spec j = in_Spec i" "in_CgroupPath j = in_CgroupPath i" "in_ChrootDir j = in_ChrootDir i"
    "sv_cfg s1 = sv_cfg s"
    using l(2) ok id by (auto simp: inst_wf_def inst_ok_def s1_def)
  have g: "Get s1 sid = None" "Get s2 sid = Some j" "\<forall>k. k \<noteq> sid \<longrightarrow> Get s2 k = Get s k" "Count s2 = Count s"
    using l(1) j(1) re(4) by (auto simp: Get_def s1_def map_of_inst_delete Count_def map_add_def split: option.splits)
  have "sup_ok s2" by (rule restore_launch.launch_sup_ok [OF stop(2) run])
  with stop load l(3,4) g j lim show ?thesis unfolding append_assoc by metis
qed

lemma exGenerous: "generous exHost"
  by (simp add: generous_def willing_def exHost_def)

definition exEngine :: SnapshotEngine where
  "exEngine = \<lparr>se_snapshotDir = ''/srv/snapshots''\<rparr>"

lemma exRunning:
  "\<exists>i s1 t1. Launch exHost None exSpec exSup [] = (Inr i, s1, t1) \<and> sup_ok s1 \<and> limits_ok s1 \<and>
     Get s1 ''sb-1'' = Some i \<and> in_Spec i = applySpecDefaults exSpec \<and> memTotal s1 = 512 \<and> sv_cfg s1 = sv_cfg exSup"
proof -
  have sp: "launchSpec exHost exSpec [] = applySpecDefaults exSpec" "ls_MemMiB (applySpecDefaults exSpec) = 512"
    by (simp_all add: launchSpec_def exSpec_def applySpecDefaults_def)
  obtain i s1 t1 where l: "Launch exHost None exSpec exSup [] = (Inr i, s1, t1)" using exLaunch by blast
  note run = l [unfolded Launch_launchWith]
  have ok: "sup_ok s1" by (rule fresh_launch.launch_sup_ok [OF exSup_ok(1) run])
  have lim: "limits_ok s1"
    by (rule fresh_launch.launch_limits [OF exSup_ok run]) (simp_all add: sp memTotal_def exSup_def)
  obtain a cid where s1: "s1 = exSup\<lparr>sv_inst := sv_inst exSup @ [(''sb-1'', i)], sv_cids := a\<rparr>"
    "inst_wf (sv_cfg exSup) (launchSpec exHost exSpec []) cid i"
    using fresh_launch.launch_Inr [OF exSup_ok(1) run] by (metis exSpec_id)
  have i: "in_Spec i = applySpecDefaults exSpec" using s1(2) by (simp add: inst_wf_def sp)
  have "sv_inst exSup = []" by (simp add: exSup_def)
  then have "Get s1 ''sb-1'' = Some i" "memTotal s1 = 512" "sv_cfg s1 = sv_cfg exSup"
    using s1(1) i sp(2) by (simp_all add: Get_def memTotal_def)
  with l ok lim i show ?thesis by blast
qed

theorem stop_snapshot_consistent_witness:
  "\<exists>i s1 t1 snap s2 v. Launch exHost None exSpec exSup [] = (Inr i, s1, t1) \<and>
     StopWithSnapshot exHost exEngine ''sb-1'' s1 t1 = (Inr snap, s2, t1 @ v) \<and> Get s2 ''sb-1'' = None \<and>
     take 3 (map fst v) = snapOps (snapDir exHost exEngine t1) ''sb-1''"
proof -
  obtain i s1 t1 where l: "Launch exHost None exSpec exSup [] = (Inr i, s1, t1)" "sup_ok s1" "map_of (sv_inst s1) ''sb-1'' = Some i"
    using exRunning unfolding Get_def by blast
  obtain snap s2 v where st: "StopWithSnapshot exHost exEngine ''sb-1'' s1 t1 = (Inr snap, s2, t1 @ v)"
    using willing_stop [OF _ l(2,3)] exGenerous unfolding generous_def by blast
  from stop_snapshot_consistent [OF l(2) st] show ?thesis
    using l(1) st by (auto simp: comp_def snapOps_def)
qed


theorem stop_resume_roundtrip_witness:
  "\<exists>i s1 t1 snap s2 u j s3 v. Launch exHost None exSpec exSup [] = (Inr i, s1, t1) \<and>
     StopWithSnapshot exHost exEngine ''sb-1'' s1 t1 = (Inr snap, s2, t1 @ u) \<and>
     LoadSnapshot exHost snap (in_Spec i) s2 (t1 @ u) = (Inr j, s3, t1 @ u @ v) \<and> Get s3 ''sb-1'' = Some j \<and>
     in_Spec j = in_Spec i"
proof -
  obtain i s1 t1 where l: "Launch exHost None exSpec exSup [] = (Inr i, s1, t1)" "sup_ok s1" "limits_ok s1"
    "Get s1 ''sb-1'' = Some i" "in_Spec i = applySpecDefaults exSpec" "memTotal s1 = 512"
    using exRunning by blast
  have "applySpecDefaults (in_Spec i) = in_Spec i" "memTotal s1 < 2 ^ 63"
    unfolding l(5,6) by (simp_all add: applySpecDefaults_def)
  note rt = stop_resume_roundtrip [OF exGenerous l(2,3) this(2) l(4) this(1) list.distinct(2), of exEngine t1]
  obtain snap s2 u j s3 v where "StopWithSnapshot exHost exEngine ''sb-1'' s1 t1 = (Inr snap, s2, t1 @ u)"
    "LoadSnapshot exHost snap (in_Spec i) s2 (t1 @ u) = (Inr j, s3, t1 @ u @ v)" "Get s3 ''sb-1'' = Some j" "in_Spec j = in_Spec i"
    using rt by (elim exE conjE) (rule that, assumption+)
  with l(1) show ?thesis by blast
qed

section \<open>Snapshots without a disk\<close>

text \<open>
  A snapshot of a running VM cannot be restored. \<open>Create\<close> captures memory and device state,
  asks for the VM to be resumed and returns a snapshot with no disk; and \<open>LoadSnapshot\<close> copies
  the snapshot's disk, so on a host that cannot open a file with the empty name it fails for every
  such snapshot, whatever the specification and the state of the supervisor.
\<close>

theorem create_not_restorable:
  assumes "Create h eng i t = (Inr snap, t')" and "\<And>u. ho_op h' u (OpenRead []) \<noteq> None"
  shows "(\<exists>e s2 t2. LoadSnapshot h' snap sp s t1 = (Inl e, s2, t2)) \<and>
    t' = t @ map (\<lambda>op. (op, None)) (snapOps (snapDir h eng t) (in_ID i) @ [ResumeVM (in_ID i)])"
proof
  have d: "sf_DiskFile (ss_Paths snap) = []"
    "t' = t @ map (\<lambda>op. (op, None)) (snapOps (snapDir h eng t) (in_ID i) @ [ResumeVM (in_ID i)])"
    using assms(1) by (auto simp: Create_def Let_def ask_def snapOps_def split: option.splits)
  then show "t' = t @ map (\<lambda>op. (op, None)) (snapOps (snapDir h eng t) (in_ID i) @ [ResumeVM (in_ID i)])" by blast
  have copy: "\<exists>e t2. copyFile h' [] dst u = (Some e, t2)" for dst u
  proof -
    obtain e where "ho_op h' u (OpenRead []) = Some e" using assms(2) by blast
    then show ?thesis by (simp add: copyFile_def ask_seq.simps ask_def)
  qed
  have disk: "\<exists>e t2. restoreDisk h' cfg sid snap u = (Some e, t2)" for cfg sid u
  proof (cases "ask h' (MkdirAll (Join [oc_StateDir cfg, sid])) u")
    case (Pair r u1)
    obtain e t2 where "copyFile h' [] (Join [Join [oc_StateDir cfg, sid], ''rootfs.ext4'']) u1 = (Some e, t2)" using copy by blast
    with Pair show ?thesis by (cases r) (simp_all add: restoreDisk_def Let_def d(1))
  qed
  have run: "\<exists>e t2. restoreHost h' (sv_cfg s) snap (launchSpec h' sp t1) cid t1 = (Inl e, t2)" for cid
  proof -
    obtain e t2 where "restoreDisk h' (sv_cfg s) (ls_ID (launchSpec h' sp t1)) snap t1 = (Some e, t2)" using disk by blast
    then show ?thesis by (simp add: restoreHost_def Let_def)
  qed
  show "\<exists>e s2 t2. LoadSnapshot h' snap sp s t1 = (Inl e, s2, t2)"
  proof (cases "launchCheck s (launchSpec h' sp t1)")
    case None
    obtain q a where al: "cid_alloc (sv_cids s) = (q, a)" by fastforce
    show ?thesis
    proof (cases q)
      case (Inr cid)
      obtain e t2 where "restoreHost h' (sv_cfg s) snap (launchSpec h' sp t1) cid t1 = (Inl e, t2)" using run by blast
      with None al Inr show ?thesis by (simp add: LoadSnapshot_def Let_def)
    qed (use None al in \<open>simp add: LoadSnapshot_def Let_def\<close>)
  qed (simp add: LoadSnapshot_def Let_def)
qed

definition exInst :: Instance where
  "exInst = \<lparr>in_ID = ''sb-1'', in_CID = 3, in_PID = 4711, in_ChrootDir = [], in_SocketPath = ''/s'', in_VsockUDSPath = ''/v'',
     in_CgroupPath = ''/c'', in_CreatedAt = [], in_Spec = applySpecDefaults exSpec, in_machine = True, in_cancel = True\<rparr>"

theorem create_not_restorable_witness:
  "\<exists>snap t' e s2 t2. Create exHost exEngine exInst [] = (Inr snap, t') \<and>
     LoadSnapshot (exHost\<lparr>ho_op := \<lambda>_ op. if op = OpenRead [] then Some ''no such file'' else None\<rparr>) snap exSpec exSup [] = (Inl e, s2, t2)"
proof -
  obtain snap t' where c: "Create exHost exEngine exInst [] = (Inr snap, t')"
    by (simp add: Create_def Let_def ask_def exHost_def)
  have "ho_op (exHost\<lparr>ho_op := \<lambda>_ op. if op = OpenRead [] then Some ''no such file'' else None\<rparr>) u (OpenRead []) \<noteq> None" for u
    by simp
  from create_not_restorable [OF c this] c show ?thesis by blast
qed

end
