(* ===== verification/WarmPool.thy ===== *)
theory WarmPool
  imports Snapshots
begin

text \<open>
  The pool of pre-restored sandboxes (\<open>internal/orchestrator/pool.go\<close>): its operations as
  functions on the pool, the supervisor and the trace, and the interleaving of clients with
  the background refill goroutine as a step relation. A step is what the code does
  between two releases of the pool's mutex; loading a snapshot and terminating a sandbox are one
  step each (their own interleavings are the subject of \<open>Launches\<close>).
\<close>

section \<open>The pool\<close>

record PoolConfig =
  pc_Snapshot :: Snapshot
  pc_Spec :: LaunchSpec
  pc_Depth :: int
  pc_RefillTimeout :: int
  pc_MaxWaitTime :: int

definition poolDefaults :: "PoolConfig \<Rightarrow> PoolConfig" where
  "poolDefaults c = c\<lparr>
     pc_Depth := (if pc_Depth c < 1 then 1 else pc_Depth c),
     pc_RefillTimeout := (if pc_RefillTimeout c = 0 then 10000000000 else pc_RefillTimeout c),
     pc_MaxWaitTime := (if pc_MaxWaitTime c = 0 then 30000000000 else pc_MaxWaitTime c)\<rparr>"

text \<open>\<open>pl_refill\<close> counts the signals in the buffered channel, \<open>pl_done\<close> says that \<open>done\<close> is closed.\<close>

record Pool =
  pl_cfg :: PoolConfig
  pl_warm :: "Instance list"
  pl_refill :: nat
  pl_done :: bool

definition triggerRefill :: "Pool \<Rightarrow> Pool" where
  "triggerRefill p = (if int (pl_refill p) < pc_Depth (pl_cfg p) then p\<lparr>pl_refill := pl_refill p + 1\<rparr> else p)"

definition NewPool :: "PoolConfig \<Rightarrow> Pool" where
  "NewPool cfg0 = (let cfg = poolDefaults cfg0 in
     (triggerRefill ^^ nat (pc_Depth cfg)) \<lparr>pl_cfg = cfg, pl_warm = [], pl_refill = 0, pl_done = False\<rparr>)"

definition pool_restore :: "host \<Rightarrow> Pool \<Rightarrow> Supervisor \<Rightarrow> trace \<Rightarrow> (sup_error, Instance) result \<times> Supervisor \<times> trace" where
  "pool_restore h p s t = LoadSnapshot h (pc_Snapshot (pl_cfg p)) (pc_Spec (pl_cfg p)) s t"

definition Acquire :: "host \<Rightarrow> Pool \<Rightarrow> Supervisor \<Rightarrow> trace \<Rightarrow> (sup_error, Instance) result \<times> Pool \<times> Supervisor \<times> trace" where
  "Acquire h p s t =
     (if pl_warm p \<noteq> []
      then (Inr (last (pl_warm p)), triggerRefill (p\<lparr>pl_warm := butlast (pl_warm p)\<rparr>), s, t)
      else case pool_restore h p s t of (r, s', t') \<Rightarrow> (r, p, s', t'))"

definition Release :: "host \<Rightarrow> Instance \<Rightarrow> Pool \<Rightarrow> Supervisor \<Rightarrow> trace \<Rightarrow> sup_error option \<times> Pool \<times> Supervisor \<times> trace" where
  "Release h i p s t =
     (if int (length (pl_warm p)) < pc_Depth (pl_cfg p)
      then (None, p\<lparr>pl_warm := pl_warm p @ [i]\<rparr>, s, t)
      else case Terminate h (in_ID i) s t of (r, s', t') \<Rightarrow> (r, p, s', t'))"

fun terminate_all :: "host \<Rightarrow> Instance list \<Rightarrow> Supervisor \<Rightarrow> trace \<Rightarrow> Supervisor \<times> trace" where
  "terminate_all h [] s t = (s, t)"
| "terminate_all h (i # is) s t = (case Terminate h (in_ID i) s t of (_, s', t') \<Rightarrow> terminate_all h is s' t')"

text \<open>Closing the channel \<open>done\<close> a second time panics (\<open>None\<close>).\<close>

definition Close :: "host \<Rightarrow> Pool \<Rightarrow> Supervisor \<Rightarrow> trace \<Rightarrow> (Pool \<times> Supervisor \<times> trace) option" where
  "Close h p s t =
     (if pl_done p then None
      else case terminate_all h (pl_warm p) s t of
        (s', t') \<Rightarrow> Some (p\<lparr>pl_warm := [], pl_done := True\<rparr>, s', t'))"

definition Depth :: "Pool \<Rightarrow> int" where
  "Depth p = int (length (pl_warm p))"

definition pool_append :: "Instance \<Rightarrow> Pool \<Rightarrow> Pool" where
  "pool_append i p = p\<lparr>pl_warm := pl_warm p @ [i]\<rparr>"

definition refillOne :: "host \<Rightarrow> Pool \<Rightarrow> Supervisor \<Rightarrow> trace \<Rightarrow> sup_error option \<times> Pool \<times> Supervisor \<times> trace" where
  "refillOne h p s t = (case pool_restore h p s t of
      (Inl e, s', t') \<Rightarrow> (Some e, p, s', t')
    | (Inr i, s', t') \<Rightarrow> (None, pool_append i p, s', t'))"

text \<open>
  One turn of the refill loop with nothing else running: \<open>need\<close> restores, each
  failure followed by a pause of two seconds.
\<close>

fun refill_turn :: "host \<Rightarrow> nat \<Rightarrow> Pool \<Rightarrow> Supervisor \<Rightarrow> trace \<Rightarrow> Pool \<times> Supervisor \<times> trace" where
  "refill_turn h 0 p s t = (p, s, t)"
| "refill_turn h (Suc n) p s t = (case refillOne h p s t of
      (None, p', s', t') \<Rightarrow> refill_turn h n p' s' t'
    | (Some e, p', s', t') \<Rightarrow> refill_turn h n p' s' (snd (ask h (Sleep 2000000000) t')))"

definition pool_need :: "Pool \<Rightarrow> nat" where
  "pool_need p = nat (pc_Depth (pl_cfg p) - Depth p)"

section \<open>Clients and the refill goroutine\<close>

datatype refill_loop =
    Waiting
  | Filling nat
  | Restored Instance nat
  | Backoff nat
  | Exited

record pool_state =
  ps_pool :: Pool
  ps_sup :: Supervisor
  ps_trace :: trace
  ps_loop :: refill_loop
  ps_owned :: "Instance list"

inductive pool_step :: "host \<Rightarrow> pool_state \<Rightarrow> pool_state \<Rightarrow> bool" for h where
  acquire: "Acquire h (ps_pool x) (ps_sup x) (ps_trace x) = (Inr i, p, s, t) \<Longrightarrow>
    pool_step h x (x\<lparr>ps_pool := p, ps_sup := s, ps_trace := t, ps_owned := i # ps_owned x\<rparr>)"
| acquire_fails: "Acquire h (ps_pool x) (ps_sup x) (ps_trace x) = (Inl e, p, s, t) \<Longrightarrow>
    pool_step h x (x\<lparr>ps_pool := p, ps_sup := s, ps_trace := t\<rparr>)"
| release: "i \<in> set (ps_owned x) \<Longrightarrow> Release h i (ps_pool x) (ps_sup x) (ps_trace x) = (r, p, s, t) \<Longrightarrow>
    pool_step h x (x\<lparr>ps_pool := p, ps_sup := s, ps_trace := t, ps_owned := remove1 i (ps_owned x)\<rparr>)"
| terminate: "i \<in> set (ps_owned x) \<Longrightarrow> Terminate h (in_ID i) (ps_sup x) (ps_trace x) = (r, s, t) \<Longrightarrow>
    pool_step h x (x\<lparr>ps_sup := s, ps_trace := t, ps_owned := remove1 i (ps_owned x)\<rparr>)"
| close: "Close h (ps_pool x) (ps_sup x) (ps_trace x) = Some (p, s, t) \<Longrightarrow>
    pool_step h x (x\<lparr>ps_pool := p, ps_sup := s, ps_trace := t\<rparr>)"
| loop_signal: "ps_loop x = Waiting \<Longrightarrow> 0 < pl_refill (ps_pool x) \<Longrightarrow>
    pool_step h x (x\<lparr>ps_pool := (ps_pool x)\<lparr>pl_refill := pl_refill (ps_pool x) - 1\<rparr>,
      ps_loop := Filling (pool_need (ps_pool x))\<rparr>)"
| loop_done: "ps_loop x = Waiting \<Longrightarrow> pl_done (ps_pool x) \<Longrightarrow> pool_step h x (x\<lparr>ps_loop := Exited\<rparr>)"
| filled: "ps_loop x = Filling 0 \<Longrightarrow> pool_step h x (x\<lparr>ps_loop := Waiting\<rparr>)"
| restored: "ps_loop x = Filling (Suc n) \<Longrightarrow> pool_restore h (ps_pool x) (ps_sup x) (ps_trace x) = (Inr i, s, t) \<Longrightarrow>
    pool_step h x (x\<lparr>ps_sup := s, ps_trace := t, ps_loop := Restored i n\<rparr>)"
| append: "ps_loop x = Restored i n \<Longrightarrow>
    pool_step h x (x\<lparr>ps_pool := pool_append i (ps_pool x), ps_loop := Filling n\<rparr>)"
| restore_fails: "ps_loop x = Filling (Suc n) \<Longrightarrow> pool_restore h (ps_pool x) (ps_sup x) (ps_trace x) = (Inl e, s, t) \<Longrightarrow>
    pool_step h x (x\<lparr>ps_sup := s, ps_trace := t, ps_loop := Backoff n\<rparr>)"
| backoff: "ps_loop x = Backoff n \<Longrightarrow>
    pool_step h x (x\<lparr>ps_trace := snd (ask h (Sleep 2000000000) (ps_trace x)), ps_loop := Filling n\<rparr>)"
| backoff_done: "ps_loop x = Backoff n \<Longrightarrow> pl_done (ps_pool x) \<Longrightarrow> pool_step h x (x\<lparr>ps_loop := Exited\<rparr>)"

definition pool_start :: "PoolConfig \<Rightarrow> Supervisor \<Rightarrow> trace \<Rightarrow> pool_state" where
  "pool_start cfg s t = \<lparr>ps_pool = NewPool cfg, ps_sup = s, ps_trace = t, ps_loop = Waiting, ps_owned = []\<rparr>"

inductive pool_reach :: "host \<Rightarrow> pool_state \<Rightarrow> pool_state \<Rightarrow> bool" for h x where
  reach_refl: "pool_reach h x x"
| reach_step: "pool_reach h x y \<Longrightarrow> pool_step h y z \<Longrightarrow> pool_reach h x z"

section \<open>The invariant\<close>

text \<open>
  The instances someone is responsible for: those of the clients, the one the refill loop has restored
  and not yet filed, and the warm ones. \<open>tracked\<close>: no two share an id, and the supervisor knows each.
\<close>

definition loop_inst :: "refill_loop \<Rightarrow> Instance list" where
  "loop_inst l = (case l of Restored i n \<Rightarrow> [i] | _ \<Rightarrow> [])"

definition loop_pending :: "refill_loop \<Rightarrow> nat" where
  "loop_pending l = (case l of Filling n \<Rightarrow> n | Restored i n \<Rightarrow> Suc n | Backoff n \<Rightarrow> n | _ \<Rightarrow> 0)"

definition held :: "pool_state \<Rightarrow> Instance list" where
  "held x = ps_owned x @ loop_inst (ps_loop x) @ pl_warm (ps_pool x)"

definition tracked :: "Supervisor \<Rightarrow> Instance list \<Rightarrow> bool" where
  "tracked s is \<longleftrightarrow> distinct (map in_ID is) \<and> (\<forall>i \<in> set is. Get s (in_ID i) = Some i)"

definition pool_bounds :: "Pool \<Rightarrow> nat \<Rightarrow> bool" where
  "pool_bounds p n \<longleftrightarrow> 1 \<le> pc_Depth (pl_cfg p) \<and> int (pl_refill p) \<le> pc_Depth (pl_cfg p) \<and>
     int n \<le> pc_Depth (pl_cfg p) \<and> Depth p + int n \<le> 2 * pc_Depth (pl_cfg p)"

definition pool_inv :: "pool_state \<Rightarrow> bool" where
  "pool_inv x \<longleftrightarrow> sup_ok (ps_sup x) \<and> tracked (ps_sup x) (held x) \<and> pool_bounds (ps_pool x) (loop_pending (ps_loop x))"

lemma tracked_mid: "tracked s (xs @ i # ys) = tracked s (i # xs @ ys)"
  by (auto simp: tracked_def)

lemma tracked_ConsD: "tracked s (i # is) \<Longrightarrow> tracked s is"
  by (simp add: tracked_def)

lemma loop_simps [simp]:
  "loop_inst Waiting = []" "loop_inst Exited = []" "loop_inst (Filling n) = []" "loop_inst (Backoff n) = []"
  "loop_inst (Restored i n) = [i]" "loop_pending Waiting = 0" "loop_pending Exited = 0" "loop_pending (Filling n) = n"
  "loop_pending (Backoff n) = n" "loop_pending (Restored i n) = Suc n"
  by (simp_all add: loop_inst_def loop_pending_def)

lemma restore_tracked:
  assumes "sup_ok s" "tracked s is" "pool_restore h p s t = (r, s', t')"
  shows "sup_ok s'" and "case r of Inr i \<Rightarrow> tracked s' (i # is) | Inl e \<Rightarrow> tracked s' is"
proof -
  let ?sp = "launchSpec h (pc_Spec (pl_cfg p)) t"
  have run: "launchWith (restoreHost h (sv_cfg s) (pc_Snapshot (pl_cfg p))) h ?sp s t = (r, s', t')"
    using assms(3) by (simp add: pool_restore_def LoadSnapshot_launchWith)
  show "sup_ok s'" by (rule restore_launch.launch_sup_ok [OF assms(1) run])
  show "case r of Inr i \<Rightarrow> tracked s' (i # is) | Inl e \<Rightarrow> tracked s' is"
  proof (cases r)
    case (Inl e)
    with restore_launch.launch_Inl [OF assms(1)] run have "sv_inst s' = sv_inst s" by blast
    with Inl assms(2) show ?thesis by (simp add: tracked_def Get_def)
  next
    case (Inr i)
    obtain cid a where l: "map_of (sv_inst s) (ls_ID ?sp) = None" "inst_wf (sv_cfg s) ?sp cid i"
      "s' = s\<lparr>sv_inst := sv_inst s @ [(ls_ID ?sp, i)], sv_cids := a\<rparr>"
      using restore_launch.launch_Inr [OF assms(1)] run Inr by blast
    have id: "in_ID i = ls_ID ?sp" using l(2) by (simp add: inst_wf_def)
    have new: "in_ID i \<notin> in_ID ` set is"
    proof
      assume "in_ID i \<in> in_ID ` set is"
      then obtain j where "j \<in> set is" "in_ID j = in_ID i" by auto
      then have "Get s (in_ID i) = Some j" using assms(2) by (auto simp: tracked_def)
      with l(1) id show False by (simp add: Get_def)
    qed
    with Inr assms(2) l id show ?thesis by (auto simp: tracked_def Get_def map_add_def)
  qed
qed

lemma Terminate_tracked:
  assumes "sup_ok s" "tracked s (i # is)" "Terminate h (in_ID i) s t = (r, s', t')"
  shows "sup_ok s'" and "tracked s' is" and "r = None"
proof -
  show "sup_ok s'" by (rule Terminate_sup_ok [OF assms(1,3)])
  have i: "map_of (sv_inst s) (in_ID i) = Some i" using assms(2) by (simp add: tracked_def Get_def)
  then show "r = None" using assms(3) by (simp add: Terminate_def)
  have s': "sv_inst s' = inst_delete (in_ID i) (sv_inst s)" using i assms(3) by (auto simp: Terminate_def)
  have "Get s' (in_ID j) = Some j" if "j \<in> set is" for j
  proof -
    have "in_ID i \<notin> in_ID ` set is" "Get s (in_ID j) = Some j" using that assms(2) by (simp_all add: tracked_def)
    moreover from this(1) that have "in_ID j \<noteq> in_ID i" by (metis imageI)
    ultimately show ?thesis by (simp add: Get_def s' map_of_inst_delete)
  qed
  with assms(2) show "tracked s' is" by (simp add: tracked_def)
qed

lemma terminate_all_tracked:
  "sup_ok s \<Longrightarrow> tracked s (xs @ ys) \<Longrightarrow> terminate_all h ys s t = (s', t') \<Longrightarrow> sup_ok s' \<and> tracked s' xs"
proof (induction h ys s t arbitrary: s' t' rule: terminate_all.induct)
  case (2 h i ys s t)
  obtain r s1 t1 where t1: "Terminate h (in_ID i) s t = (r, s1, t1)" by (metis prod_cases3)
  have "tracked s (i # xs @ ys)" using 2(3) by (simp add: tracked_mid)
  from Terminate_tracked [OF 2(2) this t1] 2(1) [OF t1 [symmetric] refl] 2(4) t1 show ?case by simp
qed simp

lemma tracked_remove1:
  assumes "i \<in> set xs" "tracked s (xs @ ys)"
  shows "tracked s (i # remove1 i xs @ ys)"
proof -
  obtain as bs where xs: "xs = as @ i # bs" "i \<notin> set as" using split_list_first [OF assms(1)] by blast
  then show ?thesis using assms(2) tracked_mid [of s as i "bs @ ys"] by (simp add: remove1_append)
qed

lemma triggerRefill_fields [simp]:
  "pl_cfg (triggerRefill p) = pl_cfg p" "pl_warm (triggerRefill p) = pl_warm p" "pl_done (triggerRefill p) = pl_done p"
  by (simp_all add: triggerRefill_def)

lemma triggerRefill_bounds: "pool_bounds p n \<Longrightarrow> pool_bounds (triggerRefill p) n"
  by (simp add: triggerRefill_def pool_bounds_def Depth_def)

lemma Acquire_inv:
  assumes "sup_ok s" "tracked s (xs @ pl_warm p)" "pool_bounds p n" "Acquire h p s t = (r, p', s', t')"
  shows "sup_ok s' \<and> pool_bounds p' n \<and> (case r of Inr i \<Rightarrow> tracked s' (i # xs @ pl_warm p') | Inl e \<Rightarrow> tracked s' (xs @ pl_warm p'))"
proof (cases "pl_warm p = []")
  case True
  then have a: "pool_restore h p s t = (r, s', t')" "p' = p"
    using assms(4) by (auto simp: Acquire_def split: prod.splits)
  show ?thesis using restore_tracked [OF assms(1,2) a(1)] assms(3) a(2) by (cases r) auto
next
  case False
  then have a: "r = Inr (last (pl_warm p))" "p' = triggerRefill (p\<lparr>pl_warm := butlast (pl_warm p)\<rparr>)" "s' = s"
    using assms(4) by (auto simp: Acquire_def)
  have "tracked s (xs @ butlast (pl_warm p) @ [last (pl_warm p)])" using assms(2) False by simp
  then have "tracked s (last (pl_warm p) # xs @ butlast (pl_warm p))"
    using tracked_mid [of s "xs @ butlast (pl_warm p)" "last (pl_warm p)" "[]"] by simp
  moreover have "pool_bounds (p\<lparr>pl_warm := butlast (pl_warm p)\<rparr>) n"
    using assms(3) by (auto simp: pool_bounds_def Depth_def)
  ultimately show ?thesis using a assms(1) triggerRefill_bounds by simp
qed

lemma Release_inv:
  assumes "sup_ok s" "tracked s (i # xs @ pl_warm p)" "pool_bounds p n" "Release h i p s t = (r, p', s', t')"
  shows "sup_ok s' \<and> pool_bounds p' n \<and> tracked s' (xs @ pl_warm p') \<and> r = None"
proof (cases "int (length (pl_warm p)) < pc_Depth (pl_cfg p)")
  case True
  then have "r = None" "p' = p\<lparr>pl_warm := pl_warm p @ [i]\<rparr>" "s' = s" using assms(4) by (auto simp: Release_def)
  moreover have "tracked s (xs @ pl_warm p @ [i])"
    using assms(2) tracked_mid [of s "xs @ pl_warm p" i "[]"] by simp
  ultimately show ?thesis using True assms(1,3) by (simp add: pool_bounds_def Depth_def)
next
  case False
  then have "p' = p" "Terminate h (in_ID i) s t = (r, s', t')" using assms(4) by (auto simp: Release_def split: prod.splits)
  with Terminate_tracked [OF assms(1,2)] assms(3) show ?thesis by simp
qed

lemma Close_inv:
  assumes "sup_ok s" "tracked s (xs @ pl_warm p)" "pool_bounds p n" "Close h p s t = Some (p', s', t')"
  shows "sup_ok s' \<and> pool_bounds p' n \<and> tracked s' xs \<and> pl_warm p' = []"
proof -
  have "p' = p\<lparr>pl_warm := [], pl_done := True\<rparr>" "terminate_all h (pl_warm p) s t = (s', t')"
    using assms(4) by (auto simp: Close_def split: if_splits prod.splits)
  with terminate_all_tracked [OF assms(1,2)] assms(3) show ?thesis by (auto simp: pool_bounds_def Depth_def)
qed

lemma pool_invD:
  assumes "pool_inv x"
  shows "sup_ok (ps_sup x)" and "tracked (ps_sup x) ((ps_owned x @ loop_inst (ps_loop x)) @ pl_warm (ps_pool x))"
    and "pool_bounds (ps_pool x) (loop_pending (ps_loop x))"
  using assms by (simp_all add: pool_inv_def held_def)

lemma pool_step_inv: "pool_step h x y \<Longrightarrow> pool_inv x \<Longrightarrow> pool_inv y"
proof (induction rule: pool_step.induct)
  case (acquire x i p s t)
  from Acquire_inv [OF pool_invD [OF acquire(2)] acquire(1)] show ?case by (simp add: pool_inv_def held_def)
next
  case (acquire_fails x e p s t)
  from Acquire_inv [OF pool_invD [OF acquire_fails(2)] acquire_fails(1)] show ?case by (simp add: pool_inv_def held_def)
next
  case (release i x r p s t)
  have "tracked (ps_sup x) (i # (remove1 i (ps_owned x) @ loop_inst (ps_loop x)) @ pl_warm (ps_pool x))"
    using tracked_remove1 [OF release(1)] pool_invD(2) [OF release(3)] by simp
  from Release_inv [OF pool_invD(1) [OF release(3)] this pool_invD(3) [OF release(3)] release(2)]
  show ?case by (simp add: pool_inv_def held_def)
next
  case (terminate i x r s t)
  have "tracked (ps_sup x) (i # remove1 i (ps_owned x) @ loop_inst (ps_loop x) @ pl_warm (ps_pool x))"
    using tracked_remove1 [OF terminate(1)] pool_invD(2) [OF terminate(3)] by simp
  from Terminate_tracked [OF pool_invD(1) [OF terminate(3)] this terminate(2)] pool_invD(3) [OF terminate(3)]
  show ?case by (simp add: pool_inv_def held_def)
next
  case (close x p s t)
  from Close_inv [OF pool_invD [OF close(2)] close(1)] show ?case by (simp add: pool_inv_def held_def)
next
  case (loop_signal x)
  then show ?case by (auto simp: pool_inv_def held_def pool_bounds_def Depth_def pool_need_def)
next
  case (restored x n i s t)
  from restore_tracked [OF pool_invD(1,2) [OF restored(3)] restored(2)] restored(1) pool_invD(3) [OF restored(3)]
  show ?case by (simp add: pool_inv_def held_def tracked_mid)
next
  case (append x i n)
  have "tracked (ps_sup x) (ps_owned x @ pl_warm (ps_pool x) @ [i])"
    using append tracked_mid [of "ps_sup x" "ps_owned x @ pl_warm (ps_pool x)" i "[]"] by (simp add: pool_inv_def held_def tracked_mid)
  with append show ?case by (auto simp: pool_inv_def held_def pool_append_def pool_bounds_def Depth_def)
next
  case (restore_fails x n e s t)
  from restore_tracked [OF pool_invD(1,2) [OF restore_fails(3)] restore_fails(2)] restore_fails(1) pool_invD(3) [OF restore_fails(3)]
  show ?case by (simp add: pool_inv_def held_def pool_bounds_def)
qed (auto simp: pool_inv_def held_def pool_bounds_def)

lemma NewPool_fields:
  "pl_cfg (NewPool cfg) = poolDefaults cfg" "pl_warm (NewPool cfg) = []" "\<not> pl_done (NewPool cfg)"
  "int (pl_refill (NewPool cfg)) = pc_Depth (poolDefaults cfg)"
proof -
  let ?p = "\<lparr>pl_cfg = poolDefaults cfg, pl_warm = [], pl_refill = 0, pl_done = False\<rparr>"
  have "int n \<le> pc_Depth (poolDefaults cfg) \<Longrightarrow> (triggerRefill ^^ n) ?p = ?p\<lparr>pl_refill := n\<rparr>" for n
    by (induction n) (simp_all add: triggerRefill_def)
  from this [of "nat (pc_Depth (poolDefaults cfg))"]
  have n: "NewPool cfg = ?p\<lparr>pl_refill := nat (pc_Depth (poolDefaults cfg))\<rparr>" "1 \<le> pc_Depth (poolDefaults cfg)"
    by (simp_all add: NewPool_def Let_def poolDefaults_def)
  then show "pl_cfg (NewPool cfg) = poolDefaults cfg" "pl_warm (NewPool cfg) = []" "\<not> pl_done (NewPool cfg)"
    "int (pl_refill (NewPool cfg)) = pc_Depth (poolDefaults cfg)" by simp_all
qed

lemma pool_reach_inv: "pool_reach h x y \<Longrightarrow> pool_inv x \<Longrightarrow> pool_inv y"
  by (induction rule: pool_reach.induct) (auto intro: pool_step_inv)

lemma pool_start_inv: "sup_ok s \<Longrightarrow> pool_inv (pool_start cfg s t)"
proof -
  have "1 \<le> pc_Depth (poolDefaults cfg)" by (simp add: poolDefaults_def)
  then show "sup_ok s \<Longrightarrow> ?thesis"
    by (simp add: pool_start_def pool_inv_def held_def tracked_def pool_bounds_def Depth_def NewPool_fields)
qed


definition exPoolCfg :: PoolConfig where
  "exPoolCfg = \<lparr>pc_Snapshot = \<lparr>ss_ID = ''snap-1'', ss_SandboxID = ''sb-0'',
       ss_Paths = \<lparr>sf_MemFile = ''/m'', sf_StateFile = ''/s'', sf_DiskFile = ''/d''\<rparr>, ss_CreatedAt = [],
       ss_GuestMemMiB = 512, ss_GuestVCPUs = 1\<rparr>,
     pc_Spec = exSpec, pc_Depth = 0, pc_RefillTimeout = 0, pc_MaxWaitTime = 0\<rparr>"

lemma exRestore: "\<exists>i s' t'. pool_restore exHost (NewPool exPoolCfg) exSup [] = (Inr i, s', t')"
proof -
  have c: "launchCheck exSup (launchSpec exHost exSpec []) = None"
    by (simp add: launchCheck_def exSup_def launchSpec_def applySpecDefaults_def exSpec_def admitLocked_def
        configDefaults_def exCfg_def usedMemMiB_def wrap64_id int64_range_def)
  have "(3::u32) \<le> 9" by simp
  then have "\<exists>c. c \<in> {ca_min (sv_cids exSup)..ca_max (sv_cids exSup)} \<and> c \<notin> ca_used (sv_cids exSup)"
    by (intro exI [of _ 3]) (simp add: exSup_def newCIDAllocator_def)
  from generous_load [OF exGenerous exSup_ok(1) c this] show ?thesis
    unfolding pool_restore_def NewPool_fields by (simp add: poolDefaults_def exPoolCfg_def)
qed


section \<open>A turn of the refill loop\<close>

text \<open>Restoring never sleeps: the only pauses are the back-offs of the loop.\<close>

definition quiet :: "host_op set" where
  "quiet = {op. \<forall>z. op \<noteq> Sleep z}"

lemma quiet_ops:
  "restoreOps cfg sid snap \<subseteq> quiet" "cgroupOps cfg sid sp \<subseteq> quiet" "set (cleanupOps cfg sid leaf paths) \<subseteq> quiet"
proof -
  have "Sleep z \<notin> set (enable_parts cur ps)" for z cur ps
    by (induction cur ps rule: enable_parts.induct) (auto simp: enableControllers_def Let_def)
  then show "cgroupOps cfg sid sp \<subseteq> quiet"
    by (auto simp: quiet_def cgroupOps_def cgroupCaps_def writeCgroup_def enableSubtreeControllers_def enableControllers_def)
qed (auto simp: quiet_def restoreOps_def copyOps_def cleanupOps_def Let_def split: if_splits)

lemma asks_quiet_boot:
  assumes "bootMachine h cfg sid ctxErr fc paths leaf t = (r, t')"
  shows "asks t t' quiet"
proof (cases r)
  case (Inr p)
  then show ?thesis using bootMachine_Inr assms by (fastforce simp: asks_def quiet_def procsWrite_def)
next
  case (Inl e)
  obtain u v where uv: "t' = t @ u @ v" "map fst v = cleanupOps cfg sid leaf paths"
    "\<forall>x \<in> set u. (\<exists>as. fst x = NewMachine fc as) \<or> fst x \<in> {StartVM sid, StopVMM sid} \<or> (\<exists>p. fst x = procsWrite leaf p)"
    using bootMachine_Inl assms Inl by meson
  have "fst ` set v \<subseteq> quiet" using quiet_ops(3) uv(2) by (metis list.set_map)
  then show ?thesis using uv(1,3) by (fastforce simp: asks_def quiet_def procsWrite_def)
qed

lemma asks_quiet_restoreHost:
  assumes "restoreHost h cfg snap sp cid t = (r, t')"
  shows "asks t t' quiet"
  using assms
proof (cases rule: restoreHost_cases)
  case (disk e)
  then show ?thesis using asks_mono [OF asks_restoreDisk quiet_ops(1)] by blast
next
  case (cgroup t1 t2 e)
  have "asks t t2 (quiet \<union> quiet)"
    by (rule asks_trans [OF asks_mono [OF asks_restoreDisk [OF cgroup(1)] quiet_ops(1)]
          asks_mono [OF asks_prepareCgroup(1) [OF cgroup(2)] quiet_ops(2)]])
  from asks_trans [OF this asks_ask_all [of t2 h "[RemoveAll (Join [oc_StateDir cfg, ls_ID sp])]"]] show ?thesis
    unfolding cgroup(4) by (rule asks_mono) (simp add: quiet_def)
next
  case (boot t1 t2 q t3)
  let ?ops = "StopVMM (ls_ID sp) # cleanupOps cfg (ls_ID sp) (cgroupLeaf cfg (ls_ID sp)) (bootPathsOf cfg (ls_ID sp))"
  have "asks t t2 (quiet \<union> quiet)"
    by (rule asks_trans [OF asks_mono [OF asks_restoreDisk [OF boot(1)] quiet_ops(1)]
          asks_mono [OF asks_prepareCgroup(1) [OF boot(2)] quiet_ops(2)]])
  from asks_trans [OF this asks_quiet_boot [OF boot(3)]] have t3: "asks t t3 quiet" by simp
  have "asks t (ask_all h ?ops t3) quiet"
    by (rule asks_mono [OF asks_trans [OF t3 asks_ask_all]]) (use quiet_ops(3) in \<open>auto simp: quiet_def\<close>)
  with t3 boot(4) show ?thesis by (auto split: sum.splits)
qed

lemma asks_quiet_restore:
  assumes "pool_restore h p s t = (r, s', t')"
  shows "asks t t' quiet"
proof (cases "t' = t \<and> isl r")
  case False
  then obtain cid t1 w where w: "restoreHost h (sv_cfg s) (pc_Snapshot (pl_cfg p)) (launchSpec h (pc_Spec (pl_cfg p)) t) cid t = (r, t1)"
    "t' = t1 @ w" "\<forall>z \<in> set w. \<exists>rec. fst z = SaveRecord rec"
    using launchWith_run assms by (metis LoadSnapshot_launchWith pool_restore_def)
  have "asks t1 t' quiet" using w(2,3) by (fastforce simp: asks_def quiet_def)
  from asks_trans [OF asks_quiet_restoreHost [OF w(1)] this] show ?thesis by simp
qed simp

definition backoffs :: "trace \<Rightarrow> nat" where
  "backoffs u = length (filter (\<lambda>z. fst z = Sleep 2000000000) u)"

lemma quiet_backoffs: "asks t (t @ u) quiet \<Longrightarrow> backoffs u = 0"
  by (auto simp: asks_def quiet_def backoffs_def filter_empty_conv)

lemma refill_turn_fills:
  "refill_turn h n p s t = (p', s', t') \<Longrightarrow>
   \<exists>u new. t' = t @ u \<and> p' = p\<lparr>pl_warm := pl_warm p @ new\<rparr> \<and> length new + backoffs u = n"
proof (induction n arbitrary: p s t)
  case 0
  then show ?case by (simp add: backoffs_def)
next
  case (Suc n)
  obtain r s1 t1 where r: "pool_restore h p s t = (r, s1, t1)" by (metis prod_cases3)
  obtain v where v: "t1 = t @ v" "backoffs v = 0"
    using asks_quiet_restore [OF r] quiet_backoffs by (auto simp: asks_def)
  show ?case
  proof (cases r)
    case (Inr i)
    then have "refill_turn h n (pool_append i p) s1 t1 = (p', s', t')"
      using Suc.prems r by (simp add: refillOne_def)
    from Suc.IH [OF this] obtain u new where "t' = t1 @ u"
      "p' = (pool_append i p)\<lparr>pl_warm := pl_warm (pool_append i p) @ new\<rparr>" "length new + backoffs u = n" by blast
    then show ?thesis using v
      by (intro exI [of _ "v @ u"] exI [of _ "i # new"]) (simp add: pool_append_def backoffs_def)
  next
    case (Inl e)
    then have "refill_turn h n p s1 (snd (ask h (Sleep 2000000000) t1)) = (p', s', t')"
      using Suc.prems r by (simp add: refillOne_def)
    from Suc.IH [OF this] obtain u new where "t' = snd (ask h (Sleep 2000000000) t1) @ u"
      "p' = p\<lparr>pl_warm := pl_warm p @ new\<rparr>" "length new + backoffs u = n" by blast
    then show ?thesis using v
      by (intro exI [of _ "v @ [(Sleep 2000000000, ho_op h t1 (Sleep 2000000000))] @ u"] exI [of _ new])
        (simp add: ask_def backoffs_def)
  qed
qed

lemma pool_reach_trans: "pool_reach h y z \<Longrightarrow> pool_reach h x y \<Longrightarrow> pool_reach h x z"
  by (induction rule: pool_reach.induct) (auto intro: reach_step)

lemma reach_first: "pool_step h x y \<Longrightarrow> pool_reach h y z \<Longrightarrow> pool_reach h x z"
  by (rule pool_reach_trans) (auto intro: pool_reach.intros)

lemma refill_turn_steps:
  "ps_loop x = Filling n \<Longrightarrow> refill_turn h n (ps_pool x) (ps_sup x) (ps_trace x) = (p, s, t) \<Longrightarrow>
   pool_reach h x (x\<lparr>ps_pool := p, ps_sup := s, ps_trace := t, ps_loop := Waiting\<rparr>)"
proof (induction n arbitrary: x)
  case 0
  have "x\<lparr>ps_pool := p, ps_sup := s, ps_trace := t, ps_loop := Waiting\<rparr> = x\<lparr>ps_loop := Waiting\<rparr>" using 0 by (cases x) simp
  with pool_step.filled [OF 0(1)] show ?case by (auto intro: reach_first pool_reach.intros)
next
  case (Suc n)
  obtain r s1 t1 where r: "pool_restore h (ps_pool x) (ps_sup x) (ps_trace x) = (r, s1, t1)" by (metis prod_cases3)
  show ?case
  proof (cases r)
    case (Inr i)
    let ?x1 = "x\<lparr>ps_sup := s1, ps_trace := t1, ps_loop := Restored i n\<rparr>"
    let ?x2 = "?x1\<lparr>ps_pool := pool_append i (ps_pool ?x1), ps_loop := Filling n\<rparr>"
    have 1: "pool_step h x ?x1" by (rule pool_step.restored [OF Suc.prems(1)]) (use r Inr in simp)
    have 2: "pool_step h ?x1 ?x2" by (rule pool_step.append) simp
    have "pool_reach h ?x2 (?x2\<lparr>ps_pool := p, ps_sup := s, ps_trace := t, ps_loop := Waiting\<rparr>)"
      by (rule Suc.IH) (use Suc.prems(2) r Inr in \<open>simp_all add: refillOne_def\<close>)
    with reach_first [OF 1 reach_first [OF 2]] show ?thesis by (cases x) simp
  next
    case (Inl e)
    let ?x1 = "x\<lparr>ps_sup := s1, ps_trace := t1, ps_loop := Backoff n\<rparr>"
    let ?x2 = "?x1\<lparr>ps_trace := snd (ask h (Sleep 2000000000) (ps_trace ?x1)), ps_loop := Filling n\<rparr>"
    have 1: "pool_step h x ?x1" by (rule pool_step.restore_fails [OF Suc.prems(1)]) (use r Inl in simp)
    have 2: "pool_step h ?x1 ?x2" by (rule pool_step.backoff) simp
    have "pool_reach h ?x2 (?x2\<lparr>ps_pool := p, ps_sup := s, ps_trace := t, ps_loop := Waiting\<rparr>)"
      by (rule Suc.IH) (use Suc.prems(2) r Inl in \<open>simp_all add: refillOne_def\<close>)
    with reach_first [OF 1 reach_first [OF 2]] show ?thesis by (cases x) simp
  qed
qed

text \<open>
  A signal is served. From any state in which the loop waits and a signal is pending, the loop
  can run on its own to the point where it waits again, one signal less; it makes exactly as many restores
  as slots were missing, pauses once for each that fails, and adds the others to the warm slots, so
  without failures the pool is then at its target depth.
\<close>

theorem refill_serves_signal:
  assumes "ps_loop x = Waiting" and "0 < pl_refill (ps_pool x)"
  shows "\<exists>y u. pool_reach h x y \<and> ps_loop y = Waiting \<and> ps_owned y = ps_owned x \<and> ps_trace y = ps_trace x @ u \<and>
    pl_refill (ps_pool y) = pl_refill (ps_pool x) - 1 \<and>
    Depth (ps_pool y) + int (backoffs u) = max (Depth (ps_pool x)) (pc_Depth (pl_cfg (ps_pool x)))"
proof -
  let ?p = "(ps_pool x)\<lparr>pl_refill := pl_refill (ps_pool x) - 1\<rparr>"
  let ?x1 = "x\<lparr>ps_pool := ?p, ps_loop := Filling (pool_need (ps_pool x))\<rparr>"
  obtain p s t where r: "refill_turn h (pool_need (ps_pool x)) ?p (ps_sup x) (ps_trace x) = (p, s, t)" by (metis prod_cases3)
  obtain u new where u: "t = ps_trace x @ u" "p = ?p\<lparr>pl_warm := pl_warm ?p @ new\<rparr>" "length new + backoffs u = pool_need (ps_pool x)"
    using refill_turn_fills [OF r] by blast
  have "pool_reach h ?x1 (?x1\<lparr>ps_pool := p, ps_sup := s, ps_trace := t, ps_loop := Waiting\<rparr>)"
    by (rule refill_turn_steps) (use r in simp_all)
  from reach_first [OF pool_step.loop_signal [OF assms] this]
  have y: "pool_reach h x (?x1\<lparr>ps_pool := p, ps_sup := s, ps_trace := t, ps_loop := Waiting\<rparr>)" .
  have "int (length new) + int (backoffs u) = int (pool_need (ps_pool x))" using u(3) by linarith
  then have d: "Depth p + int (backoffs u) = max (Depth (ps_pool x)) (pc_Depth (pl_cfg (ps_pool x)))"
    using u(2) by (auto simp: Depth_def pool_need_def max_def split: if_splits)
  show ?thesis
    by (rule exI, rule exI [of _ u], intro conjI, rule y) (use u(1,2) d in simp_all)
qed

theorem refill_serves_signal_witness:
  "\<exists>y u. pool_reach exHost (pool_start exPoolCfg exSup []) y \<and> ps_trace y = u \<and> ps_loop y = Waiting \<and>
     Depth (ps_pool y) + int (backoffs u) = 1"
proof -
  let ?x = "pool_start exPoolCfg exSup []"
  have d: "pc_Depth (poolDefaults exPoolCfg) = 1" by (simp add: poolDefaults_def exPoolCfg_def)
  have f: "ps_loop ?x = Waiting" "ps_trace ?x = []" "Depth (ps_pool ?x) = 0" "pc_Depth (pl_cfg (ps_pool ?x)) = 1"
    by (simp_all add: pool_start_def NewPool_fields d Depth_def)
  have "int (pl_refill (ps_pool ?x)) = 1" by (simp add: pool_start_def NewPool_fields d)
  then have "0 < pl_refill (ps_pool ?x)" by simp
  from refill_serves_signal [OF f(1) this, of exHost] f show ?thesis by (metis append_Nil max.commute max_def zero_le_one)
qed

section \<open>Races of the pool\<close>

lemma pool_restore_cfg: "pl_cfg p = pl_cfg q \<Longrightarrow> pool_restore h p s t = pool_restore h q s t"
  by (simp add: pool_restore_def)

lemma pool_leak:
  assumes "sup_ok s" and "pc_Depth (poolDefaults cfg) = 1" and "pool_restore h (NewPool cfg) s t = (Inr i, s1, t1)"
  shows "\<exists>x. pool_reach h (pool_start cfg s t) x \<and> pl_done (ps_pool x) \<and> ps_loop x = Exited \<and> ps_owned x = [] \<and>
    pl_warm (ps_pool x) = [i] \<and> Get (ps_sup x) (in_ID i) = Some i"
proof -
  let ?x0 = "pool_start cfg s t" and ?p = "NewPool cfg"
  have n: "pl_refill ?p = 1" "pool_need ?p = 1" using NewPool_fields [of cfg] assms(2) by (simp_all add: pool_need_def Depth_def)
  let ?x1 = "?x0\<lparr>ps_pool := ?p\<lparr>pl_refill := 0\<rparr>, ps_loop := Filling 1\<rparr>"
  have 1: "pool_step h ?x0 ?x1"
    using pool_step.loop_signal [of ?x0 h] n by (simp add: pool_start_def)
  let ?x2 = "?x1\<lparr>ps_sup := s1, ps_trace := t1, ps_loop := Restored i 0\<rparr>"
  have 2: "pool_step h ?x1 ?x2"
    by (rule pool_step.restored) (use assms(3) pool_restore_cfg [of "?p\<lparr>pl_refill := 0\<rparr>" ?p] in \<open>simp_all add: pool_start_def\<close>)
  let ?x3 = "?x2\<lparr>ps_pool := ?p\<lparr>pl_refill := 0, pl_done := True\<rparr>\<rparr>"
  have "Close h (ps_pool ?x2) (ps_sup ?x2) (ps_trace ?x2) = Some (?p\<lparr>pl_refill := 0, pl_done := True\<rparr>, s1, t1)"
    using NewPool_fields [of cfg] by (cases ?p) (simp add: Close_def)
  from pool_step.close [OF this] have 3: "pool_step h ?x2 ?x3" by (simp add: pool_start_def)
  let ?x4 = "?x3\<lparr>ps_pool := pool_append i (ps_pool ?x3), ps_loop := Filling 0\<rparr>"
  have 4: "pool_step h ?x3 ?x4" by (rule pool_step.append) simp
  have 5: "pool_step h ?x4 (?x4\<lparr>ps_loop := Waiting\<rparr>)" by (rule pool_step.filled) simp
  have 6: "pool_step h (?x4\<lparr>ps_loop := Waiting\<rparr>) (?x4\<lparr>ps_loop := Exited\<rparr>)"
    using pool_step.loop_done [of "?x4\<lparr>ps_loop := Waiting\<rparr>" h] by (simp add: pool_append_def)
  have r: "pool_reach h ?x0 (?x4\<lparr>ps_loop := Exited\<rparr>)"
    by (rule reach_first [OF 1 reach_first [OF 2 reach_first [OF 3 reach_first [OF 4 reach_first [OF 5 reach_first [OF 6 reach_refl]]]]]])
  have w: "pl_warm (ps_pool ?x4) = [i]" using NewPool_fields [of cfg] by (simp add: pool_append_def)
  have "Get s1 (in_ID i) = Some i"
    using pool_reach_inv [OF r pool_start_inv [OF assms(1)]] w by (simp add: pool_inv_def tracked_def held_def)
  then show ?thesis
    by (intro exI [of _ "?x4\<lparr>ps_loop := Exited\<rparr>"] conjI r) (use w in \<open>simp_all add: pool_append_def pool_start_def\<close>)
qed

lemma pool_overfill:
  assumes "sup_ok s" and "pc_Depth (poolDefaults cfg) = 1"
    and "pool_restore h (NewPool cfg) s t = (Inr i, s1, t1)" and "pool_restore h (NewPool cfg) s1 t1 = (Inr j, s2, t2)"
  shows "\<exists>x. pool_reach h (pool_start cfg s t) x \<and> Depth (ps_pool x) = 2"
proof -
  let ?x0 = "pool_start cfg s t" and ?p = "NewPool cfg"
  have n: "pl_refill ?p = 1" "pool_need ?p = 1" using NewPool_fields [of cfg] assms(2) by (simp_all add: pool_need_def Depth_def)
  let ?y1 = "?x0\<lparr>ps_sup := s1, ps_trace := t1, ps_owned := [i]\<rparr>"
  have "Acquire h (ps_pool ?x0) (ps_sup ?x0) (ps_trace ?x0) = (Inr i, ?p, s1, t1)"
    using NewPool_fields [of cfg] assms(3) by (simp add: Acquire_def pool_start_def)
  from pool_step.acquire [OF this] have 1: "pool_step h ?x0 ?y1" by (simp add: pool_start_def)
  let ?y2 = "?y1\<lparr>ps_pool := ?p\<lparr>pl_refill := 0\<rparr>, ps_loop := Filling 1\<rparr>"
  have 2: "pool_step h ?y1 ?y2" using pool_step.loop_signal [of ?y1 h] n by (simp add: pool_start_def)
  let ?y3 = "?y2\<lparr>ps_pool := ?p\<lparr>pl_refill := 0, pl_warm := [i]\<rparr>, ps_owned := []\<rparr>"
  have "Release h i (ps_pool ?y2) (ps_sup ?y2) (ps_trace ?y2) = (None, ?p\<lparr>pl_refill := 0, pl_warm := [i]\<rparr>, s1, t1)"
    using NewPool_fields [of cfg] assms(2) by (cases ?p) (simp add: Release_def)
  from pool_step.release [OF _ this] have 3: "pool_step h ?y2 ?y3" by (simp add: pool_start_def)
  let ?y4 = "?y3\<lparr>ps_sup := s2, ps_trace := t2, ps_loop := Restored j 0\<rparr>"
  have 4: "pool_step h ?y3 ?y4"
    by (rule pool_step.restored) (use assms(4) pool_restore_cfg [of "?p\<lparr>pl_refill := 0, pl_warm := [i]\<rparr>" ?p] in simp_all)
  have 5: "pool_step h ?y4 (?y4\<lparr>ps_pool := pool_append j (ps_pool ?y4), ps_loop := Filling 0\<rparr>)" by (rule pool_step.append) simp
  from reach_first [OF 1 reach_first [OF 2 reach_first [OF 3 reach_first [OF 4 reach_first [OF 5 reach_refl]]]]]
  show ?thesis
    by (intro exI conjI, assumption) (simp add: pool_append_def Depth_def)
qed

text \<open>
  C26: Two things the comments rule out. If restores succeed, a pool of depth one can end up closed, its
  loop gone, with a warm sandbox that the supervisor still runs and nobody owns: the loop files what it
  was restoring when \<open>Close\<close> drained the pool. And it can hold two warm sandboxes: the number of missing
  slots is computed once and \<open>Release\<close> may fill one meanwhile. Closing a closed pool panics.
\<close>

theorem pool_races:
  assumes "sup_ok s" and "pc_Depth (poolDefaults cfg) = 1"
    and "pool_restore h (NewPool cfg) s t = (Inr i, s1, t1)" and "pool_restore h (NewPool cfg) s1 t1 = (Inr j, s2, t2)"
  shows "(\<exists>x. pool_reach h (pool_start cfg s t) x \<and> pl_done (ps_pool x) \<and> ps_loop x = Exited \<and> ps_owned x = [] \<and>
      pl_warm (ps_pool x) = [i] \<and> Get (ps_sup x) (in_ID i) = Some i) \<and>
    (\<exists>x. pool_reach h (pool_start cfg s t) x \<and> Depth (ps_pool x) = 2) \<and>
    (\<forall>p s t. pl_done p \<longrightarrow> Close h p s t = None)"
  using pool_leak [OF assms(1-3)] pool_overfill [OF assms] by (simp add: Close_def)

definition exHost2 :: host where
  "exHost2 = exHost\<lparr>ho_rand := \<lambda>t. if t = [] then ''aa'' else ''bb''\<rparr>"

definition exPoolCfg2 :: PoolConfig where
  "exPoolCfg2 = exPoolCfg\<lparr>pc_Spec := exSpec\<lparr>ls_ID := []\<rparr>\<rparr>"

lemma exRestores:
  "\<exists>i s1 t1 j s2 t2. pool_restore exHost2 (NewPool exPoolCfg2) exSup [] = (Inr i, s1, t1) \<and>
     pool_restore exHost2 (NewPool exPoolCfg2) s1 t1 = (Inr j, s2, t2)"
proof -
  let ?raw = "exSpec\<lparr>ls_ID := []\<rparr>" and ?snap = "pc_Snapshot exPoolCfg"
  have g: "generous exHost2" by (simp add: generous_def willing_def exHost2_def exHost_def)
  have eq: "pool_restore exHost2 (NewPool exPoolCfg2) s t = LoadSnapshot exHost2 ?snap ?raw s t" for s t
    by (simp add: pool_restore_def NewPool_fields poolDefaults_def exPoolCfg2_def)
  let ?sp = "\<lambda>k. \<lparr>ls_ID = ''sb-'' @ k, ls_VCPUs = 1, ls_MemMiB = 512, ls_CPUPercent = 100, ls_PidsMax = 128\<rparr>"
  have sp: "launchSpec exHost2 ?raw t = ?sp (if t = [] then ''aa'' else ''bb'')" for t
    by (simp add: launchSpec_def applySpecDefaults_def exSpec_def exHost2_def Let_def)
  have c: "launchCheck exSup (launchSpec exHost2 ?raw []) = None"
    by (simp add: sp launchCheck_def exSup_def admitLocked_def configDefaults_def exCfg_def usedMemMiB_def wrap64_id int64_range_def)
  have le: "(3::u32) \<le> 9" "(4::u32) \<le> 9" "(3::u32) \<le> 4" by simp_all
  have "\<exists>c. c \<in> {ca_min (sv_cids exSup)..ca_max (sv_cids exSup)} \<and> c \<notin> ca_used (sv_cids exSup)"
    by (intro exI [of _ 3]) (simp add: exSup_def newCIDAllocator_def le)
  from generous_load [OF g exSup_ok(1) c this] obtain i s1 u where l: "LoadSnapshot exHost2 ?snap ?raw exSup [] = (Inr i, s1, [] @ u)" by blast
  have ok1: "sup_ok s1"
    using restore_launch.launch_sup_ok [OF exSup_ok(1)] l unfolding LoadSnapshot_launchWith by blast
  have "u \<noteq> []" using LoadSnapshot_Inr [OF exSup_ok(1) l] by auto
  moreover obtain a where "s1 = exSup\<lparr>sv_inst := [(''sb-aa'', i)], sv_cids := a\<rparr>" "in_Spec i = ?sp ''aa''"
    using LoadSnapshot_Inr [OF exSup_ok(1) l] sp [of "[]"] by (auto simp: inst_wf_def exSup_def)
  ultimately have s1: "s1 = exSup\<lparr>sv_inst := [(''sb-aa'', i)], sv_cids := a\<rparr>" "in_Spec i = ?sp ''aa''" "u \<noteq> []" by blast+
  have "ca_used a = {in_CID i}" using ok1 s1(1) by (simp add: sup_ok_def)
  moreover have "ca_min a = 3" "ca_max a = 9"
  proof -
    obtain cid b where "cid_alloc (sv_cids exSup) = (Inr cid, b)" "s1 = exSup\<lparr>sv_inst := sv_inst exSup @
        [(ls_ID (launchSpec exHost2 ?raw []), i)], sv_cids := b\<rparr>"
      using restore_launch.launch_Inr [OF exSup_ok(1) l [unfolded LoadSnapshot_launchWith]] by blast
    then have "cid_alloc (sv_cids exSup) = (Inr cid, a)" using s1(1) by (metis Supervisor.select_convs(4) Supervisor.simps(4) Supervisor.surjective Supervisor.update_convs(4))
    moreover have "cid_ok (sv_cids exSup)" using exSup_ok(1) by (simp add: sup_ok_def)
    ultimately have "{ca_min a..ca_max a} = {ca_min (sv_cids exSup)..ca_max (sv_cids exSup)}" using cid_pool.alloc_Inr by blast
    then show "ca_min a = 3" "ca_max a = 9" by (auto simp: exSup_def newCIDAllocator_def Icc_eq_Icc le)
  qed
  ultimately have free: "\<exists>c. c \<in> {ca_min (sv_cids s1)..ca_max (sv_cids s1)} \<and> c \<notin> ca_used (sv_cids s1)"
    using le by (cases "in_CID i = 3") (auto simp: s1(1) intro: exI [of _ 3] exI [of _ 4])
  have c1: "launchCheck s1 (launchSpec exHost2 ?raw u) = None"
    using s1 by (simp add: sp launchCheck_def admitLocked_def exSup_def configDefaults_def exCfg_def usedMemMiB_def wrap64_id int64_range_def)
  from generous_load [OF g ok1 c1 free] obtain j s2 v where "LoadSnapshot exHost2 ?snap ?raw s1 u = (Inr j, s2, u @ v)" by blast
  with l show ?thesis unfolding eq by auto
qed

theorem pool_races_witness:
  "\<exists>x y i. pool_reach exHost2 (pool_start exPoolCfg2 exSup []) x \<and> pl_done (ps_pool x) \<and> pl_warm (ps_pool x) = [i] \<and>
     pool_reach exHost2 (pool_start exPoolCfg2 exSup []) y \<and> Depth (ps_pool y) = 2"
proof -
  obtain i s1 t1 j s2 t2 where r: "pool_restore exHost2 (NewPool exPoolCfg2) exSup [] = (Inr i, s1, t1)"
    "pool_restore exHost2 (NewPool exPoolCfg2) s1 t1 = (Inr j, s2, t2)" using exRestores by blast
  have "pc_Depth (poolDefaults exPoolCfg2) = 1" by (simp add: poolDefaults_def exPoolCfg2_def exPoolCfg_def)
  from pool_races [OF exSup_ok(1) this r] show ?thesis by blast
qed

end
