(* ===== verification/Regex.thy ===== *)
theory Regex
  imports Json
begin

text \<open>
  The part of Go's \<open>regexp\<close> (RE2) that the classifier of \<open>internal/hitl/gate.go\<close> uses: a
  parser of the pattern syntax, the matching relation, and an executable matcher, with the
  proof that the matcher decides the relation. Matching is on bytes. The patterns of the classifier
  take in a multi-byte rune only through \<open>\S\<close> and \<open>.\<close> under a repetition, and what follows such a
  repetition always starts at an ASCII byte, so matching bytes and matching runes agree on them.
\<close>

section \<open>Syntax\<close>

datatype cls = Lit char | AnyChar | Space | NotSpace | Ranges "(char \<times> char) list"

datatype re =
    REmpty
  | RChr cls
  | RBound
  | RSeq re re
  | RAlt re re
  | RStar re

definition is_space :: "char \<Rightarrow> bool" where
  "is_space c \<longleftrightarrow> c = CHR '' '' \<or> c = CHR 0x09 \<or> c = CHR 0x0A \<or> c = CHR 0x0C \<or> c = CHR 0x0D"

definition is_word :: "char \<Rightarrow> bool" where
  "is_word c \<longleftrightarrow> (48 \<le> code c \<and> code c \<le> 57) \<or> (65 \<le> code c \<and> code c \<le> 90) \<or> (97 \<le> code c \<and> code c \<le> 122) \<or> code c = 95"

fun cls_mem :: "cls \<Rightarrow> char \<Rightarrow> bool" where
  "cls_mem (Lit d) c \<longleftrightarrow> c = d"
| "cls_mem AnyChar c \<longleftrightarrow> c \<noteq> CHR 0x0A"
| "cls_mem Space c \<longleftrightarrow> is_space c"
| "cls_mem NotSpace c \<longleftrightarrow> \<not> is_space c"
| "cls_mem (Ranges rs) c \<longleftrightarrow> list_ex (\<lambda>(a, b). code a \<le> code c \<and> code c \<le> code b) rs"

text \<open>
  The concrete syntax, by recursive descent; the first argument is fuel. A class is a list of characters and ranges;
  the escapes are \<open>\b\<close>, \<open>\s\<close>, \<open>\S\<close> and an escaped punctuation character.
\<close>

fun parse_class :: "string \<Rightarrow> ((char \<times> char) list \<times> string) option" where
  "parse_class [] = None"
| "parse_class (a # s) =
     (if a = CHR '']'' then Some ([], s)
      else if 2 \<le> length s \<and> hd s = CHR ''-'' \<and> s ! 1 \<noteq> CHR '']''
      then map_option (\<lambda>(rs, s'). ((a, s ! 1) # rs, s')) (parse_class (drop 2 s))
      else map_option (\<lambda>(rs, s'). ((a, a) # rs, s')) (parse_class s))"

fun postfix :: "re \<Rightarrow> string \<Rightarrow> re \<times> string" where
  "postfix r (c # s) =
     (if c = CHR ''*'' then (RStar r, s)
      else if c = CHR ''+'' then (RSeq r (RStar r), s)
      else if c = CHR ''?'' then (RAlt r REmpty, s)
      else (r, c # s))"
| "postfix r [] = (r, [])"

fun parse_alt :: "nat \<Rightarrow> string \<Rightarrow> (re \<times> string) option"
  and parse_seq :: "nat \<Rightarrow> string \<Rightarrow> (re \<times> string) option"
  and parse_atom :: "nat \<Rightarrow> string \<Rightarrow> (re \<times> string) option" where
  "parse_alt 0 s = None"
| "parse_alt (Suc n) s = (case parse_seq n s of
      None \<Rightarrow> None
    | Some (r, s') \<Rightarrow>
       (if s' \<noteq> [] \<and> hd s' = CHR ''|'' then map_option (\<lambda>(r', s''). (RAlt r r', s'')) (parse_alt n (tl s'))
        else Some (r, s')))"
| "parse_seq 0 s = None"
| "parse_seq (Suc n) s =
     (if s = [] \<or> hd s = CHR ''|'' \<or> hd s = CHR '')'' then Some (REmpty, s)
      else case parse_atom n s of
        None \<Rightarrow> None
      | Some (r, s') \<Rightarrow> (case postfix r s' of (r', s'') \<Rightarrow>
          map_option (\<lambda>(q, s3). (RSeq r' q, s3)) (parse_seq n s'')))"
| "parse_atom 0 s = None"
| "parse_atom (Suc n) s = (case s of
      [] \<Rightarrow> None
    | c # s' \<Rightarrow>
       (if c = CHR ''('' then (case parse_alt n s' of
            None \<Rightarrow> None
          | Some (r, s'') \<Rightarrow> (if s'' \<noteq> [] \<and> hd s'' = CHR '')'' then Some (r, tl s'') else None))
        else if c = CHR ''['' then map_option (\<lambda>(rs, s''). (RChr (Ranges rs), s'')) (parse_class s')
        else if c = CHR ''.'' then Some (RChr AnyChar, s')
        else if c = CHR 0x5C then (case s' of
            [] \<Rightarrow> None
          | e # s'' \<Rightarrow>
             (if e = CHR ''b'' then Some (RBound, s'')
              else if e = CHR ''s'' then Some (RChr Space, s'')
              else if e = CHR ''S'' then Some (RChr NotSpace, s'')
              else if is_word e then None
              else Some (RChr (Lit e), s'')))
        else if c \<in> set ''*+?)|'' then None
        else Some (RChr (Lit c), s')))"

text \<open>\<open>regexp.MustCompile\<close>; \<open>None\<close> is its panic.\<close>

definition compile :: "string \<Rightarrow> re option" where
  "compile p = (case parse_alt (3 * length p + 3) p of Some (r, []) \<Rightarrow> Some r | _ \<Rightarrow> None)"

section \<open>Matching\<close>

text \<open>
  A position in a text is the byte before it, if any, and the rest of the text. \<open>matches r x y\<close>: from position \<open>x\<close>
  the expression can match up to position \<open>y\<close>.
\<close>

type_synonym pos = "char option \<times> string"

definition boundary :: "pos \<Rightarrow> bool" where
  "boundary x = ((case fst x of None \<Rightarrow> False | Some c \<Rightarrow> is_word c) \<noteq> (case snd x of [] \<Rightarrow> False | c # _ \<Rightarrow> is_word c))"

inductive matches :: "re \<Rightarrow> pos \<Rightarrow> pos \<Rightarrow> bool" where
  m_empty: "matches REmpty x x"
| m_chr: "cls_mem k c \<Longrightarrow> matches (RChr k) (p, c # s) (Some c, s)"
| m_bound: "boundary x \<Longrightarrow> matches RBound x x"
| m_seq: "matches r x y \<Longrightarrow> matches q y z \<Longrightarrow> matches (RSeq r q) x z"
| m_altl: "matches r x y \<Longrightarrow> matches (RAlt r q) x y"
| m_altr: "matches q x y \<Longrightarrow> matches (RAlt r q) x y"
| m_star0: "matches (RStar r) x x"
| m_star: "matches r x y \<Longrightarrow> matches (RStar r) y z \<Longrightarrow> matches (RStar r) x z"

inductive_simps matches_simps:
  "matches REmpty x y" "matches (RChr k) x y" "matches RBound x y" "matches (RSeq r q) x y"
  "matches (RAlt r q) x y"

text \<open>The position after a prefix of a text, and a match somewhere in it (\<open>MatchString\<close>, as a relation).\<close>

definition at :: "string \<Rightarrow> string \<Rightarrow> pos" where
  "at pre rest = (if pre = [] then None else Some (last pre), rest)"

definition occurs :: "re \<Rightarrow> string \<Rightarrow> bool" where
  "occurs r s \<longleftrightarrow> (\<exists>pre mid post. s = pre @ mid @ post \<and> matches r (at pre (mid @ post)) (at (pre @ mid) post))"

text \<open>The executable matcher: all positions at which a match from a given one can end.\<close>

fun star_ends :: "nat \<Rightarrow> (pos \<Rightarrow> pos list) \<Rightarrow> pos \<Rightarrow> pos list" where
  "star_ends 0 f x = [x]"
| "star_ends (Suc n) f x =
     x # concat (map (\<lambda>y. if length (snd y) < length (snd x) then star_ends n f y else []) (f x))"

primrec ends :: "re \<Rightarrow> pos \<Rightarrow> pos list" where
  "ends REmpty x = [x]"
| "ends (RChr k) x = (case snd x of [] \<Rightarrow> [] | c # s \<Rightarrow> if cls_mem k c then [(Some c, s)] else [])"
| "ends RBound x = (if boundary x then [x] else [])"
| "ends (RSeq r q) x = concat (map (ends q) (ends r x))"
| "ends (RAlt r q) x = ends r x @ ends q x"
| "ends (RStar r) x = star_ends (length (snd x)) (ends r) x"

fun search :: "re \<Rightarrow> char option \<Rightarrow> string \<Rightarrow> bool" where
  "search r p [] = (ends r (p, []) \<noteq> [])"
| "search r p (c # s) = (ends r (p, c # s) \<noteq> [] \<or> search r (Some c) s)"

definition MatchString :: "re \<Rightarrow> string \<Rightarrow> bool" where
  "MatchString r s = search r None s"

section \<open>The matcher decides the relation\<close>

text \<open>A match consumes a prefix of the rest.\<close>

lemma matches_at:
  "matches r x y \<Longrightarrow> x = at pre rest \<Longrightarrow> \<exists>mid post. rest = mid @ post \<and> y = at (pre @ mid) post"
proof (induction arbitrary: pre rest rule: matches.induct)
  case (m_chr k c p s)
  then have "rest = [c] @ s" "(Some c, s) = at (pre @ [c]) s" by (simp_all add: at_def)
  then show ?case by blast
next
  case (m_seq r x y q z)
  obtain m1 p1 where 1: "rest = m1 @ p1" "y = at (pre @ m1) p1" using m_seq.IH(1) [OF m_seq.prems] by blast
  obtain m2 p2 where "p1 = m2 @ p2" "z = at ((pre @ m1) @ m2) p2" using m_seq.IH(2) [OF 1(2)] by blast
  with 1 show ?case by (intro exI [of _ "m1 @ m2"] exI [of _ p2]) simp
next
  case (m_star r x y z)
  obtain m1 p1 where 1: "rest = m1 @ p1" "y = at (pre @ m1) p1" using m_star.IH(1) [OF m_star.prems] by blast
  obtain m2 p2 where "p1 = m2 @ p2" "z = at ((pre @ m1) @ m2) p2" using m_star.IH(2) [OF 1(2)] by blast
  with 1 show ?case by (intro exI [of _ "m1 @ m2"] exI [of _ p2]) simp
qed (auto intro: exI [of _ "[]"])

lemma matches_length: "matches r x y \<Longrightarrow> length (snd y) \<le> length (snd x) \<and> (length (snd y) = length (snd x) \<longrightarrow> y = x)"
  by (induction rule: matches.induct) auto

lemma star_ends_sound:
  assumes "\<And>y z. z \<in> set (f y) \<Longrightarrow> matches r y z"
  shows "z \<in> set (star_ends n f x) \<Longrightarrow> matches (RStar r) x z"
proof (induction n arbitrary: x)
  case (Suc n)
  then consider "z = x" | y where "y \<in> set (f x)" "z \<in> set (star_ends n f y)"
    by (auto simp: set_concat simp del: split_paired_Ex split: if_splits)
  then show ?case
  proof cases
    case (2 y)
    show ?thesis by (rule m_star [OF assms [OF 2(1)] Suc.IH [OF 2(2)]])
  qed (simp add: m_star0)
qed (simp add: m_star0)

lemma star_ends_complete:
  assumes f: "\<And>y z. matches r y z \<Longrightarrow> z \<in> set (f y)"
  shows "matches q x z \<Longrightarrow> q = RStar r \<Longrightarrow> length (snd x) \<le> n \<Longrightarrow> z \<in> set (star_ends n f x)"
proof (induction arbitrary: n rule: matches.induct)
  case (m_star0 r' x)
  then show ?case by (cases n) auto
next
  case (m_star r' x y z)
  then have r: "r' = r" by simp
  show ?case
  proof (cases "y = x")
    case True
    with m_star show ?thesis by blast
  next
    case False
    with matches_length [OF m_star(1)] have lt: "length (snd y) < length (snd x)" by fastforce
    then obtain k where n: "n = Suc k" using m_star.prems(2) by (cases n) auto
    have "z \<in> set (star_ends k f y)" using m_star.IH(2) [OF m_star.prems(1), of k] lt n m_star.prems(2) by simp
    moreover have "y \<in> set (f x)" using f m_star(1) r by simp
    ultimately show ?thesis using n lt by auto
  qed
qed auto

theorem ends_matches: "y \<in> set (ends r x) \<longleftrightarrow> matches r x y"
proof (induction r arbitrary: x y)
  case (RChr k)
  obtain p s where x: "x = (p, s)" by (cases x)
  show ?case by (cases s) (auto simp: x matches_simps)
next
  case (RStar r)
  show ?case
  proof
    assume "y \<in> set (ends (RStar r) x)"
    then show "matches (RStar r) x y" using star_ends_sound [of "ends r" r] RStar by simp
  next
    assume "matches (RStar r) x y"
    then show "y \<in> set (ends (RStar r) x)" using star_ends_complete [of r "ends r"] RStar by simp
  qed
next
  case (RSeq r1 r2)
  have "y \<in> set (ends (RSeq r1 r2) x) \<longleftrightarrow> (\<exists>z. z \<in> set (ends r1 x) \<and> y \<in> set (ends r2 z))" by auto
  then have "y \<in> set (ends (RSeq r1 r2) x) \<longleftrightarrow> (\<exists>z. matches r1 x z \<and> matches r2 z y)" unfolding RSeq .
  then show ?case by (simp add: matches_simps(4))
qed (auto simp: matches_simps)

lemma ends_nonempty: "ends r x \<noteq> [] \<longleftrightarrow> (\<exists>y. matches r x y)"
  by (metis ends_matches empty_iff list.set_intros(1) neq_Nil_conv set_empty)

lemma search_occurs:
  "search r (fst (at pre s)) s \<longleftrightarrow>
   (\<exists>p1 mid post. s = p1 @ mid @ post \<and> matches r (at (pre @ p1) (mid @ post)) (at (pre @ p1 @ mid) post))"
proof (induction s arbitrary: pre)
  case Nil
  have "search r (fst (at pre [])) [] \<longleftrightarrow> (\<exists>y. matches r (at pre []) y)"
    using ends_nonempty by (simp add: at_def)
  moreover have "y = at pre []" if "matches r (at pre []) y" for y
    using matches_at [OF that refl] by auto
  ultimately have "search r (fst (at pre [])) [] \<longleftrightarrow> matches r (at pre []) (at pre [])" by metis
  then show ?case by simp
next
  case (Cons c s)
  have here: "ends r (fst (at pre (c # s)), c # s) \<noteq> [] \<longleftrightarrow> (\<exists>y. matches r (at pre (c # s)) y)"
    using ends_nonempty by (simp add: at_def)
  have next': "search r (Some c) s \<longleftrightarrow> (\<exists>p1 mid post. s = p1 @ mid @ post \<and>
      matches r (at ((pre @ [c]) @ p1) (mid @ post)) (at ((pre @ [c]) @ p1 @ mid) post))"
    using Cons [of "pre @ [c]"] by (simp add: at_def)
  show ?case (is "?l \<longleftrightarrow> ?r")
  proof
    assume ?l
    then consider y where "matches r (at pre (c # s)) y" | "search r (Some c) s" using here by auto
    then show ?r
    proof cases
      case 1
      with matches_at [OF 1 refl] show ?thesis by (metis append_Nil append_Nil2)
    next
      case 2
      then obtain p1 mid post where "s = p1 @ mid @ post"
        "matches r (at ((pre @ [c]) @ p1) (mid @ post)) (at ((pre @ [c]) @ p1 @ mid) post)" using next' by blast
      then show ?thesis by (intro exI [of _ "c # p1"] exI [of _ mid] exI [of _ post]) simp
    qed
  next
    assume ?r
    then obtain p1 mid post where m: "c # s = p1 @ mid @ post" "matches r (at (pre @ p1) (mid @ post)) (at (pre @ p1 @ mid) post)"
      by blast
    show ?l
    proof (cases p1)
      case Nil
      with m have "matches r (at pre (c # s)) (at (pre @ mid) post)" by simp
      then have "\<exists>y. matches r (at pre (c # s)) y" by (rule exI)
      then have "ends r (fst (at pre (c # s)), c # s) \<noteq> []" using here by (rule iffD2 [rotated])
      then show ?thesis by simp
    next
      case (Cons d p2)
      with m have "s = p2 @ mid @ post" "matches r (at ((pre @ [c]) @ p2) (mid @ post)) (at ((pre @ [c]) @ p2 @ mid) post)" by auto
      with next' show ?thesis by auto
    qed
  qed
qed

lemma MatchString_occurs: "MatchString r s \<longleftrightarrow> occurs r s"
  using search_occurs [of r "[]" s] by (simp add: MatchString_def occurs_def at_def)

end
