(* ===== verification/Classifier.thy ===== *)
theory Classifier
  imports Regex
begin

text \<open>
  The classifier of the approval gate (\<open>internal/hitl/gate.go\<close>): its rules with their patterns as
  the source writes them, and \<open>Classify\<close>. Case folding of ASCII is Go's; the folding of the other letters
  is Unicode data and a parameter \<open>ul\<close>, the lower case of one encoded rune.
\<close>

section \<open>Lower case\<close>

definition ascii_lower :: "char \<Rightarrow> char" where
  "ascii_lower c = (if 65 \<le> code c \<and> code c \<le> 90 then char_of (code c + 32) else c)"

fun lower_chunk :: "(bytes \<Rightarrow> bytes) \<Rightarrow> chunk \<Rightarrow> bytes" where
  "lower_chunk ul (Ascii c) = [ascii_lower c]"
| "lower_chunk ul (Rune b) = ul b"
| "lower_chunk ul (Bad c) = replacement"

definition ToLower :: "(bytes \<Rightarrow> bytes) \<Rightarrow> bytes \<Rightarrow> bytes" where
  \<comment> \<open>\<open>strings.ToLower\<close>\<close>
  "ToLower ul s =
     (if list_all (\<lambda>c. code c < 128) s then map ascii_lower s else concat (map (lower_chunk ul) (utf8_chunks s)))"

section \<open>The rules\<close>

record classifierRule =
  cr_re :: re
  cr_exclude :: "re option"
  cr_reason :: string

text \<open>The patterns are written with a percent sign for the backslash.\<close>

definition pat :: "string \<Rightarrow> string" where
  "pat p = map (\<lambda>c. if c = CHR ''%'' then CHR 0x5C else c) p"

definition ruleSpecs :: "(string \<times> string \<times> string) list" where
  "ruleSpecs =
    [(''(>|tee)%s+/'', ''(>|tee)%s+/workspace'', ''write to system path''),
     (''%b(cp|mv)%s+%S+%s+/'', ''%b(cp|mv)%s+%S+%s+/workspace'', ''write to system path''),
     (''%bapt(-get)?%s+(install|remove|purge)%b'', [], ''package manager (apt)''),
     (''%bapk%s+(add|del)%b'', [], ''package manager (apk)''),
     (''%bpip[23]?%s+install%b'', [], ''package manager (pip)''),
     (''%bnpm%s+install%b'', [], ''package manager (npm)''),
     (''%byum%s+(install|remove)%b'', [], ''package manager (yum)''),
     (''%bdnf%s+(install|remove)%b'', [], ''package manager (dnf)''),
     (''%b(curl|wget|nc|ncat|netcat|ssh|scp|rsync|ftp|sftp|telnet)%b'', [], ''network tool''),
     (''%brm%s+-[a-z]*[rf][a-z]*%s+/'', ''%brm%s+-[a-z]*[rf][a-z]*%s+/workspace'', ''destructive rm on system path''),
     (''%b(mkfs|fdisk|parted|wipefs)%b'', [], ''disk operation''),
     (''%bdd%s+.*%bif=%b'', [], ''dd disk operation''),
     (''%b(sudo|doas)%b'', [], ''privilege escalation''),
     (''%bsu%s+(-%s+)?[a-z]'', [], ''switch user''),
     (''%bchmod%s+[0-9]+%s+/'', ''%bchmod%s+[0-9]+%s+/workspace'', ''broad chmod on system path''),
     (''%bchown%s+(root|0)%b'', [], ''chown to root''),
     (''%b(docker|podman|nerdctl|kubectl|k3s|ctr)%b'', [], ''container tool''),
     (''%b(gcc|g%+%+|cc|clang|make)%s'', [], ''native compilation'')]"

text \<open>\<open>None\<close>: a pattern does not compile and \<open>MustCompile\<close> panics.\<close>

fun buildRules :: "(string \<times> string \<times> string) list \<Rightarrow> classifierRule list option" where
  "buildRules [] = Some []"
| "buildRules ((p, x, reason) # specs) = (case compile (pat p) of
      None \<Rightarrow> None
    | Some r \<Rightarrow> (case (if x = [] then Some None else map_option Some (compile (pat x))) of
        None \<Rightarrow> None
      | Some ex \<Rightarrow> map_option (\<lambda>rs. \<lparr>cr_re = r, cr_exclude = ex, cr_reason = reason\<rparr> # rs) (buildRules specs)))"

definition defaultRules :: "classifierRule list option" where
  "defaultRules = buildRules ruleSpecs"

section \<open>Classification\<close>

datatype Classification = ClassBenign | ClassSensitive

fun classify_loop :: "classifierRule list \<Rightarrow> string \<Rightarrow> Classification \<times> string" where
  "classify_loop [] lower = (ClassBenign, [])"
| "classify_loop (r # rules) lower =
     (if \<not> MatchString (cr_re r) lower then classify_loop rules lower
      else if (case cr_exclude r of None \<Rightarrow> False | Some x \<Rightarrow> MatchString x lower) then classify_loop rules lower
      else (ClassSensitive, cr_reason r))"

definition Classify :: "(bytes \<Rightarrow> bytes) \<Rightarrow> classifierRule list \<Rightarrow> string \<Rightarrow> Classification \<times> string" where
  "Classify ul rules script = classify_loop rules (ToLower ul script)"

section \<open>What the classifier decides\<close>

definition fires :: "string \<Rightarrow> classifierRule \<Rightarrow> bool" where
  "fires lower r \<longleftrightarrow> occurs (cr_re r) lower \<and> (\<forall>x. cr_exclude r = Some x \<longrightarrow> \<not> occurs x lower)"

lemma classify_loop_find:
  "classify_loop rules lower = (case find (fires lower) rules of None \<Rightarrow> (ClassBenign, []) | Some r \<Rightarrow> (ClassSensitive, cr_reason r))"
  by (induction rules) (auto simp: fires_def MatchString_occurs split: option.splits)

lemma fires_sensitive: "r \<in> set rules \<Longrightarrow> fires lower r \<Longrightarrow> fst (classify_loop rules lower) = ClassSensitive"
  by (auto simp: classify_loop_find find_None_iff split: option.splits)


section \<open>Flagged words\<close>

text \<open>The shape of the patterns that list words between word boundaries.\<close>

fun lits :: "string \<Rightarrow> re" where
  "lits [] = REmpty"
| "lits (c # s) = RSeq (RChr (Lit c)) (lits s)"

fun alts :: "string list \<Rightarrow> re" where
  "alts [] = REmpty"
| "alts [w] = lits w"
| "alts (w # ws) = RAlt (lits w) (alts ws)"

definition wordPattern :: "string list \<Rightarrow> re" where
  "wordPattern ws = RSeq RBound (RSeq (alts ws) (RSeq RBound REmpty))"

lemma matches_lits: "matches (lits w) (p, w @ s) (if w = [] then p else Some (last w), s)"
proof (induction w arbitrary: p)
  case (Cons c w)
  have "matches (RChr (Lit c)) (p, c # w @ s) (Some c, w @ s)" by (rule m_chr) simp
  from m_seq [OF this Cons [of "Some c"]] show ?case by (auto split: if_splits)
qed (simp add: m_empty)

lemma matches_alts: "w \<in> set ws \<Longrightarrow> matches (lits w) x y \<Longrightarrow> matches (alts ws) x y"
  by (induction ws rule: alts.induct) (auto intro: m_altl m_altr)

definition word_free :: "string \<Rightarrow> string \<Rightarrow> bool" where
  "word_free pre post \<longleftrightarrow> (pre = [] \<or> \<not> is_word (last pre)) \<and> (post = [] \<or> \<not> is_word (hd post))"

lemma occurs_word:
  assumes "w \<in> set ws" "w \<noteq> []" "is_word (hd w)" "is_word (last w)" "word_free pre post"
  shows "occurs (wordPattern ws) (pre @ w @ post)"
proof -
  let ?x = "at pre (w @ post)" and ?y = "at (pre @ w) post"
  have "boundary ?x" using assms(2,3,5) by (cases w) (auto simp: boundary_def at_def word_free_def)
  moreover have "matches (alts ws) ?x ?y"
    by (rule matches_alts [OF assms(1)]) (use matches_lits [of w _ post] assms(2) in \<open>simp add: at_def\<close>)
  moreover have "boundary ?y" using assms(2,4,5) by (cases post) (auto simp: boundary_def at_def word_free_def)
  ultimately have "matches (wordPattern ws) ?x ?y"
    unfolding wordPattern_def by (meson m_bound m_empty m_seq)
  then show ?thesis unfolding occurs_def by blast
qed

definition flaggedWords :: "string list list" where
  "flaggedWords =
    [[''curl'', ''wget'', ''nc'', ''ncat'', ''netcat'', ''ssh'', ''scp'', ''rsync'', ''ftp'', ''sftp'', ''telnet''],
     [''mkfs'', ''fdisk'', ''parted'', ''wipefs''],
     [''sudo'', ''doas''],
     [''docker'', ''podman'', ''nerdctl'', ''kubectl'', ''k3s'', ''ctr'']]"

lemma word_rules:
  assumes "defaultRules = Some rules" and "ws \<in> set flaggedWords"
  shows "\<exists>r \<in> set rules. cr_re r = wordPattern ws \<and> cr_exclude r = None"
proof -
  have "(case defaultRules of None \<Rightarrow> False | Some rules \<Rightarrow>
      list_all (\<lambda>ws. list_ex (\<lambda>r. cr_re r = wordPattern ws \<and> cr_exclude r = None) rules) flaggedWords)"
    by code_simp
  then have "list_all (\<lambda>ws. list_ex (\<lambda>r. cr_re r = wordPattern ws \<and> cr_exclude r = None) rules) flaggedWords"
    unfolding assms(1) option.case .
  then have "list_ex (\<lambda>r. cr_re r = wordPattern ws \<and> cr_exclude r = None) rules"
    using assms(2) unfolding list_all_iff by (rule bspec)
  then show ?thesis unfolding list_ex_iff .
qed

lemma rules_compile: "\<exists>rules. defaultRules = Some rules"
proof -
  have "defaultRules \<noteq> None" by code_simp
  then show ?thesis by blast
qed

lemma flagged_shape: "ws \<in> set flaggedWords \<Longrightarrow> w \<in> set ws \<Longrightarrow> w \<noteq> [] \<and> is_word (hd w) \<and> is_word (last w)"
proof -
  have "list_all (list_all (\<lambda>w. w \<noteq> [] \<and> is_word (hd w) \<and> is_word (last w))) flaggedWords" by code_simp
  then show "ws \<in> set flaggedWords \<Longrightarrow> w \<in> set ws \<Longrightarrow> ?thesis" by (auto simp: list_all_iff)
qed

text \<open>
  Privilege, network, disk and container tools are always flagged. If the lower-cased script contains one
  of the listed words, with no letter, digit or underscore directly before or after it, then the
  verdict is sensitive, whatever else the script holds: no exclusion can lift it.
\<close>

theorem tools_always_flagged:
  assumes "defaultRules = Some rules" and "ws \<in> set flaggedWords" and "w \<in> set ws"
    and "ToLower ul script = pre @ w @ post" and "word_free pre post"
  shows "fst (Classify ul rules script) = ClassSensitive"
proof -
  obtain r where r: "r \<in> set rules" "cr_re r = wordPattern ws" "cr_exclude r = None"
    using word_rules [OF assms(1,2)] by blast
  have "occurs (wordPattern ws) (pre @ w @ post)"
    using flagged_shape [OF assms(2,3)] occurs_word [OF assms(3)] assms(5) by blast
  then have "fires (ToLower ul script) r" using r assms(4) by (simp add: fires_def)
  with fires_sensitive r(1) show ?thesis by (simp add: Classify_def)
qed

theorem tools_always_flagged_witness:
  "\<exists>rules. defaultRules = Some rules \<and> fst (Classify (\<lambda>b. b) rules ''echo hi > /workspace/a; SUDO id'') = ClassSensitive"
proof -
  obtain rules where r: "defaultRules = Some rules" using rules_compile by blast
  have l: "ToLower (\<lambda>b. b) ''echo hi > /workspace/a; SUDO id'' = ''echo hi > /workspace/a; '' @ ''sudo'' @ '' id''" by code_simp
  have f: "word_free ''echo hi > /workspace/a; '' '' id''" by code_simp
  have w: "[''sudo'', ''doas''] \<in> set flaggedWords" "''sudo'' \<in> set [''sudo'', ''doas'']" by (simp_all add: flaggedWords_def)
  from tools_always_flagged [OF r w l f] r show ?thesis by blast
qed

section \<open>Writes the classifier lets through\<close>

text \<open>
  Three kinds of writes to system paths pass as benign. A redirection without a space before the path; a
  disk image read by \<open>dd\<close> from an absolute path (the pattern needs a word character after the equals sign);
  and any such command in a script that also writes below \<open>/workspace\<close>, because an exclusion looks at the whole script.
\<close>

theorem classifier_lets_through:
  "map_option (\<lambda>rules. map (Classify ul rules)
      [''echo x >/etc/passwd'', ''dd if=/dev/sda of=img'', ''echo x > /etc/passwd; echo y > /workspace/z'',
       ''rm -rf /etc; rm -rf /workspace/t'']) defaultRules =
   Some (replicate 4 (ClassBenign, []))" (is "map_option (\<lambda>rules. map (Classify ul rules) ?ss) _ = ?r")
proof -
  have "map_option (\<lambda>rules. map (\<lambda>s. classify_loop rules (map ascii_lower s)) ?ss) defaultRules = ?r" by code_simp
  moreover have "list_all (list_all (\<lambda>c. code c < 128)) ?ss" by code_simp
  then have "Classify ul rules s = classify_loop rules (map ascii_lower s)" if "s \<in> set ?ss" for rules s
    using that unfolding list_all_iff [of _ ?ss] Classify_def ToLower_def by (simp only: if_True)
  then have "map (Classify ul rules) ?ss = map (\<lambda>s. classify_loop rules (map ascii_lower s)) ?ss" for rules
    by (rule map_cong [OF refl])
  ultimately show ?thesis by (simp only:)
qed

end
