(* ===== verification/Redis.thy ===== *)
theory Redis
  imports Json
begin

text \<open>
  What the control plane uses of Redis, and of times in JSON. The server and its client library are not part
  of the sources: they are a parameter, a record of functions on a state, and \<open>redis_laws\<close> states the documented
  behaviour the code relies on. An in-memory server shows that the laws can hold.
\<close>

section \<open>Times in JSON\<close>

definition num2 :: "string \<Rightarrow> nat \<Rightarrow> int" where
  "num2 s i = 10 * (code (s ! i) - 48) + (code (s ! (i + 1)) - 48)"

definition leap :: "int \<Rightarrow> bool" where
  "leap y \<longleftrightarrow> y mod 4 = 0 \<and> (y mod 100 \<noteq> 0 \<or> y mod 400 = 0)"

definition daysIn :: "int \<Rightarrow> int \<Rightarrow> int" where
  "daysIn y m = (if m = 2 then (if leap y then 29 else 28) else if m \<in> {4, 6, 9, 11} then 30 else 31)"

definition zone_ok :: "string \<Rightarrow> bool" where
  "zone_ok z \<longleftrightarrow> z = ''Z'' \<or>
     (length z = 6 \<and> (hd z = CHR ''+'' \<or> hd z = CHR ''-'') \<and> z ! 3 = CHR '':'' \<and>
      list_all (\<lambda>i. is_digit (z ! i)) [1, 2, 4, 5] \<and> num2 z 1 \<le> 23 \<and> num2 z 4 \<le> 59)"

definition skip_frac :: "string \<Rightarrow> string" where
  "skip_frac s = (if 2 \<le> length s \<and> hd s = CHR ''.'' \<and> is_digit (s ! 1) then dropWhile is_digit (tl s) else s)"

text \<open>The texts that \<open>time.Time.UnmarshalJSON\<close> accepts.\<close>

definition rfc3339 :: "string \<Rightarrow> bool" where
  "rfc3339 s \<longleftrightarrow> 20 \<le> length s \<and>
     list_all (\<lambda>i. is_digit (s ! i)) [0, 1, 2, 3, 5, 6, 8, 9, 11, 12, 14, 15, 17, 18] \<and>
     s ! 4 = CHR ''-'' \<and> s ! 7 = CHR ''-'' \<and> s ! 10 = CHR ''T'' \<and> s ! 13 = CHR '':'' \<and> s ! 16 = CHR '':'' \<and>
     1 \<le> num2 s 5 \<and> num2 s 5 \<le> 12 \<and> 1 \<le> num2 s 8 \<and> num2 s 8 \<le> daysIn (100 * num2 s 0 + num2 s 2) (num2 s 5) \<and>
     num2 s 11 \<le> 23 \<and> num2 s 14 \<le> 59 \<and> num2 s 17 \<le> 59 \<and> zone_ok (skip_frac (drop 19 s))"

definition dec_time :: "time \<Rightarrow> json \<Rightarrow> (string, time) result" where
  "dec_time old j = (case j of
      JStr s \<Rightarrow> if rfc3339 s then Inr s else Inl ''time''
    | JNull \<Rightarrow> Inr old
    | _ \<Rightarrow> Inl ''time'')"

section \<open>The server\<close>

datatype rcmd =
    RSet string bytes int
  | RDel string
  | RSAdd string string
  | RSRem string string
  | RExpire string int

text \<open>
  \<open>rd_get\<close> and \<open>rd_smembers\<close> read (\<open>Inr None\<close> is \<open>redis.Nil\<close>), \<open>rd_exists\<close> counts a key, and \<open>rd_exec\<close> runs the commands of a
  pipeline or a single command; when it reports an error, any of them may have been applied.
\<close>

record 'r redis =
  rd_get :: "'r \<Rightarrow> string \<Rightarrow> (string, bytes option) result"
  rd_smembers :: "'r \<Rightarrow> string \<Rightarrow> (string, string list) result"
  rd_exists :: "'r \<Rightarrow> string \<Rightarrow> (string, int) result"
  rd_exec :: "rcmd list \<Rightarrow> 'r \<Rightarrow> string option \<times> 'r"

text \<open>The contents of a server: the strings and the sets it holds.\<close>

record rview =
  rv_str :: "string \<Rightarrow> bytes option"
  rv_set :: "string \<Rightarrow> string set"

fun rapply :: "rcmd \<Rightarrow> rview \<Rightarrow> rview" where
  "rapply (RSet k b ttl) v = v\<lparr>rv_str := (rv_str v)(k \<mapsto> b)\<rparr>"
| "rapply (RDel k) v = v\<lparr>rv_str := (rv_str v)(k := None), rv_set := (rv_set v)(k := {})\<rparr>"
| "rapply (RSAdd k x) v = v\<lparr>rv_set := (rv_set v)(k := insert x (rv_set v k))\<rparr>"
| "rapply (RSRem k x) v = v\<lparr>rv_set := (rv_set v)(k := rv_set v k - {x})\<rparr>"
| "rapply (RExpire k ttl) v = v"

text \<open>
  Documented behaviour: reads that succeed return the contents, and commands that succeed change them as
  said; when they fail, some of them were applied, in their order; keys with a time to live are there until it has passed. \<open>view\<close> gives the contents of a state.
\<close>

definition redis_laws :: "'r redis \<Rightarrow> ('r \<Rightarrow> rview) \<Rightarrow> bool" where
  "redis_laws R view \<longleftrightarrow>
     (\<forall>r k x. rd_get R r k = Inr x \<longrightarrow> x = rv_str (view r) k) \<and>
     (\<forall>r k xs. rd_smembers R r k = Inr xs \<longrightarrow> distinct xs \<and> set xs = rv_set (view r) k) \<and>
     (\<forall>r k n. rd_exists R r k = Inr n \<longrightarrow> (n > 0) = (rv_str (view r) k \<noteq> None \<or> rv_set (view r) k \<noteq> {})) \<and>
     (\<forall>cs r r'. rd_exec R cs r = (None, r') \<longrightarrow> view r' = fold rapply cs (view r)) \<and>
     (\<forall>cs r e r'. rd_exec R cs r = (Some e, r') \<longrightarrow> (\<exists>ds \<in> set (subseqs cs). view r' = fold rapply ds (view r)))"

lemma redis_lawsD:
  assumes "redis_laws R view"
  shows "rd_get R r k = Inr x \<Longrightarrow> x = rv_str (view r) k"
    and "rd_smembers R r k = Inr xs \<Longrightarrow> distinct xs \<and> set xs = rv_set (view r) k"
    and "rd_exec R cs r = (None, r') \<Longrightarrow> view r' = fold rapply cs (view r)"
    and "rd_exists R r k = Inr n \<Longrightarrow> (n > 0) = (rv_str (view r) k \<noteq> None \<or> rv_set (view r) k \<noteq> {})"
  using assms unfolding redis_laws_def by blast+

text \<open>Whatever they answer, commands do what some of them say; a single one does it or not.\<close>

lemma rd_exec_some:
  assumes "redis_laws R view" "rd_exec R cs r = (e, r')"
  shows "\<exists>ds \<in> set (subseqs cs). view r' = fold rapply ds (view r)"
proof (cases e)
  case None
  moreover have "cs \<in> set (subseqs cs)" by (induction cs) (auto simp: Let_def)
  ultimately show ?thesis using redis_lawsD(3) [OF assms(1)] assms(2) by blast
qed (use assms in \<open>unfold redis_laws_def, blast\<close>)

lemma rd_exec_one:
  assumes "redis_laws R view" "rd_exec R [c] r = (e, r')"
  shows "view r' = view r \<or> view r' = rapply c (view r)"
  using rd_exec_some [OF assms] by auto

section \<open>An in-memory server\<close>

record mem_redis =
  mr_str :: "(string \<times> bytes) list"
  mr_set :: "(string \<times> string list) list"

definition mem_members :: "mem_redis \<Rightarrow> string \<Rightarrow> string list" where
  "mem_members m k = (case map_of (mr_set m) k of None \<Rightarrow> [] | Some xs \<Rightarrow> remdups xs)"

fun mem_apply :: "rcmd \<Rightarrow> mem_redis \<Rightarrow> mem_redis" where
  "mem_apply (RSet k b ttl) m = m\<lparr>mr_str := (k, b) # mr_str m\<rparr>"
| "mem_apply (RDel k) m = m\<lparr>mr_str := filter (\<lambda>x. fst x \<noteq> k) (mr_str m), mr_set := filter (\<lambda>x. fst x \<noteq> k) (mr_set m)\<rparr>"
| "mem_apply (RSAdd k x) m = m\<lparr>mr_set := (k, x # mem_members m k) # mr_set m\<rparr>"
| "mem_apply (RSRem k x) m = m\<lparr>mr_set := (k, filter (\<lambda>y. y \<noteq> x) (mem_members m k)) # mr_set m\<rparr>"
| "mem_apply (RExpire k ttl) m = m"

definition mem_server :: "mem_redis redis" where
  "mem_server = \<lparr>rd_get = \<lambda>m k. Inr (map_of (mr_str m) k), rd_smembers = \<lambda>m k. Inr (mem_members m k),
     rd_exists = \<lambda>m k. Inr (if map_of (mr_str m) k \<noteq> None \<or> mem_members m k \<noteq> [] then 1 else 0),
     rd_exec = \<lambda>cs m. (None, fold mem_apply cs m)\<rparr>"

definition mem_view :: "mem_redis \<Rightarrow> rview" where
  "mem_view m = \<lparr>rv_str = map_of (mr_str m), rv_set = \<lambda>k. set (mem_members m k)\<rparr>"

lemma map_of_filter_key: "map_of (filter (\<lambda>x. fst x \<noteq> k) xs) = (map_of xs)(k := None)"
  by (induction xs) auto

lemma mem_view_apply: "mem_view (mem_apply c m) = rapply c (mem_view m)"
  by (cases c) (auto simp: mem_view_def mem_members_def map_of_filter_key fun_eq_iff split: option.splits)

lemma mem_server_laws: "redis_laws mem_server mem_view"
proof -
  have "mem_view (fold mem_apply cs m) = fold rapply cs (mem_view m)" for cs m
    by (induction cs arbitrary: m) (simp_all add: mem_view_apply)
  moreover have "distinct (mem_members m k)" for m k by (simp add: mem_members_def split: option.splits)
  ultimately show ?thesis by (auto simp: redis_laws_def mem_server_def) (auto simp: mem_view_def split: if_splits)
qed

definition mem_empty :: mem_redis where
  "mem_empty = \<lparr>mr_str = [], mr_set = []\<rparr>"

end
