(* ===== verification/Gate.thy ===== *)
theory Gate
  imports Classifier Redis Protocol
begin

text \<open>
  The approval gate (\<open>internal/hitl/gate.go\<close>): records of sensitive requests kept in Redis as JSON, submitting one,
  deciding it, listing the pending ones and waiting for a decision. Redis is the parameter \<open>R\<close>; the clock and the
  random source give the texts \<open>now\<close> and the id. Deciding is a read followed by a write, modelled as the
  two steps they are, so that concurrent decisions can be interleaved.
\<close>

section \<open>Records\<close>

definition StatePending :: string where "StatePending = ''pending''"
definition StateApproved :: string where "StateApproved = ''approved''"
definition StateRejected :: string where "StateRejected = ''rejected''"
definition DecisionApprove :: string where "DecisionApprove = ''approve''"
definition DecisionReject :: string where "DecisionReject = ''reject''"

lemmas state_defs = StatePending_def StateApproved_def StateRejected_def DecisionApprove_def DecisionReject_def

record ApprovalRecord =
  ap_ID :: string
  ap_SandboxID :: string
  ap_Script :: string
  ap_Reason :: string
  ap_State :: string
  ap_SubmittedAt :: time
  ap_DecidedBy :: string
  ap_DecidedAt :: "time option"

definition zeroApproval :: ApprovalRecord where
  "zeroApproval = \<lparr>ap_ID = [], ap_SandboxID = [], ap_Script = [], ap_Reason = [], ap_State = [],
     ap_SubmittedAt = ''0001-01-01T00:00:00Z'', ap_DecidedBy = [], ap_DecidedAt = None\<rparr>"

definition approvalJSON :: "ApprovalRecord \<Rightarrow> json" where
  "approvalJSON r = JObj ([(''id'', JStr (ap_ID r)), (''sandbox_id'', JStr (ap_SandboxID r)), (''script'', JStr (ap_Script r)),
      (''reason'', JStr (ap_Reason r)), (''state'', JStr (ap_State r)), (''submitted_at'', JStr (ap_SubmittedAt r))]
      @ omit_str ''decided_by'' (ap_DecidedBy r)
      @ (case ap_DecidedAt r of None \<Rightarrow> [] | Some t \<Rightarrow> [(''decided_at'', JStr t)]))"

definition set_approval :: "ApprovalRecord \<Rightarrow> bytes \<Rightarrow> json \<Rightarrow> (string, ApprovalRecord) result" where
  "set_approval r k j =
     (let n = fold_name k in
      if n = ''ID'' then rbind (dec_string (ap_ID r) j) (\<lambda>v. Inr (r\<lparr>ap_ID := v\<rparr>))
      else if n = ''SANDBOX_ID'' then rbind (dec_string (ap_SandboxID r) j) (\<lambda>v. Inr (r\<lparr>ap_SandboxID := v\<rparr>))
      else if n = ''SCRIPT'' then rbind (dec_string (ap_Script r) j) (\<lambda>v. Inr (r\<lparr>ap_Script := v\<rparr>))
      else if n = ''REASON'' then rbind (dec_string (ap_Reason r) j) (\<lambda>v. Inr (r\<lparr>ap_Reason := v\<rparr>))
      else if n = ''STATE'' then rbind (dec_string (ap_State r) j) (\<lambda>v. Inr (r\<lparr>ap_State := v\<rparr>))
      else if n = ''SUBMITTED_AT'' then rbind (dec_time (ap_SubmittedAt r) j) (\<lambda>v. Inr (r\<lparr>ap_SubmittedAt := v\<rparr>))
      else if n = ''DECIDED_BY'' then rbind (dec_string (ap_DecidedBy r) j) (\<lambda>v. Inr (r\<lparr>ap_DecidedBy := v\<rparr>))
      else if n = ''DECIDED_AT'' then
        (if j = JNull then Inr (r\<lparr>ap_DecidedAt := None\<rparr>)
         else rbind (dec_time [] j) (\<lambda>v. Inr (r\<lparr>ap_DecidedAt := Some v\<rparr>)))
      else Inr r)"

definition marshalApproval :: "ApprovalRecord \<Rightarrow> bytes" where
  "marshalApproval r = jprint (approvalJSON r)"

definition unmarshalApproval :: "bytes \<Rightarrow> (string, ApprovalRecord) result" where
  "unmarshalApproval b = json_unmarshal zeroApproval set_approval b"

section \<open>The gate\<close>

datatype gate_error =
    ErrNotFound
  | ErrAlreadyDecided
  | GenerateID string
  | SubmitFailed string
  | DecideGet string
  | Unmarshal string
  | UnknownDecision string
  | DecideSet string
  | GetFailed string
  | ListPending string
  | CtxErr string

record Gate =
  ga_ttl :: int
  ga_rules :: "classifierRule list"

text \<open>\<open>New\<close>; \<open>None\<close> is the panic of a pattern that does not compile.\<close>

definition NewGate :: "int \<Rightarrow> Gate option" where
  "NewGate approveTTL =
     map_option (\<lambda>rules. \<lparr>ga_ttl = (if approveTTL = 0 then 3600000000000 else approveTTL), ga_rules = rules\<rparr>) defaultRules"

definition pendingSetKey :: string where "pendingSetKey = ''hitl:pending''"
definition approvalKey :: "string \<Rightarrow> string" where "approvalKey k = ''hitl:approval:'' @ k"
definition auditKey :: "string \<Rightarrow> string" where "auditKey k = ''hitl:audit:'' @ k"

text \<open>The first argument after the gate is the outcome of \<open>newID\<close>.\<close>

definition Submit ::
  "'r redis \<Rightarrow> Gate \<Rightarrow> (string, string) result \<Rightarrow> time \<Rightarrow> string \<Rightarrow> string \<Rightarrow> string \<Rightarrow> 'r \<Rightarrow> (gate_error, string) result \<times> 'r" where
  "Submit R g newID now sandboxID script reason r = (case newID of
      Inl e \<Rightarrow> (Inl (GenerateID e), r)
    | Inr k \<Rightarrow>
       (let rec = \<lparr>ap_ID = k, ap_SandboxID = sandboxID, ap_Script = script, ap_Reason = reason, ap_State = StatePending,
                   ap_SubmittedAt = now, ap_DecidedBy = [], ap_DecidedAt = None\<rparr> in
        case rd_exec R [RSet (approvalKey k) (marshalApproval rec) (ga_ttl g), RSAdd pendingSetKey k,
                        RExpire pendingSetKey (ga_ttl g)] r of
          (Some e, r') \<Rightarrow> (Inl (SubmitFailed e), r')
        | (None, r') \<Rightarrow> (Inr k, r')))"

text \<open>\<open>Decide\<close>: the read, up to the check of the state, and the write.\<close>

definition decide_read :: "'r redis \<Rightarrow> string \<Rightarrow> 'r \<Rightarrow> (gate_error, ApprovalRecord) result" where
  "decide_read R k r = (case rd_get R r (approvalKey k) of
      Inl e \<Rightarrow> Inl (DecideGet e)
    | Inr None \<Rightarrow> Inl ErrNotFound
    | Inr (Some raw) \<Rightarrow> (case unmarshalApproval raw of
        Inl e \<Rightarrow> Inl (Unmarshal e)
      | Inr rec \<Rightarrow> if ap_State rec \<noteq> StatePending then Inl ErrAlreadyDecided else Inr rec))"

definition decided :: "string \<Rightarrow> string option" where
  "decided decision = (if decision = DecisionApprove then Some StateApproved
     else if decision = DecisionReject then Some StateRejected else None)"

definition auditTTL :: int where "auditTTL = 365 * 24 * 3600000000000"

definition decide_write ::
  "'r redis \<Rightarrow> Gate \<Rightarrow> time \<Rightarrow> string \<Rightarrow> string \<Rightarrow> string \<Rightarrow> ApprovalRecord \<Rightarrow> 'r \<Rightarrow> gate_error option \<times> 'r" where
  "decide_write R g now k decision decidedBy rec r = (case decided decision of
      None \<Rightarrow> (Some (UnknownDecision decision), r)
    | Some st \<Rightarrow>
       (let b = marshalApproval (rec\<lparr>ap_DecidedBy := decidedBy, ap_DecidedAt := Some now, ap_State := st\<rparr>) in
        case rd_exec R [RSet (approvalKey k) b (ga_ttl g), RSRem pendingSetKey k, RSet (auditKey k) b auditTTL] r of
          (Some e, r') \<Rightarrow> (Some (DecideSet e), r')
        | (None, r') \<Rightarrow> (None, r')))"

definition Decide ::
  "'r redis \<Rightarrow> Gate \<Rightarrow> time \<Rightarrow> string \<Rightarrow> string \<Rightarrow> string \<Rightarrow> 'r \<Rightarrow> gate_error option \<times> 'r" where
  "Decide R g now k decision decidedBy r = (case decide_read R k r of
      Inl e \<Rightarrow> (Some e, r)
    | Inr rec \<Rightarrow> decide_write R g now k decision decidedBy rec r)"

definition GetApproval :: "'r redis \<Rightarrow> string \<Rightarrow> 'r \<Rightarrow> (gate_error, ApprovalRecord) result" where
  "GetApproval R k r = (case rd_get R r (approvalKey k) of
      Inl e \<Rightarrow> Inl (GetFailed e)
    | Inr None \<Rightarrow> Inl ErrNotFound
    | Inr (Some raw) \<Rightarrow> (case unmarshalApproval raw of Inl e \<Rightarrow> Inl (Unmarshal e) | Inr rec \<Rightarrow> Inr rec))"

fun pending_loop :: "'r redis \<Rightarrow> string list \<Rightarrow> 'r \<Rightarrow> ApprovalRecord list \<times> 'r" where
  "pending_loop R [] r = ([], r)"
| "pending_loop R (k # ks) r = (case GetApproval R k r of
      Inl e \<Rightarrow> pending_loop R ks (if e = ErrNotFound then snd (rd_exec R [RSRem pendingSetKey k] r) else r)
    | Inr rec \<Rightarrow> (case pending_loop R ks r of
        (recs, r') \<Rightarrow> (if ap_State rec = StatePending then rec # recs else recs, r')))"

definition Pending :: "'r redis \<Rightarrow> 'r \<Rightarrow> (gate_error, ApprovalRecord list) result \<times> 'r" where
  "Pending R r = (case rd_smembers R r pendingSetKey of
      Inl e \<Rightarrow> (Inl (ListPending e), r)
    | Inr ks \<Rightarrow> (case pending_loop R ks r of (recs, r') \<Rightarrow> (Inr recs, r')))"

text \<open>
  \<open>WaitForDecision\<close> on the events its \<open>select\<close> sees: the context ends, or the ticker fires and the state of Redis at that
  moment is read. \<open>None\<close>: still waiting after these events.
\<close>

datatype 'r wait_event = Done string | Tick 'r

fun WaitForDecision :: "'r redis \<Rightarrow> string \<Rightarrow> 'r wait_event list \<Rightarrow> (string \<times> gate_error option) option" where
  "WaitForDecision R k [] = None"
| "WaitForDecision R k (Done e # es) = Some (StatePending, Some (CtxErr e))"
| "WaitForDecision R k (Tick r # es) = (case GetApproval R k r of
      Inl e \<Rightarrow> (if e = ErrNotFound then Some (StateRejected, None) else WaitForDecision R k es)
    | Inr rec \<Rightarrow> (if ap_State rec \<noteq> StatePending then Some (ap_State rec, None) else WaitForDecision R k es))"

section \<open>Records survive Redis\<close>

definition approval_ok :: "ApprovalRecord \<Rightarrow> bool" where
  "approval_ok r \<longleftrightarrow> list_all valid_utf8 [ap_ID r, ap_SandboxID r, ap_Script r, ap_Reason r, ap_State r, ap_DecidedBy r] \<and>
     rfc3339 (ap_SubmittedAt r) \<and> valid_utf8 (ap_SubmittedAt r) \<and>
     (\<forall>t. ap_DecidedAt r = Some t \<longrightarrow> rfc3339 t \<and> valid_utf8 t)"

lemma approval_names:
  "fold_name ''sandbox_id'' = ''SANDBOX_ID''" "fold_name ''reason'' = ''REASON''" "fold_name ''state'' = ''STATE''"
  "fold_name ''submitted_at'' = ''SUBMITTED_AT''" "fold_name ''decided_by'' = ''DECIDED_BY''" "fold_name ''decided_at'' = ''DECIDED_AT''"
  by code_simp+

lemma approval_valid_names:
  "to_valid ''sandbox_id'' = ''sandbox_id''" "to_valid ''reason'' = ''reason''" "to_valid ''state'' = ''state''"
  "to_valid ''submitted_at'' = ''submitted_at''" "to_valid ''decided_by'' = ''decided_by''" "to_valid ''decided_at'' = ''decided_at''"
  by (auto intro!: to_valid_id ascii_valid_utf8 simp: code_def)

lemma set_approval_simps:
  "set_approval r ''id'' (JStr s) = Inr (r\<lparr>ap_ID := s\<rparr>)"
  "set_approval r ''sandbox_id'' (JStr s) = Inr (r\<lparr>ap_SandboxID := s\<rparr>)"
  "set_approval r ''script'' (JStr s) = Inr (r\<lparr>ap_Script := s\<rparr>)"
  "set_approval r ''reason'' (JStr s) = Inr (r\<lparr>ap_Reason := s\<rparr>)"
  "set_approval r ''state'' (JStr s) = Inr (r\<lparr>ap_State := s\<rparr>)"
  "rfc3339 s \<Longrightarrow> set_approval r ''submitted_at'' (JStr s) = Inr (r\<lparr>ap_SubmittedAt := s\<rparr>)"
  "set_approval r ''decided_by'' (JStr s) = Inr (r\<lparr>ap_DecidedBy := s\<rparr>)"
  "rfc3339 s \<Longrightarrow> set_approval r ''decided_at'' (JStr s) = Inr (r\<lparr>ap_DecidedAt := Some s\<rparr>)"
  unfolding set_approval_def approval_names fold_names by (simp_all add: dec_string_def dec_time_def)

lemma unmarshal_marshal_approval:
  assumes "approval_ok r"
  shows "unmarshalApproval (marshalApproval r) = Inr r"
proof -
  have "jwf (approvalJSON r)" "jdepth (approvalJSON r) \<le> maxNestingDepth"
    by (auto simp: approvalJSON_def omit_defs maxNestingDepth_def split: option.splits)
  then have "json_parse (jprint (approvalJSON r)) = Some (jsan (approvalJSON r))"
    by (rule json_parse_print)
  moreover have "jsan (approvalJSON r) = JObj (jsan_members (case approvalJSON r of JObj ms \<Rightarrow> ms | _ \<Rightarrow> []))"
    by (simp add: approvalJSON_def)
  moreover have "fill_members set_approval zeroApproval (jsan_members (case approvalJSON r of JObj ms \<Rightarrow> ms | _ \<Rightarrow> [])) = Inr r"
    using assms
    by (cases r) (auto simp: approvalJSON_def omit_defs member_appends set_approval_simps valid_names approval_valid_names
        zeroApproval_def approval_ok_def to_valid_id split: option.splits)
  ultimately show ?thesis
    by (simp add: unmarshalApproval_def json_unmarshal_def marshalApproval_def)
qed

section \<open>The life of an approval\<close>

lemma gate_keys [simp]:
  "approvalKey k \<noteq> auditKey m" "auditKey m \<noteq> approvalKey k" "approvalKey k = approvalKey m \<longleftrightarrow> k = m"
  "approvalKey k \<noteq> pendingSetKey" "auditKey k \<noteq> pendingSetKey"
  by (simp_all add: approvalKey_def auditKey_def pendingSetKey_def)

definition readable :: "'r redis \<Rightarrow> 'r \<Rightarrow> string \<Rightarrow> bool" where
  "readable R r k \<longleftrightarrow> (\<exists>x. rd_get R r (approvalKey k) = Inr x)"

lemma stored_reads:
  assumes "redis_laws R view" "rv_str (view r) (approvalKey k) = Some (marshalApproval rec)" "approval_ok rec" "readable R r k"
  shows "GetApproval R k r = Inr rec"
    and "decide_read R k r = (if ap_State rec = StatePending then Inr rec else Inl ErrAlreadyDecided)"
proof -
  have "rd_get R r (approvalKey k) = Inr (Some (marshalApproval rec))"
    using assms(2,4) redis_lawsD(1) [OF assms(1)] by (fastforce simp: readable_def)
  then show "GetApproval R k r = Inr rec"
    and "decide_read R k r = (if ap_State rec = StatePending then Inr rec else Inl ErrAlreadyDecided)"
    by (simp_all add: GetApproval_def decide_read_def unmarshal_marshal_approval [OF assms(3)])
qed

lemma decide_write_None:
  assumes "redis_laws R view" "decide_write R g now k decision who rec r = (None, r')"
  shows "\<exists>st. decided decision = Some st \<and> st \<noteq> StatePending \<and>
    view r' = (view r)\<lparr>
      rv_str := (rv_str (view r))(approvalKey k \<mapsto> marshalApproval (rec\<lparr>ap_DecidedBy := who, ap_DecidedAt := Some now, ap_State := st\<rparr>),
        auditKey k \<mapsto> marshalApproval (rec\<lparr>ap_DecidedBy := who, ap_DecidedAt := Some now, ap_State := st\<rparr>)),
      rv_set := (rv_set (view r))(pendingSetKey := rv_set (view r) pendingSetKey - {k})\<rparr>"
proof -
  obtain st where st: "decided decision = Some st" using assms(2) by (auto simp: decide_write_def split: option.splits)
  then have "st \<noteq> StatePending" by (auto simp: decided_def state_defs split: if_splits)
  moreover obtain cs where "rd_exec R cs r = (None, r')" "cs = [RSet (approvalKey k) (marshalApproval (rec\<lparr>ap_DecidedBy := who, ap_DecidedAt := Some now, ap_State := st\<rparr>)) (ga_ttl g),
      RSRem pendingSetKey k, RSet (auditKey k) (marshalApproval (rec\<lparr>ap_DecidedBy := who, ap_DecidedAt := Some now, ap_State := st\<rparr>)) auditTTL]"
    using assms(2) st by (auto simp: decide_write_def Let_def split: prod.splits option.splits)
  ultimately show ?thesis using st redis_lawsD(3) [OF assms(1)] by simp
qed

lemma Submit_Inr:
  assumes "redis_laws R view" "Submit R g (Inr k) now sb script reason r = (Inr k', r')"
  shows "k' = k \<and> view r' = (view r)\<lparr>
      rv_str := (rv_str (view r))(approvalKey k \<mapsto> marshalApproval \<lparr>ap_ID = k, ap_SandboxID = sb, ap_Script = script, ap_Reason = reason,
        ap_State = StatePending, ap_SubmittedAt = now, ap_DecidedBy = [], ap_DecidedAt = None\<rparr>),
      rv_set := (rv_set (view r))(pendingSetKey := insert k (rv_set (view r) pendingSetKey))\<rparr>"
  using assms(2) redis_lawsD(3) [OF assms(1)]
  by (auto simp: Submit_def Let_def split: prod.splits option.splits)

text \<open>
  C28: The life of an approval, as long as Redis keeps its promises. A submitted request is stored pending and listed. A
  decision that succeeds was an approval or a rejection; it stores exactly that state with who decided and when, writes the same
  record to the audit key, takes the request off the list and touches no other approval; and from then on
  the record reads back as decided, and every further decision is refused without changing anything.
\<close>

theorem approval_lifecycle:
  assumes "redis_laws R view" and "list_all valid_utf8 [k, sb, script, reason, who, now, now']" and "rfc3339 now" and "rfc3339 now'"
    and "Submit R g (Inr k) now sb script reason r0 = (Inr k', r1)" and "Decide R g now' k decision who r1 = (None, r2)"
  shows "\<exists>rec st. rec = \<lparr>ap_ID = k, ap_SandboxID = sb, ap_Script = script, ap_Reason = reason,
        ap_State = st, ap_SubmittedAt = now, ap_DecidedBy = who, ap_DecidedAt = Some now'\<rparr> \<and>
    k' = k \<and> k \<in> rv_set (view r1) pendingSetKey \<and>
    rv_str (view r1) (approvalKey k) = Some (marshalApproval (rec\<lparr>ap_State := StatePending, ap_DecidedBy := [], ap_DecidedAt := None\<rparr>)) \<and>
    decided decision = Some st \<and> st \<in> {StateApproved, StateRejected} \<and>
    rv_str (view r2) (approvalKey k) = Some (marshalApproval rec) \<and> rv_str (view r2) (auditKey k) = Some (marshalApproval rec) \<and>
    k \<notin> rv_set (view r2) pendingSetKey \<and>
    (\<forall>m. m \<noteq> k \<longrightarrow> rv_str (view r2) (approvalKey m) = rv_str (view r0) (approvalKey m)) \<and>
    (readable R r2 k \<longrightarrow> GetApproval R k r2 = Inr rec \<and>
      (\<forall>t d w. Decide R g t k d w r2 = (Some ErrAlreadyDecided, r2)))"
proof -
  let ?new = "\<lparr>ap_ID = k, ap_SandboxID = sb, ap_Script = script, ap_Reason = reason, ap_State = StatePending,
      ap_SubmittedAt = now, ap_DecidedBy = [], ap_DecidedAt = None\<rparr>"
  note sub = Submit_Inr [OF assms(1,5)]
  have pend: "valid_utf8 StatePending" "valid_utf8 StateApproved" "valid_utf8 StateRejected" "valid_utf8 []"
    by (auto intro!: ascii_valid_utf8 simp: state_defs code_def)
  have ok: "approval_ok ?new" using assms(2,3) pend by (simp add: approval_ok_def)
  have "readable R r1 k" using assms(6) by (auto simp: Decide_def decide_read_def readable_def split: sum.splits)
  with stored_reads(2) [OF assms(1) _ ok] sub have rd: "decide_read R k r1 = Inr ?new" by simp
  then have "decide_write R g now' k decision who ?new r1 = (None, r2)" using assms(6) by (simp add: Decide_def)
  from decide_write_None [OF assms(1) this] obtain st where st: "decided decision = Some st" "st \<noteq> StatePending"
    "view r2 = (view r1)\<lparr>
      rv_str := (rv_str (view r1))(approvalKey k \<mapsto> marshalApproval (?new\<lparr>ap_DecidedBy := who, ap_DecidedAt := Some now', ap_State := st\<rparr>),
        auditKey k \<mapsto> marshalApproval (?new\<lparr>ap_DecidedBy := who, ap_DecidedAt := Some now', ap_State := st\<rparr>)),
      rv_set := (rv_set (view r1))(pendingSetKey := rv_set (view r1) pendingSetKey - {k})\<rparr>" by blast
  have mem: "st \<in> {StateApproved, StateRejected}" using st(1) by (auto simp: decided_def split: if_splits)
  let ?rec = "?new\<lparr>ap_DecidedBy := who, ap_DecidedAt := Some now', ap_State := st\<rparr>"
  have ok2: "approval_ok ?rec" using assms(2-4) pend mem by (auto simp: approval_ok_def)
  have "GetApproval R k r2 = Inr ?rec \<and> (\<forall>t d w. Decide R g t k d w r2 = (Some ErrAlreadyDecided, r2))" if "readable R r2 k"
    using stored_reads [OF assms(1) _ ok2 that] st(2,3) by (simp add: Decide_def)
  then show ?thesis using sub st mem by (intro exI [of _ ?rec] exI [of _ st]) simp
qed

definition exGate :: Gate where
  "exGate = \<lparr>ga_ttl = 3600000000000, ga_rules = []\<rparr>"

lemma exTimes:
  "rfc3339 ''2024-02-29T12:00:00Z''" "rfc3339 ''2024-02-29T12:00:01.5Z''"
  "list_all valid_utf8 [''a1'', ''sb-1'', ''curl x'', ''network tool'', ''ann'', ''2024-02-29T12:00:00Z'', ''2024-02-29T12:00:01.5Z'']"
  by code_simp+

theorem approval_lifecycle_witness:
  "\<exists>r1 r2 rec. Submit mem_server exGate (Inr ''a1'') ''2024-02-29T12:00:00Z'' ''sb-1'' ''curl x'' ''network tool'' mem_empty = (Inr ''a1'', r1) \<and>
     Decide mem_server exGate ''2024-02-29T12:00:01.5Z'' ''a1'' ''approve'' ''ann'' r1 = (None, r2) \<and>
     GetApproval mem_server ''a1'' r2 = Inr rec \<and> ap_State rec = StateApproved"
proof -
  let ?sub = "Submit mem_server exGate (Inr ''a1'') ''2024-02-29T12:00:00Z'' ''sb-1'' ''curl x'' ''network tool'' mem_empty"
  obtain r1 where s: "?sub = (Inr ''a1'', r1)" by (simp add: Submit_def Let_def mem_server_def)
  let ?new = "\<lparr>ap_ID = ''a1'', ap_SandboxID = ''sb-1'', ap_Script = ''curl x'', ap_Reason = ''network tool'', ap_State = StatePending,
      ap_SubmittedAt = ''2024-02-29T12:00:00Z'', ap_DecidedBy = [], ap_DecidedAt = None\<rparr>"
  have "approval_ok ?new"
    using exTimes(1,3) by (auto simp: approval_ok_def state_defs code_def intro!: ascii_valid_utf8)
  moreover have rd: "readable mem_server r ''a1''" for r by (simp add: readable_def mem_server_def)
  ultimately have "decide_read mem_server ''a1'' r1 = Inr ?new"
    using stored_reads(2) [OF mem_server_laws, of r1 "''a1''" ?new] Submit_Inr [OF mem_server_laws s] by simp
  then obtain r2 where d: "Decide mem_server exGate ''2024-02-29T12:00:01.5Z'' ''a1'' ''approve'' ''ann'' r1 = (None, r2)"
    by (simp add: Decide_def decide_write_def Let_def decided_def state_defs mem_server_def)
  have "decided ''approve'' = Some StateApproved" by (simp add: decided_def DecisionApprove_def)
  with approval_lifecycle [OF mem_server_laws exTimes(3,1,2) s d] s d rd show ?thesis by auto
qed

section \<open>Waiting\<close>

text \<open>What the stored record answers: gone is rejected, a record that left the pending state answers with its state.\<close>

definition stored_answer :: "rview \<Rightarrow> string \<Rightarrow> string option" where
  "stored_answer v k = (case rv_str v (approvalKey k) of
      None \<Rightarrow> Some StateRejected
    | Some raw \<Rightarrow> (case unmarshalApproval raw of
        Inl e \<Rightarrow> None
      | Inr rec \<Rightarrow> if ap_State rec = StatePending then None else Some (ap_State rec)))"

definition poll :: "'r redis \<Rightarrow> ('r \<Rightarrow> rview) \<Rightarrow> string \<Rightarrow> 'r \<Rightarrow> string option" where
  "poll R view k r = (if readable R r k then stored_answer (view r) k else None)"

lemma Wait_Tick:
  assumes "redis_laws R view"
  shows "WaitForDecision R k (Tick r # es) = (case poll R view k r of Some st \<Rightarrow> Some (st, None) | None \<Rightarrow> WaitForDecision R k es)"
proof (cases "rd_get R r (approvalKey k)")
  case (Inl e)
  then show ?thesis by (simp add: poll_def readable_def GetApproval_def)
next
  case (Inr x)
  then have "x = rv_str (view r) (approvalKey k)" using redis_lawsD(1) [OF assms] by blast
  with Inr show ?thesis
    by (auto simp: poll_def readable_def GetApproval_def stored_answer_def split: option.splits sum.splits)
qed

lemma Wait_Ticks:
  assumes "redis_laws R view" "\<forall>r \<in> set pre. poll R view k r = None"
  shows "WaitForDecision R k (map Tick pre @ es) = WaitForDecision R k es"
  using assms(2) by (induction pre) (simp_all add: Wait_Tick [OF assms(1)] del: WaitForDecision.simps(3))

lemma Wait_cases:
  assumes "redis_laws R view"
  obtains (waiting) pre where "es = map Tick pre" "\<forall>r \<in> set pre. poll R view k r = None"
  | (ended) pre c post where "es = map Tick pre @ Done c # post" "\<forall>r \<in> set pre. poll R view k r = None"
  | (answer) pre r post st where "es = map Tick pre @ Tick r # post" "\<forall>r \<in> set pre. poll R view k r = None" "poll R view k r = Some st"
proof (induction es arbitrary: thesis)
  case Nil
  then show ?case by (metis empty_iff list.map(1) list.set(1))
next
  case (Cons e es)
  show ?case
  proof (cases e)
    case (Done c)
    with Cons.prems(2) [of "[]"] show ?thesis by simp
  next
    case (Tick r)
    show ?thesis
    proof (cases "poll R view k r")
      case (Some st)
      with Cons.prems(3) [of "[]" r es st] Tick show ?thesis by simp
    next
      case None
      show ?thesis
      proof (rule Cons.IH)
        fix pre assume "es = map Tick pre" "\<forall>r \<in> set pre. poll R view k r = None"
        with Cons.prems(1) [of "r # pre"] Tick None show ?thesis by simp
      next
        fix pre c post assume "es = map Tick pre @ Done c # post" "\<forall>r \<in> set pre. poll R view k r = None"
        with Cons.prems(2) [of "r # pre"] Tick None show ?thesis by simp
      next
        fix pre r' post st assume "es = map Tick pre @ Tick r' # post" "\<forall>r \<in> set pre. poll R view k r = None" "poll R view k r' = Some st"
        with Cons.prems(3) [of "r # pre"] Tick None show ?thesis by simp
      qed
    qed
  qed
qed

text \<open>
  An execution waits for a decision and gets the one that is stored. \<open>WaitForDecision\<close> answers exactly at the first poll, before
  the context ended, that could be read and found the record gone (the answer is rejected) or out of the pending
  state (the answer is the state stored then); so approved is only answered on a stored approval. If the context ends first
  it returns pending with the context's error, and with neither it keeps waiting.
\<close>

theorem wait_returns_stored_decision:
  assumes "redis_laws R view"
  shows "(WaitForDecision R k es = Some (st, None) \<longleftrightarrow>
      (\<exists>pre r post. es = map Tick pre @ Tick r # post \<and> (\<forall>q \<in> set pre. poll R view k q = None) \<and>
        readable R r k \<and> stored_answer (view r) k = Some st)) \<and>
    (WaitForDecision R k es = Some (st, Some e) \<longleftrightarrow>
      (\<exists>pre c post. es = map Tick pre @ Done c # post \<and> (\<forall>q \<in> set pre. poll R view k q = None) \<and>
        st = StatePending \<and> e = CtxErr c))"
proof -
  note ticks = Wait_Ticks [OF assms] and tick = Wait_Tick [OF assms]
  have poll: "poll R view k r = Some x \<longleftrightarrow> readable R r k \<and> stored_answer (view r) k = Some x" for r x
    by (simp add: poll_def)
  have end_val: "WaitForDecision R k (map Tick pre @ Done c # post) = Some (StatePending, Some (CtxErr c))"
    if "\<forall>r \<in> set pre. poll R view k r = None" for pre c post using ticks [OF that] by simp
  have ans_val: "WaitForDecision R k (map Tick pre @ Tick r # post) = Some (x, None)"
    if "\<forall>r \<in> set pre. poll R view k r = None" "poll R view k r = Some x" for pre r post x
    using ticks [OF that(1)] tick that(2) by (simp del: WaitForDecision.simps)
  show ?thesis
  proof (intro conjI iffI)
    assume w: "WaitForDecision R k es = Some (st, None)"
    from assms show "\<exists>pre r post. es = map Tick pre @ Tick r # post \<and> (\<forall>q \<in> set pre. poll R view k q = None) \<and>
        readable R r k \<and> stored_answer (view r) k = Some st"
    proof (cases rule: Wait_cases [where es = es and k = k])
      case (waiting pre)
      then show ?thesis using ticks [OF waiting(2), of "[]"] w by simp
    next
      case (ended pre c post)
      then show ?thesis using end_val [OF ended(2)] w by simp
    next
      case (answer pre r post x)
      then have "x = st" using ans_val [OF answer(2,3)] w by simp
      with answer poll show ?thesis by blast
    qed
  next
    assume "\<exists>pre r post. es = map Tick pre @ Tick r # post \<and> (\<forall>q \<in> set pre. poll R view k q = None) \<and>
        readable R r k \<and> stored_answer (view r) k = Some st"
    then show "WaitForDecision R k es = Some (st, None)" using ans_val poll by blast
  next
    assume w: "WaitForDecision R k es = Some (st, Some e)"
    from assms show "\<exists>pre c post. es = map Tick pre @ Done c # post \<and> (\<forall>q \<in> set pre. poll R view k q = None) \<and>
        st = StatePending \<and> e = CtxErr c"
    proof (cases rule: Wait_cases [where es = es and k = k])
      case (waiting pre)
      then show ?thesis using ticks [OF waiting(2), of "[]"] w by simp
    next
      case (ended pre c post)
      then show ?thesis using end_val [OF ended(2)] w by auto
    next
      case (answer pre r post x)
      then show ?thesis using ans_val [OF answer(2,3)] w by simp
    qed
  next
    assume "\<exists>pre c post. es = map Tick pre @ Done c # post \<and> (\<forall>q \<in> set pre. poll R view k q = None) \<and>
        st = StatePending \<and> e = CtxErr c"
    then show "WaitForDecision R k es = Some (st, Some e)" using end_val by blast
  qed
qed

theorem wait_returns_stored_decision_witness:
  "WaitForDecision mem_server ''a1'' [Tick mem_empty] = Some (StateRejected, None)"
proof -
  have "stored_answer (mem_view mem_empty) ''a1'' = Some StateRejected" "readable mem_server mem_empty ''a1''"
    by (simp_all add: stored_answer_def mem_view_def mem_empty_def readable_def mem_server_def)
  then have "\<exists>pre r post. [Tick mem_empty] = map Tick pre @ Tick r # post \<and> (\<forall>q \<in> set pre. poll mem_server mem_view ''a1'' q = None) \<and>
      readable mem_server r ''a1'' \<and> stored_answer (mem_view r) ''a1'' = Some StateRejected"
    by (intro exI [of _ "[] :: mem_redis list"] exI [of _ mem_empty] exI [of _ "[] :: mem_redis wait_event list"]) simp
  then show ?thesis
    by (rule iffD2 [OF conjunct1 [OF wait_returns_stored_decision [OF mem_server_laws]]])
qed

section \<open>Approved means that an operator approved\<close>

text \<open>
  What happens to the approvals over time: requests are submitted, decisions are written (on whatever record was
  read before), the pending list is read and cleaned, and anything else leaves an approval as it is or, at the end of its time to
  live, removes it. The history lists the submissions and the decisions, those included whose command reported an error.
\<close>

datatype gate_event = SubmitOf string | DecideOf string string string

inductive gate_runs :: "'r redis \<Rightarrow> ('r \<Rightarrow> rview) \<Rightarrow> Gate \<Rightarrow> 'r \<Rightarrow> gate_event list \<Rightarrow> 'r \<Rightarrow> bool" for R view g r0 where
  start: "gate_runs R view g r0 [] r0"
| submit: "gate_runs R view g r0 h r \<Longrightarrow> Submit R g (Inr k) now sb script reason r = (res, r') \<Longrightarrow>
    gate_runs R view g r0 (h @ [SubmitOf k]) r'"
| decide: "gate_runs R view g r0 h r \<Longrightarrow> decide_write R g now k decision who rec r = (res, r') \<Longrightarrow>
    gate_runs R view g r0 (h @ [DecideOf k decision who]) r'"
| pending: "gate_runs R view g r0 h r \<Longrightarrow> Pending R r = (res, r') \<Longrightarrow> gate_runs R view g r0 h r'"
| other: "gate_runs R view g r0 h r \<Longrightarrow>
    (\<And>k. rv_str (view r') (approvalKey k) \<in> {None, rv_str (view r) (approvalKey k)}) \<Longrightarrow> gate_runs R view g r0 h r'"

lemma read_back_state:
  assumes "unmarshalApproval (marshalApproval r) = Inr x" "valid_utf8 (ap_State r)"
  shows "ap_State x = ap_State r"
proof -
  have "jwf (approvalJSON r)" "jdepth (approvalJSON r) \<le> maxNestingDepth"
    by (auto simp: approvalJSON_def omit_defs maxNestingDepth_def split: option.splits)
  then have "json_parse (jprint (approvalJSON r)) = Some (jsan (approvalJSON r))"
    by (rule json_parse_print)
  moreover have "jsan (approvalJSON r) = JObj (jsan_members (case approvalJSON r of JObj ms \<Rightarrow> ms | _ \<Rightarrow> []))"
    by (simp add: approvalJSON_def)
  ultimately have "fill_members set_approval zeroApproval (jsan_members (case approvalJSON r of JObj ms \<Rightarrow> ms | _ \<Rightarrow> [])) = Inr x"
    using assms(1) by (simp add: unmarshalApproval_def json_unmarshal_def marshalApproval_def)
  moreover have times: "set_approval y ''submitted_at'' (JStr s) = (if rfc3339 s then Inr (y\<lparr>ap_SubmittedAt := s\<rparr>) else Inl ''time'')"
    "set_approval y ''decided_at'' (JStr s) = (if rfc3339 s then Inr (y\<lparr>ap_DecidedAt := Some s\<rparr>) else Inl ''time'')" for y s
    unfolding set_approval_def approval_names fold_names by (simp_all add: dec_time_def)
  ultimately show ?thesis using assms(2)
    by (auto simp: approvalJSON_def omit_defs member_appends set_approval_simps valid_names approval_valid_names
        to_valid_id split: option.splits if_splits)
qed

lemma decided_states: "decided d = Some st \<Longrightarrow> (st = StateApproved \<and> d = DecisionApprove) \<or> st = StateRejected"
  by (auto simp: decided_def split: if_splits)

lemma approval_after_writes:
  assumes "ds \<in> set (subseqs [RSet (approvalKey k) b ttl, c1, c2])" "\<forall>v. rv_str (rapply c1 v) (approvalKey m) = rv_str v (approvalKey m)"
    "\<forall>v. rv_str (rapply c2 v) (approvalKey m) = rv_str v (approvalKey m)"
  shows "rv_str (fold rapply ds v) (approvalKey m) = rv_str v (approvalKey m) \<or>
    (m = k \<and> rv_str (fold rapply ds v) (approvalKey m) = Some b)"
  using assms by (auto simp: Let_def split: if_splits)

lemma Submit_any:
  assumes "redis_laws R view" "Submit R g (Inr k) now sb script reason r = (res, r')"
  shows "rv_str (view r') (approvalKey m) = rv_str (view r) (approvalKey m) \<or>
    (m = k \<and> (\<exists>rec. ap_State rec = StatePending \<and> rv_str (view r') (approvalKey m) = Some (marshalApproval rec)))"
proof -
  let ?rec = "\<lparr>ap_ID = k, ap_SandboxID = sb, ap_Script = script, ap_Reason = reason, ap_State = StatePending,
      ap_SubmittedAt = now, ap_DecidedBy = [], ap_DecidedAt = None\<rparr>"
  obtain e where "rd_exec R [RSet (approvalKey k) (marshalApproval ?rec) (ga_ttl g), RSAdd pendingSetKey k, RExpire pendingSetKey (ga_ttl g)] r = (e, r')"
    using assms(2) by (auto simp: Submit_def Let_def split: prod.splits option.splits)
  from rd_exec_some [OF assms(1) this] obtain ds where
    "ds \<in> set (subseqs [RSet (approvalKey k) (marshalApproval ?rec) (ga_ttl g), RSAdd pendingSetKey k, RExpire pendingSetKey (ga_ttl g)])"
    "view r' = fold rapply ds (view r)" by blast
  then have "rv_str (view r') (approvalKey m) = rv_str (view r) (approvalKey m) \<or>
      (m = k \<and> rv_str (view r') (approvalKey m) = Some (marshalApproval ?rec))"
    using approval_after_writes by simp
  then show ?thesis by (auto intro: exI [of _ ?rec])
qed

lemma decide_write_any:
  assumes "redis_laws R view" "decide_write R g now k decision who rec r = (res, r')"
  shows "rv_str (view r') (approvalKey m) = rv_str (view r) (approvalKey m) \<or>
    (m = k \<and> (\<exists>rec'. decided decision = Some (ap_State rec') \<and> rv_str (view r') (approvalKey m) = Some (marshalApproval rec')))"
proof (cases "decided decision")
  case None
  with assms(2) show ?thesis by (simp add: decide_write_def)
next
  case (Some st)
  let ?b = "marshalApproval (rec\<lparr>ap_DecidedBy := who, ap_DecidedAt := Some now, ap_State := st\<rparr>)"
  obtain e where "rd_exec R [RSet (approvalKey k) ?b (ga_ttl g), RSRem pendingSetKey k, RSet (auditKey k) ?b auditTTL] r = (e, r')"
    using assms(2) Some by (auto simp: decide_write_def Let_def split: prod.splits option.splits)
  from rd_exec_some [OF assms(1) this] obtain ds where
    "ds \<in> set (subseqs [RSet (approvalKey k) ?b (ga_ttl g), RSRem pendingSetKey k, RSet (auditKey k) ?b auditTTL])"
    "view r' = fold rapply ds (view r)" by blast
  then have "rv_str (view r') (approvalKey m) = rv_str (view r) (approvalKey m) \<or>
      (m = k \<and> rv_str (view r') (approvalKey m) = Some ?b)"
    using approval_after_writes by simp
  then show ?thesis using Some
    by (auto intro: exI [of _ "rec\<lparr>ap_DecidedBy := who, ap_DecidedAt := Some now, ap_State := st\<rparr>"])
qed

lemma pending_loop_keeps:
  assumes "redis_laws R view" "pending_loop R ks r = (recs, r')"
  shows "rv_str (view r') (approvalKey m) = rv_str (view r) (approvalKey m)"
  using assms(2)
proof (induction ks arbitrary: r recs)
  case (Cons k ks)
  have "rv_str (view (snd (rd_exec R [RSRem pendingSetKey k] r))) (approvalKey m) = rv_str (view r) (approvalKey m)"
    using rd_exec_one [OF assms(1) prod.collapse [symmetric], of "RSRem pendingSetKey k" r] by auto
  with Cons show ?case by (fastforce split: sum.splits prod.splits if_splits)
qed simp

definition approved_in :: "gate_event list \<Rightarrow> string \<Rightarrow> bool" where
  "approved_in h k \<longleftrightarrow> (\<exists>who. DecideOf k DecisionApprove who \<in> set h)"

lemma gate_runs_state:
  assumes "gate_runs R view g r0 h r" "redis_laws R view" "rv_str (view r0) (approvalKey k) = None"
    "rv_str (view r) (approvalKey k) = Some b"
  shows "\<exists>rec. b = marshalApproval rec \<and> valid_utf8 (ap_State rec) \<and>
    (ap_State rec = StatePending \<or> ap_State rec = StateRejected \<or> approved_in h k)"
proof -
  have u: "valid_utf8 StatePending" "valid_utf8 StateApproved" "valid_utf8 StateRejected"
    by (auto intro!: ascii_valid_utf8 simp: state_defs code_def)
  have more: "approved_in h k \<Longrightarrow> approved_in (h @ es) k" for h es by (auto simp: approved_in_def)
  show ?thesis using assms(1,4)
  proof (induction arbitrary: b)
    case start
    with assms(3) show ?case by simp
  next
    case (submit h r k' now sb script reason res r')
    with Submit_any [OF assms(2) submit.hyps(2), of k] u more show ?case by fastforce
  next
    case (decide h r now k' decision who rec res r')
    from decide_write_any [OF assms(2) decide.hyps(2), of k] show ?case
    proof
      assume "rv_str (view r') (approvalKey k) = rv_str (view r) (approvalKey k)"
      with decide more show ?thesis by fastforce
    next
      assume "k = k' \<and> (\<exists>rec'. decided decision = Some (ap_State rec') \<and> rv_str (view r') (approvalKey k) = Some (marshalApproval rec'))"
      then obtain rec' where rec': "k = k'" "decided decision = Some (ap_State rec')" "b = marshalApproval rec'"
        using decide.prems by auto
      then have "ap_State rec' = StateRejected \<or> (ap_State rec' = StateApproved \<and> approved_in (h @ [DecideOf k' decision who]) k)"
        using decided_states by (fastforce simp: approved_in_def)
      with rec'(3) u show ?thesis by auto
    qed
  next
    case (pending h r res r')
    then have "rv_str (view r') (approvalKey k) = rv_str (view r) (approvalKey k)"
      using pending_loop_keeps [OF assms(2)] by (auto simp: Pending_def split: sum.splits prod.splits)
    with pending show ?case by auto
  next
    case (other h r r')
    from other.hyps(2) [of k] other.prems have "rv_str (view r) (approvalKey k) = Some b" by auto
    with other.IH show ?case by blast
  qed
qed

text \<open>A request that was new and is read as neither pending nor rejected has been approved by a decision of the history.\<close>

lemma let_through_approved:
  assumes "redis_laws R view" "gate_runs R view g r0 h r" "rv_str (view r0) (approvalKey k) = None"
    "GetApproval R k r = Inr rec" "ap_State rec \<noteq> StatePending" "ap_State rec \<noteq> StateRejected"
  shows "approved_in h k"
proof -
  obtain raw where raw: "rd_get R r (approvalKey k) = Inr (Some raw)" "unmarshalApproval raw = Inr rec"
    using assms(4) by (auto simp: GetApproval_def split: sum.splits option.splits)
  then have "rv_str (view r) (approvalKey k) = Some raw" using redis_lawsD(1) [OF assms(1)] by fastforce
  from gate_runs_state [OF assms(2,1,3) this] raw(2) assms(5,6) read_back_state show ?thesis by metis
qed

section \<open>Concurrent decisions\<close>

text \<open>
  Deciding is not atomic. Two operators whose reads both happen before either write both succeed: the first approval is
  stored, so a waiting execution may be released, and is then overwritten by the rejection, in the record and in the audit
  entry alike.
\<close>

theorem decide_race:
  assumes "redis_laws R view" and "rv_str (view r) (approvalKey k) = Some (marshalApproval rec)" and "approval_ok rec"
    and "ap_State rec = StatePending" and "readable R r k" and "list_all valid_utf8 [u1, u2, t1, t2]" and "rfc3339 t1" and "rfc3339 t2"
    and "decide_write R g t1 k DecisionApprove u1 rec r = (e1, r1)" and "decide_write R g t2 k DecisionReject u2 rec r1 = (e2, r2)"
    and "e1 = None" and "e2 = None"
  shows "decide_read R k r = Inr rec \<and> stored_answer (view r1) k = Some StateApproved \<and>
    stored_answer (view r2) k = Some StateRejected \<and> rv_str (view r2) (auditKey k) \<noteq> rv_str (view r1) (auditKey k)"
proof -
  let ?a = "rec\<lparr>ap_DecidedBy := u1, ap_DecidedAt := Some t1, ap_State := StateApproved\<rparr>"
  let ?b = "rec\<lparr>ap_DecidedBy := u2, ap_DecidedAt := Some t2, ap_State := StateRejected\<rparr>"
  have d: "decided DecisionApprove = Some StateApproved" "decided DecisionReject = Some StateRejected"
    by (simp_all add: decided_def state_defs)
  have st: "valid_utf8 StateApproved" "valid_utf8 StateRejected" "StateApproved \<noteq> StatePending" "StateRejected \<noteq> StatePending"
    "StateApproved \<noteq> StateRejected"
    by (auto intro!: ascii_valid_utf8 simp: state_defs code_def)
  have ok: "unmarshalApproval (marshalApproval ?a) = Inr ?a" "unmarshalApproval (marshalApproval ?b) = Inr ?b"
    using assms(3,6-8) st by (auto intro!: unmarshal_marshal_approval simp: approval_ok_def)
  have "marshalApproval ?a \<noteq> marshalApproval ?b"
  proof
    assume "marshalApproval ?a = marshalApproval ?b"
    with ok have "ap_State ?a = ap_State ?b" by (metis sum.inject(2))
    with st(5) show False by simp
  qed
  moreover have "rv_str (view r1) (approvalKey k) = Some (marshalApproval ?a)" "rv_str (view r1) (auditKey k) = Some (marshalApproval ?a)"
    using decide_write_None [OF assms(1)] assms(9,11) d by fastforce+
  moreover have "rv_str (view r2) (approvalKey k) = Some (marshalApproval ?b)" "rv_str (view r2) (auditKey k) = Some (marshalApproval ?b)"
    using decide_write_None [OF assms(1)] assms(10,12) d by fastforce+
  ultimately show ?thesis
    using stored_reads(2) [OF assms(1,2,3,5)] assms(4) ok st by (simp add: stored_answer_def)
qed

theorem decide_race_witness:
  "\<exists>r rec r1 r2. decide_read mem_server ''a1'' r = Inr rec \<and>
     decide_write mem_server exGate ''2024-02-29T12:00:00Z'' ''a1'' DecisionApprove ''ann'' rec r = (None, r1) \<and>
     decide_write mem_server exGate ''2024-02-29T12:00:01.5Z'' ''a1'' DecisionReject ''ann'' rec r1 = (None, r2) \<and>
     stored_answer (mem_view r1) ''a1'' = Some StateApproved \<and> stored_answer (mem_view r2) ''a1'' = Some StateRejected"
proof -
  let ?new = "\<lparr>ap_ID = ''a1'', ap_SandboxID = ''sb-1'', ap_Script = ''curl x'', ap_Reason = ''network tool'', ap_State = StatePending,
      ap_SubmittedAt = ''2024-02-29T12:00:00Z'', ap_DecidedBy = [], ap_DecidedAt = None\<rparr>"
  define r where "r = mem_empty\<lparr>mr_str := [(approvalKey ''a1'', marshalApproval ?new)]\<rparr>"
  have st: "rv_str (mem_view r) (approvalKey ''a1'') = Some (marshalApproval ?new)" by (simp add: r_def mem_view_def)
  have ok: "approval_ok ?new"
    using exTimes(1,3) by (auto simp: approval_ok_def state_defs code_def intro!: ascii_valid_utf8)
  have rd: "readable mem_server r ''a1''" by (simp add: readable_def mem_server_def)
  have u: "list_all valid_utf8 [''ann'', ''ann'', ''2024-02-29T12:00:00Z'', ''2024-02-29T12:00:01.5Z'']" using exTimes(3) by simp
  obtain r1 where 1: "decide_write mem_server exGate ''2024-02-29T12:00:00Z'' ''a1'' DecisionApprove ''ann'' ?new r = (None, r1)"
    by (simp add: decide_write_def decided_def state_defs mem_server_def Let_def)
  obtain r2 where 2: "decide_write mem_server exGate ''2024-02-29T12:00:01.5Z'' ''a1'' DecisionReject ''ann'' ?new r1 = (None, r2)"
    by (simp add: decide_write_def decided_def state_defs mem_server_def Let_def)
  have p: "ap_State ?new = StatePending" by simp
  from decide_race [OF mem_server_laws st ok p rd u exTimes(1,2) 1 2 refl refl] 1 2 show ?thesis by blast
qed

end
