(* ===== verification/StateStore.thy ===== *)
theory StateStore
  imports Complex_Main Sandbox Redis Protocol
begin

text \<open>
  The Redis-backed store (\<open>internal/state/redis.go\<close>): the durable sandbox records the supervisor reconciles from, heartbeats,
  session bindings, and the token bucket with its script. Amounts of tokens are rational numbers here and
  double-precision numbers in the code; times are integral milliseconds in both.
\<close>

section \<open>Records as JSON\<close>

definition dec_u32 :: "u32 \<Rightarrow> json \<Rightarrow> (string, u32) result" where
  "dec_u32 old j = rbind (dec_int (uint old) j) (\<lambda>i. if 0 \<le> i \<and> i < 2 ^ 32 then Inr (word_of_int i) else Inl ''type'')"

definition specJSON :: "Spec \<Rightarrow> json" where
  "specJSON s = JObj [(''vcpus'', JNum (itoa (sp_VCPUs s))), (''mem_mib'', JNum (itoa (sp_MemMiB s))),
     (''cpu_percent'', JNum (itoa (sp_CPUPercent s))), (''pids_max'', JNum (itoa (sp_PidsMax s)))]"

definition recordJSON :: "Record \<Rightarrow> json" where
  "recordJSON r = JObj [(''id'', JStr (rc_ID r)), (''cid'', JNum (itoa (uint (rc_CID r)))), (''pid'', JNum (itoa (rc_PID r))),
     (''vsock_uds_path'', JStr (rc_VsockUDSPath r)), (''socket_path'', JStr (rc_SocketPath r)), (''chroot_dir'', JStr (rc_ChrootDir r)),
     (''cgroup_path'', JStr (rc_CgroupPath r)), (''status'', JStr (rc_Status r)), (''created_at'', JStr (rc_CreatedAt r)),
     (''spec'', specJSON (rc_Spec r))]"

definition set_spec :: "Spec \<Rightarrow> bytes \<Rightarrow> json \<Rightarrow> (string, Spec) result" where
  "set_spec s k j =
     (let n = fold_name k in
      if n = ''VCPUS'' then rbind (dec_int (sp_VCPUs s) j) (\<lambda>v. Inr (s\<lparr>sp_VCPUs := v\<rparr>))
      else if n = ''MEM_MIB'' then rbind (dec_int (sp_MemMiB s) j) (\<lambda>v. Inr (s\<lparr>sp_MemMiB := v\<rparr>))
      else if n = ''CPU_PERCENT'' then rbind (dec_int (sp_CPUPercent s) j) (\<lambda>v. Inr (s\<lparr>sp_CPUPercent := v\<rparr>))
      else if n = ''PIDS_MAX'' then rbind (dec_int (sp_PidsMax s) j) (\<lambda>v. Inr (s\<lparr>sp_PidsMax := v\<rparr>))
      else Inr s)"

definition set_record :: "Record \<Rightarrow> bytes \<Rightarrow> json \<Rightarrow> (string, Record) result" where
  "set_record r k j =
     (let n = fold_name k in
      if n = ''ID'' then rbind (dec_string (rc_ID r) j) (\<lambda>v. Inr (r\<lparr>rc_ID := v\<rparr>))
      else if n = ''CID'' then rbind (dec_u32 (rc_CID r) j) (\<lambda>v. Inr (r\<lparr>rc_CID := v\<rparr>))
      else if n = ''PID'' then rbind (dec_int (rc_PID r) j) (\<lambda>v. Inr (r\<lparr>rc_PID := v\<rparr>))
      else if n = ''VSOCK_UDS_PATH'' then rbind (dec_string (rc_VsockUDSPath r) j) (\<lambda>v. Inr (r\<lparr>rc_VsockUDSPath := v\<rparr>))
      else if n = ''SOCKET_PATH'' then rbind (dec_string (rc_SocketPath r) j) (\<lambda>v. Inr (r\<lparr>rc_SocketPath := v\<rparr>))
      else if n = ''CHROOT_DIR'' then rbind (dec_string (rc_ChrootDir r) j) (\<lambda>v. Inr (r\<lparr>rc_ChrootDir := v\<rparr>))
      else if n = ''CGROUP_PATH'' then rbind (dec_string (rc_CgroupPath r) j) (\<lambda>v. Inr (r\<lparr>rc_CgroupPath := v\<rparr>))
      else if n = ''STATUS'' then rbind (dec_string (rc_Status r) j) (\<lambda>v. Inr (r\<lparr>rc_Status := v\<rparr>))
      else if n = ''CREATED_AT'' then rbind (dec_time (rc_CreatedAt r) j) (\<lambda>v. Inr (r\<lparr>rc_CreatedAt := v\<rparr>))
      else if n = ''SPEC'' then (case j of
          JObj ms \<Rightarrow> rbind (fill_members set_spec (rc_Spec r) ms) (\<lambda>v. Inr (r\<lparr>rc_Spec := v\<rparr>))
        | JNull \<Rightarrow> Inr r
        | _ \<Rightarrow> Inl ''type'')
      else Inr r)"

definition zeroSpec :: Spec where
  "zeroSpec = \<lparr>sp_VCPUs = 0, sp_MemMiB = 0, sp_CPUPercent = 0, sp_PidsMax = 0\<rparr>"

definition zeroRecord :: Record where
  "zeroRecord = \<lparr>rc_ID = [], rc_CID = 0, rc_PID = 0, rc_VsockUDSPath = [], rc_SocketPath = [], rc_ChrootDir = [], rc_CgroupPath = [],
     rc_Status = [], rc_CreatedAt = ''0001-01-01T00:00:00Z'', rc_Spec = zeroSpec\<rparr>"

definition marshalRecord :: "Record \<Rightarrow> bytes" where
  "marshalRecord r = jprint (recordJSON r)"

definition unmarshalRecord :: "bytes \<Rightarrow> (string, Record) result" where
  "unmarshalRecord b = json_unmarshal zeroRecord set_record b"

definition record_ok :: "Record \<Rightarrow> bool" where
  "record_ok r \<longleftrightarrow>
     list_all valid_utf8 [rc_ID r, rc_VsockUDSPath r, rc_SocketPath r, rc_ChrootDir r, rc_CgroupPath r, rc_Status r, rc_CreatedAt r] \<and>
     rfc3339 (rc_CreatedAt r) \<and>
     list_all int64_range [rc_PID r, sp_VCPUs (rc_Spec r), sp_MemMiB (rc_Spec r), sp_CPUPercent (rc_Spec r), sp_PidsMax (rc_Spec r)]"

lemma record_names:
  "fold_name ''cid'' = ''CID''" "fold_name ''pid'' = ''PID''" "fold_name ''vsock_uds_path'' = ''VSOCK_UDS_PATH''"
  "fold_name ''socket_path'' = ''SOCKET_PATH''" "fold_name ''chroot_dir'' = ''CHROOT_DIR''" "fold_name ''cgroup_path'' = ''CGROUP_PATH''"
  "fold_name ''status'' = ''STATUS''" "fold_name ''created_at'' = ''CREATED_AT''" "fold_name ''spec'' = ''SPEC''"
  "fold_name ''vcpus'' = ''VCPUS''" "fold_name ''mem_mib'' = ''MEM_MIB''" "fold_name ''cpu_percent'' = ''CPU_PERCENT''"
  "fold_name ''pids_max'' = ''PIDS_MAX''"
  by code_simp+

lemma record_valid_names:
  "to_valid ''cid'' = ''cid''" "to_valid ''pid'' = ''pid''" "to_valid ''vsock_uds_path'' = ''vsock_uds_path''"
  "to_valid ''socket_path'' = ''socket_path''" "to_valid ''chroot_dir'' = ''chroot_dir''" "to_valid ''cgroup_path'' = ''cgroup_path''"
  "to_valid ''status'' = ''status''" "to_valid ''created_at'' = ''created_at''" "to_valid ''spec'' = ''spec''"
  "to_valid ''vcpus'' = ''vcpus''" "to_valid ''mem_mib'' = ''mem_mib''" "to_valid ''cpu_percent'' = ''cpu_percent''"
  "to_valid ''pids_max'' = ''pids_max''"
  by (auto intro!: to_valid_id ascii_valid_utf8 simp: code_def)

lemma u32_int64: "int64_range (uint (w::u32))"
proof -
  have "0 \<le> uint w" "uint w < 4294967296" using uint_bounded [of w] by simp_all
  then have "- 9223372036854775808 \<le> uint w" "uint w < 9223372036854775808" by linarith+
  then show ?thesis unfolding int64_range_def by simp
qed

lemma dec_u32_itoa: "dec_u32 old (JNum (itoa (uint w))) = Inr w"
  using uint_bounded [of w] u32_int64 [of w] by (simp add: dec_u32_def dec_int_def atoi_itoa)

lemma set_spec_simps:
  "int64_range i \<Longrightarrow> set_spec s ''vcpus'' (JNum (itoa i)) = Inr (s\<lparr>sp_VCPUs := i\<rparr>)"
  "int64_range i \<Longrightarrow> set_spec s ''mem_mib'' (JNum (itoa i)) = Inr (s\<lparr>sp_MemMiB := i\<rparr>)"
  "int64_range i \<Longrightarrow> set_spec s ''cpu_percent'' (JNum (itoa i)) = Inr (s\<lparr>sp_CPUPercent := i\<rparr>)"
  "int64_range i \<Longrightarrow> set_spec s ''pids_max'' (JNum (itoa i)) = Inr (s\<lparr>sp_PidsMax := i\<rparr>)"
  unfolding set_spec_def record_names by (simp_all add: dec_int_def atoi_itoa)

lemma set_record_simps:
  "set_record r ''id'' (JStr s) = Inr (r\<lparr>rc_ID := s\<rparr>)"
  "set_record r ''cid'' (JNum (itoa (uint w))) = Inr (r\<lparr>rc_CID := w\<rparr>)"
  "int64_range i \<Longrightarrow> set_record r ''pid'' (JNum (itoa i)) = Inr (r\<lparr>rc_PID := i\<rparr>)"
  "set_record r ''vsock_uds_path'' (JStr s) = Inr (r\<lparr>rc_VsockUDSPath := s\<rparr>)"
  "set_record r ''socket_path'' (JStr s) = Inr (r\<lparr>rc_SocketPath := s\<rparr>)"
  "set_record r ''chroot_dir'' (JStr s) = Inr (r\<lparr>rc_ChrootDir := s\<rparr>)"
  "set_record r ''cgroup_path'' (JStr s) = Inr (r\<lparr>rc_CgroupPath := s\<rparr>)"
  "set_record r ''status'' (JStr s) = Inr (r\<lparr>rc_Status := s\<rparr>)"
  "rfc3339 s \<Longrightarrow> set_record r ''created_at'' (JStr s) = Inr (r\<lparr>rc_CreatedAt := s\<rparr>)"
  "set_record r ''spec'' (JObj ms) = rbind (fill_members set_spec (rc_Spec r) ms) (\<lambda>v. Inr (r\<lparr>rc_Spec := v\<rparr>))"
  unfolding set_record_def record_names fold_names by (simp_all add: dec_string_def dec_time_def dec_u32_itoa dec_int_def atoi_itoa)

lemma unmarshal_marshal_record:
  assumes "record_ok r"
  shows "unmarshalRecord (marshalRecord r) = Inr r"
proof -
  obtain i c p v s ch cg st t sp where r: "r = \<lparr>rc_ID = i, rc_CID = c, rc_PID = p, rc_VsockUDSPath = v, rc_SocketPath = s, rc_ChrootDir = ch,
      rc_CgroupPath = cg, rc_Status = st, rc_CreatedAt = t, rc_Spec = sp\<rparr>" by (cases r)
  obtain a b d e where sp: "sp = \<lparr>sp_VCPUs = a, sp_MemMiB = b, sp_CPUPercent = d, sp_PidsMax = e\<rparr>" by (cases sp)
  have "jwf (recordJSON r)" "jdepth (recordJSON r) \<le> maxNestingDepth"
    by (simp_all add: recordJSON_def specJSON_def maxNestingDepth_def)
  then have "json_parse (jprint (recordJSON r)) = Some (jsan (recordJSON r))"
    by (rule json_parse_print)
  moreover have "jsan (recordJSON r) = JObj (jsan_members (case recordJSON r of JObj ms \<Rightarrow> ms | _ \<Rightarrow> []))"
    by (simp add: recordJSON_def)
  moreover have "fill_members set_record zeroRecord (jsan_members (case recordJSON r of JObj ms \<Rightarrow> ms | _ \<Rightarrow> [])) = Inr r"
    using assms
    by (simp add: r sp recordJSON_def specJSON_def set_record_simps set_spec_simps valid_names record_valid_names
        zeroRecord_def zeroSpec_def record_ok_def to_valid_id)
  ultimately show ?thesis
    by (simp add: unmarshalRecord_def json_unmarshal_def marshalRecord_def)
qed

section \<open>The store\<close>

datatype store_error =
    StoreNotFound
  | PingFailed string string
  | SaveFailed string string
  | RemoveFailed string string
  | ListActive string
  | GetRecord string string
  | UnmarshalRecord string string
  | AliveFailed string string
  | SessionLookup string
  | Command string
  | BadRefill
  | RateLimit string string

definition keyActive :: string where "keyActive = ''sandboxes:active''"
definition prefixRecord :: string where "prefixRecord = ''sandbox:''"
definition prefixBeat :: string where "prefixBeat = ''heartbeat:''"
definition prefixSess :: string where "prefixSess = ''session:''"
definition prefixBucket :: string where "prefixBucket = ''ratelimit:''"

lemmas key_defs = keyActive_def prefixRecord_def prefixBeat_def prefixSess_def prefixBucket_def

record Options =
  op_Addr :: string
  op_Password :: string
  op_DB :: int

text \<open>\<open>New\<close>: the address it connects to, or the error of the ping, whose outcome is the second argument.\<close>

definition NewStore :: "Options \<Rightarrow> string option \<Rightarrow> (store_error, Options) result" where
  "NewStore opts ping =
     (let opts = (if op_Addr opts = [] then opts\<lparr>op_Addr := ''127.0.0.1:6379''\<rparr> else opts) in
      case ping of Some e \<Rightarrow> Inl (PingFailed (op_Addr opts) e) | None \<Rightarrow> Inr opts)"

definition run_cmds :: "'r redis \<Rightarrow> (string \<Rightarrow> store_error) \<Rightarrow> rcmd list \<Rightarrow> 'r \<Rightarrow> store_error option \<times> 'r" where
  "run_cmds R err cs r = (case rd_exec R cs r of (Some e, r') \<Rightarrow> (Some (err e), r') | (None, r') \<Rightarrow> (None, r'))"

definition Save :: "'r redis \<Rightarrow> Record \<Rightarrow> 'r \<Rightarrow> store_error option \<times> 'r" where
  "Save R rec r = run_cmds R (SaveFailed (rc_ID rec))
     [RSet (prefixRecord @ rc_ID rec) (marshalRecord rec) 0, RSAdd keyActive (rc_ID rec)] r"

definition RemoveRec :: "'r redis \<Rightarrow> string \<Rightarrow> 'r \<Rightarrow> store_error option \<times> 'r" where
  "RemoveRec R k r = run_cmds R (RemoveFailed k) [RDel (prefixRecord @ k), RSRem keyActive k, RDel (prefixBeat @ k)] r"

fun all_loop :: "'r redis \<Rightarrow> string list \<Rightarrow> 'r \<Rightarrow> (store_error, Record list) result \<times> 'r" where
  "all_loop R [] r = (Inr [], r)"
| "all_loop R (k # ks) r = (case rd_get R r (prefixRecord @ k) of
      Inl e \<Rightarrow> (Inl (GetRecord k e), r)
    | Inr None \<Rightarrow> all_loop R ks (snd (rd_exec R [RSRem keyActive k] r))
    | Inr (Some b) \<Rightarrow> (case unmarshalRecord b of
        Inl e \<Rightarrow> (Inl (UnmarshalRecord k e), r)
      | Inr rec \<Rightarrow> (case all_loop R ks r of
          (Inl e, r') \<Rightarrow> (Inl e, r')
        | (Inr recs, r') \<Rightarrow> (Inr (rec # recs), r'))))"

definition All :: "'r redis \<Rightarrow> 'r \<Rightarrow> (store_error, Record list) result \<times> 'r" where
  "All R r = (case rd_smembers R r keyActive of
      Inl e \<Rightarrow> (Inl (ListActive e), r)
    | Inr ks \<Rightarrow> all_loop R ks r)"

text \<open>\<open>now\<close> is the clock in milliseconds.\<close>

definition Heartbeat :: "'r redis \<Rightarrow> int \<Rightarrow> string \<Rightarrow> int \<Rightarrow> 'r \<Rightarrow> store_error option \<times> 'r" where
  "Heartbeat R now k ttl r = run_cmds R Command [RSet (prefixBeat @ k) (itoa now) ttl] r"

definition Alive :: "'r redis \<Rightarrow> string \<Rightarrow> 'r \<Rightarrow> (store_error, bool) result" where
  "Alive R k r = (case rd_exists R r (prefixBeat @ k) of Inl e \<Rightarrow> Inl (AliveFailed k e) | Inr n \<Rightarrow> Inr (n > 0))"

definition BindSession :: "'r redis \<Rightarrow> string \<Rightarrow> string \<Rightarrow> int \<Rightarrow> 'r \<Rightarrow> store_error option \<times> 'r" where
  "BindSession R sess sid ttl r = run_cmds R Command [RSet (prefixSess @ sess) sid ttl] r"

definition SessionSandbox :: "'r redis \<Rightarrow> string \<Rightarrow> 'r \<Rightarrow> (store_error, string) result" where
  "SessionSandbox R sess r = (case rd_get R r (prefixSess @ sess) of
      Inl e \<Rightarrow> Inl (SessionLookup e)
    | Inr None \<Rightarrow> Inl StoreNotFound
    | Inr (Some v) \<Rightarrow> Inr v)"

definition UnbindSession :: "'r redis \<Rightarrow> string \<Rightarrow> 'r \<Rightarrow> store_error option \<times> 'r" where
  "UnbindSession R sess r = run_cmds R Command [RDel (prefixSess @ sess)] r"

section \<open>The store implements the recorder\<close>

text \<open>The records a server holds, as the recorder's contract sees them: a map from ids.\<close>

definition stored :: "rview \<Rightarrow> string \<Rightarrow> Record option" where
  "stored v k = (if k \<in> rv_set v keyActive then
     (case rv_str v (prefixRecord @ k) of None \<Rightarrow> None | Some b \<Rightarrow> (case unmarshalRecord b of Inl e \<Rightarrow> None | Inr rec \<Rightarrow> Some rec))
     else None)"

lemma store_keys [simp]:
  "prefixRecord @ k \<noteq> keyActive" "keyActive \<noteq> prefixRecord @ k" "prefixRecord @ k \<noteq> prefixBeat @ m" "prefixBeat @ m \<noteq> prefixRecord @ k"
  "prefixBeat @ k \<noteq> keyActive" "keyActive \<noteq> prefixBeat @ k"
  by (simp_all add: key_defs)

lemma run_cmds_None: "redis_laws R view \<Longrightarrow> run_cmds R err cs r = (None, r') \<Longrightarrow> view r' = fold rapply cs (view r)"
  using redis_lawsD(3) by (fastforce simp: run_cmds_def split: prod.splits option.splits)

lemma all_loop_stored:
  assumes laws: "redis_laws R view"
  shows "all_loop R ks r = (Inr recs, r') \<Longrightarrow> set ks \<subseteq> rv_set (view r) keyActive \<Longrightarrow> distinct ks \<Longrightarrow>
    map Some recs = filter (\<lambda>x. x \<noteq> None) (map (stored (view r)) ks) \<and> stored (view r') = stored (view r)"
proof (induction ks arbitrary: r recs)
  case (Cons k ks)
  show ?case
  proof (cases "rd_get R r (prefixRecord @ k)")
    case (Inl e)
    with Cons.prems show ?thesis by simp
  next
    case (Inr x)
    then have x: "x = rv_str (view r) (prefixRecord @ k)" using redis_lawsD(1) [OF laws] by blast
    show ?thesis
    proof (cases x)
      case None
      obtain e r1 where r1: "rd_exec R [RSRem keyActive k] r = (e, r1)" by fastforce
      have v: "view r1 = view r \<or> view r1 = rapply (RSRem keyActive k) (view r)" using rd_exec_one [OF laws r1] .
      have st: "stored (view r1) = stored (view r)" "stored (view r) k = None"
        using v None x by (auto simp: stored_def fun_eq_iff)
      have sub: "set ks \<subseteq> rv_set (view r1) keyActive" using v Cons.prems(2,3) by auto
      have "all_loop R ks r1 = (Inr recs, r')" using Cons.prems(1) Inr None r1 by simp
      from Cons.IH [OF this sub] Cons.prems(3) st show ?thesis by simp
    next
      case (Some b)
      then obtain rec where u: "unmarshalRecord b = Inr rec"
        using Cons.prems(1) Inr by (cases "unmarshalRecord b") auto
      obtain q r1 where q: "all_loop R ks r = (q, r1)" by fastforce
      then obtain recs' where q': "q = Inr recs'" "recs = rec # recs'" "r1 = r'"
        using Cons.prems(1) Inr Some u by (cases q) auto
      have "rv_str (view r) (prefixRecord @ k) = Some b" using x Some by simp
      then have "stored (view r) k = Some rec" using Cons.prems(2) u by (simp add: stored_def)
      with Cons.IH [of r recs'] Cons.prems(2,3) q q' show ?thesis by simp
    qed
  qed
qed simp

text \<open>
  C29: The store is a faithful recorder. Under Redis' documented behaviour, a save that succeeds makes the record retrievable under
  its id, exactly as saved, and no other record changes; a removal that succeeds removes exactly that id; and
  \<open>All\<close>, when it succeeds, returns each record held, once, and its clean-up of stale ids changes none of them.
\<close>

theorem store_refines_recorder:
  assumes "redis_laws R view"
  shows "(record_ok rec \<and> Save R rec r = (None, r1) \<longrightarrow> stored (view r1) = (stored (view r))(rc_ID rec \<mapsto> rec)) \<and>
    (RemoveRec R k r = (None, r2) \<longrightarrow> stored (view r2) = (stored (view r))(k := None)) \<and>
    (All R r = (Inr recs, r3) \<longrightarrow> stored (view r3) = stored (view r) \<and> set recs = ran (stored (view r)) \<and>
      (\<exists>ks. distinct ks \<and> map Some recs = filter (\<lambda>x. x \<noteq> None) (map (stored (view r)) ks)))"
proof (intro conjI impI)
  assume a: "record_ok rec \<and> Save R rec r = (None, r1)"
  then have "view r1 = fold rapply [RSet (prefixRecord @ rc_ID rec) (marshalRecord rec) 0, RSAdd keyActive (rc_ID rec)] (view r)"
    using run_cmds_None [OF assms] unfolding Save_def by blast
  then show "stored (view r1) = (stored (view r))(rc_ID rec \<mapsto> rec)"
    using unmarshal_marshal_record a by (auto simp: stored_def fun_eq_iff)
next
  assume "RemoveRec R k r = (None, r2)"
  then have "view r2 = fold rapply [RDel (prefixRecord @ k), RSRem keyActive k, RDel (prefixBeat @ k)] (view r)"
    using run_cmds_None [OF assms] unfolding RemoveRec_def by blast
  then show "stored (view r2) = (stored (view r))(k := None)"
    by (auto simp: stored_def fun_eq_iff split: option.splits)
next
  assume a: "All R r = (Inr recs, r3)"
  then obtain ks where ks: "rd_smembers R r keyActive = Inr ks" "all_loop R ks r = (Inr recs, r3)"
    by (auto simp: All_def split: sum.splits)
  have k: "distinct ks" "set ks = rv_set (view r) keyActive" using redis_lawsD(2) [OF assms ks(1)] by simp_all
  from all_loop_stored [OF assms ks(2)] k
  have l: "map Some recs = filter (\<lambda>x. x \<noteq> None) (map (stored (view r)) ks)" "stored (view r3) = stored (view r)" by simp_all
  then show "stored (view r3) = stored (view r)" "\<exists>ks. distinct ks \<and> map Some recs = filter (\<lambda>x. x \<noteq> None) (map (stored (view r)) ks)"
    using k by blast+
  have "Some ` set recs = {x. x \<noteq> None} \<inter> stored (view r) ` rv_set (view r) keyActive"
    using arg_cong [OF l(1), of set] k(2) by auto
  moreover have "stored (view r) m = None" if "m \<notin> rv_set (view r) keyActive" for m using that by (simp add: stored_def)
  ultimately show "set recs = ran (stored (view r))"
    unfolding ran_def by (auto simp: set_eq_iff image_iff) (metis option.inject option.distinct(1))+
qed

definition exStored :: Record where
  "exStored = \<lparr>rc_ID = ''sb-1'', rc_CID = 3, rc_PID = 4711, rc_VsockUDSPath = ''/v'', rc_SocketPath = ''/s'', rc_ChrootDir = ''/c'',
     rc_CgroupPath = ''/g'', rc_Status = StatusRunning, rc_CreatedAt = ''2024-02-29T12:00:00Z'',
     rc_Spec = \<lparr>sp_VCPUs = 1, sp_MemMiB = 256, sp_CPUPercent = 100, sp_PidsMax = 128\<rparr>\<rparr>"

theorem store_refines_recorder_witness:
  "\<exists>r1 r2. Save mem_server exStored mem_empty = (None, r1) \<and> stored (mem_view r1) ''sb-1'' = Some exStored \<and>
     RemoveRec mem_server ''sb-1'' r1 = (None, r2) \<and> stored (mem_view r2) ''sb-1'' = None"
proof -
  have "rfc3339 ''2024-02-29T12:00:00Z''" by code_simp
  then have ok: "record_ok exStored"
    by (auto simp: record_ok_def exStored_def StatusRunning_def int64_range_def code_def intro!: ascii_valid_utf8)
  obtain r1 where s: "Save mem_server exStored mem_empty = (None, r1)" by (simp add: Save_def run_cmds_def mem_server_def)
  obtain r2 where d: "RemoveRec mem_server ''sb-1'' r1 = (None, r2)" by (simp add: RemoveRec_def run_cmds_def mem_server_def)
  have "rc_ID exStored = ''sb-1''" by (simp add: exStored_def)
  with store_refines_recorder [OF mem_server_laws, of exStored mem_empty r1]
    store_refines_recorder [OF mem_server_laws, of exStored r1 r1 "''sb-1''" r2] ok s d show ?thesis by simp
qed

section \<open>The token bucket\<close>

record bucket =
  bk_tokens :: rat
  bk_ts :: int

text \<open>The script: the bucket it reads (\<open>None\<close> when the key is gone), whether the call is allowed, and the bucket it writes.\<close>

definition tokenBucketScript :: "rat \<Rightarrow> rat \<Rightarrow> int \<Rightarrow> rat \<Rightarrow> bucket option \<Rightarrow> bool \<times> bucket" where
  "tokenBucketScript capacity refill now needed vals =
     (let (tokens, ts) = (case vals of None \<Rightarrow> (capacity, now) | Some b \<Rightarrow> (bk_tokens b, bk_ts b));
          elapsed = (if now - ts < 0 then 0 else now - ts);
          tokens = tokens + (of_int elapsed / 1000) * refill;
          tokens = (if tokens > capacity then capacity else tokens)
      in if tokens \<ge> needed then (True, \<lparr>bk_tokens = tokens - needed, bk_ts = now\<rparr>)
         else (False, \<lparr>bk_tokens = tokens, bk_ts = now\<rparr>))"

definition bucketTTL :: "rat \<Rightarrow> rat \<Rightarrow> int" where
  "bucketTTL capacity refillPerSec = \<lfloor>capacity / refillPerSec\<rfloor> + 2"

text \<open>\<open>Allow\<close>: \<open>down\<close> is the error of running the script, if it fails; buckets are kept by key.\<close>

definition Allow ::
  "string option \<Rightarrow> int \<Rightarrow> string \<Rightarrow> rat \<Rightarrow> rat \<Rightarrow> rat \<Rightarrow> (string \<Rightarrow> bucket option) \<Rightarrow> (store_error, bool) result \<times> (string \<Rightarrow> bucket option)" where
  "Allow down now name capacity refillPerSec needed bs =
     (if refillPerSec \<le> 0 then (Inl BadRefill, bs)
      else case down of
        Some e \<Rightarrow> (Inl (RateLimit name e), bs)
      | None \<Rightarrow> (case tokenBucketScript capacity refillPerSec now needed (bs (prefixBucket @ name)) of
          (ok, b) \<Rightarrow> (Inr ok, bs(prefixBucket @ name \<mapsto> b))))"

text \<open>
  Calls on one bucket, in order: the time and cost of each and whether the key had expired before it. The total cost of the
  calls that were allowed.
\<close>

fun granted :: "rat \<Rightarrow> rat \<Rightarrow> string \<Rightarrow> (int \<times> rat \<times> bool) list \<Rightarrow> (string \<Rightarrow> bucket option) \<Rightarrow> rat" where
  "granted cap ref name [] bs = 0"
| "granted cap ref name ((now, needed, gone) # calls) bs =
     (case Allow None now name cap ref needed (if gone then bs(prefixBucket @ name := None) else bs) of
        (Inr True, bs') \<Rightarrow> needed + granted cap ref name calls bs'
      | (_, bs') \<Rightarrow> granted cap ref name calls bs')"

text \<open>The clock does not go back, costs are not negative, and a key expires only when its time to live has passed.\<close>

fun calls_ok :: "rat \<Rightarrow> rat \<Rightarrow> int \<Rightarrow> (int \<times> rat \<times> bool) list \<Rightarrow> bool" where
  "calls_ok cap ref ts [] \<longleftrightarrow> True"
| "calls_ok cap ref ts ((now, needed, gone) # calls) \<longleftrightarrow>
     ts \<le> now \<and> 0 \<le> needed \<and> (gone \<longrightarrow> ts + 1000 * bucketTTL cap ref \<le> now) \<and> calls_ok cap ref now calls"

lemma ttl_refills:
  assumes "0 < ref" "ts + 1000 * bucketTTL cap ref \<le> now"
  shows "cap \<le> (of_int (now - ts) / 1000) * ref"
proof -
  have "cap / ref < of_int (bucketTTL cap ref)" by (simp add: bucketTTL_def) linarith
  also have "(of_int (bucketTTL cap ref) :: rat) \<le> of_int (now - ts) / 1000"
  proof -
    have "(of_int (1000 * bucketTTL cap ref) :: rat) \<le> of_int (now - ts)" using assms(2) by (simp only: of_int_le_iff)
    then show ?thesis by simp
  qed
  finally have "cap / ref \<le> of_int (now - ts) / 1000" by simp
  then show ?thesis using assms(1) by (simp add: pos_divide_le_eq)
qed

lemma granted_bound:
  assumes "0 < ref" "0 \<le> cap"
  shows "calls_ok cap ref ts calls \<Longrightarrow> bs (prefixBucket @ name) = Some \<lparr>bk_tokens = tok, bk_ts = ts\<rparr> \<Longrightarrow> 0 \<le> tok \<Longrightarrow> tok \<le> cap \<Longrightarrow>
    granted cap ref name calls bs \<le> tok + (of_int (fold (\<lambda>(now, _) _. now) calls ts - ts) / 1000) * ref"
proof (induction calls arbitrary: ts tok bs)
  case Nil
  then show ?case by simp
next
  case (Cons c calls)
  obtain now needed gone where c: "c = (now, needed, gone)" by (metis prod_cases3)
  let ?fin = "fold (\<lambda>(now, _) _. now) calls now"
  define avail where "avail = (if gone then cap else min cap (tok + (of_int (now - ts) / 1000) * ref))"
  have ok: "ts \<le> now" "0 \<le> needed" "calls_ok cap ref now calls" using Cons.prems(1) c by simp_all
  have "0 \<le> (of_int (now - ts) / 1000) * ref" using ok(1) assms(1) by simp
  then have av: "0 \<le> avail" "avail \<le> cap" "avail \<le> tok + (of_int (now - ts) / 1000) * ref"
    using Cons.prems(1,3,4) assms(2) ttl_refills [OF assms(1), of ts cap now] c by (auto simp: avail_def)
  let ?bs = "if gone then bs(prefixBucket @ name := None) else bs"
  have script: "tokenBucketScript cap ref now needed (?bs (prefixBucket @ name)) =
      (avail \<ge> needed, \<lparr>bk_tokens = (if avail \<ge> needed then avail - needed else avail), bk_ts = now\<rparr>)"
    using ok(1) Cons.prems(2) by (auto simp: tokenBucketScript_def Let_def avail_def min_def)
  define left where "left = (if avail \<ge> needed then avail - needed else avail)"
  have g: "granted cap ref name (c # calls) bs = (if avail \<ge> needed then needed else 0) +
      granted cap ref name calls (?bs(prefixBucket @ name \<mapsto> \<lparr>bk_tokens = left, bk_ts = now\<rparr>))"
    using script assms(1) by (simp add: c Allow_def left_def)
  have "granted cap ref name calls (?bs(prefixBucket @ name \<mapsto> \<lparr>bk_tokens = left, bk_ts = now\<rparr>)) \<le>
      left + (of_int (?fin - now) / 1000) * ref"
    by (rule Cons.IH [OF ok(3)]) (use av ok(2) in \<open>auto simp: left_def\<close>)
  then have "granted cap ref name (c # calls) bs \<le> avail + (of_int (?fin - now) / 1000) * ref"
    unfolding g by (simp add: left_def split: if_splits)
  also have "\<dots> \<le> tok + (of_int (now - ts) / 1000) * ref + (of_int (?fin - now) / 1000) * ref" using av(3) by simp
  also have "\<dots> = tok + (of_int (?fin - ts) / 1000) * ref" by (simp add: field_simps)
  finally show ?case by (simp add: c)
qed



text \<open>A clock that goes back breaks the bound: the time stamp goes back with it and the same stretch of time is credited twice.\<close>

lemma rate_limit_clock_back:
  "granted 1 1 ''ip'' [(1000, 1, True), (0, 1, False), (1000, 1, False)] Map.empty = 2"
  by (simp add: Allow_def tokenBucketScript_def)

end
