(* ===== verification/PgServer.thy ===== *)
theory PgServer
  imports Json "HOL-Library.Multiset"
begin

text \<open>
  The rows of the durable store (\<open>internal/store/pg/models.go\<close> with the schema of
  \<open>migrations/0001_init.sql\<close>) and what the repositories use of Postgres. The server and the client library pgx
  are not part of the sources: they are a parameter that runs statements, a statement being given by its
  meaning on the tables, and \<open>pg_laws\<close> states the documented behaviour. An in-memory server shows that the laws can hold.
\<close>

section \<open>Models\<close>

text \<open>Times are microseconds, the resolution of a \<open>timestamptz\<close>.\<close>

type_synonym pgtime = int

definition RoleAdmin :: string where "RoleAdmin = ''admin''"
definition RoleOperator :: string where "RoleOperator = ''operator''"
definition RoleViewer :: string where "RoleViewer = ''viewer''"

lemma role_distinct [simp]: "RoleAdmin \<noteq> RoleOperator" "RoleOperator \<noteq> RoleAdmin" "RoleOperator \<noteq> []" "RoleAdmin \<noteq> []"
  by (simp_all add: RoleAdmin_def RoleOperator_def)

record User =
  us_ID :: string
  us_Username :: string
  us_PasswordHash :: string
  us_Role :: string
  us_Disabled :: bool
  us_CreatedAt :: pgtime

record Session =
  se_ID :: string
  se_UserID :: string
  se_CreatedAt :: pgtime
  se_ExpiresAt :: pgtime
  se_LastSeenAt :: pgtime
  se_UserAgent :: string
  se_IP :: "string option"

definition SandboxRunning :: string where "SandboxRunning = ''running''"
definition SandboxStopped :: string where "SandboxStopped = ''stopped''"
definition SandboxArchived :: string where "SandboxArchived = ''archived''"

lemmas status_defs = SandboxRunning_def SandboxStopped_def SandboxArchived_def

text \<open>The struct \<open>pg.Sandbox\<close>; \<open>sandbox_row\<close> is the row, in which the owner and the CID may be NULL.\<close>

record pg_Sandbox =
  sb_ID :: string
  sb_OwnerID :: string
  sb_Name :: string
  sb_Status :: string
  sb_VCPUs :: int
  sb_MemMiB :: int
  sb_CPUPercent :: int
  sb_PidsMax :: int
  sb_CID :: int
  sb_CreatedAt :: pgtime
  sb_StoppedAt :: "pgtime option"
  sb_LastUsedAt :: pgtime

record sandbox_row =
  sr_id :: string
  sr_owner :: "string option"
  sr_name :: string
  sr_status :: string
  sr_vcpus :: int
  sr_mem :: int
  sr_cpu :: int
  sr_pids :: int
  sr_cid :: "int option"
  sr_created :: pgtime
  sr_stopped :: "pgtime option"
  sr_used :: pgtime

record pg_Snapshot =
  sn_ID :: string
  sn_SandboxID :: string
  sn_MemFilePath :: string
  sn_StateFilePath :: string
  sn_DiskFilePath :: string
  sn_SizeBytes :: int
  sn_GuestVCPUs :: int
  sn_GuestMemMiB :: int
  sn_Label :: string
  sn_CreatedAt :: pgtime

definition KindInput :: string where "KindInput = ''input''"
definition KindOutput :: string where "KindOutput = ''output''"
definition KindExit :: string where "KindExit = ''exit''"
definition KindHITL :: string where "KindHITL = ''hitl''"
definition KindSystem :: string where "KindSystem = ''system''"

lemmas line_kind_defs = KindInput_def KindOutput_def KindExit_def KindHITL_def KindSystem_def

record TranscriptLine =
  tl_ID :: int
  tl_SandboxID :: string
  tl_Seq :: int
  tl_TS :: pgtime
  tl_Kind :: string
  tl_Data :: string
  tl_ExitCode :: "int option"

record AuditEntry =
  ae_ID :: int
  ae_UserID :: "string option"
  ae_Action :: string
  ae_Target :: string
  ae_Detail :: "bytes option"
  ae_TS :: pgtime

section \<open>Tables and statements\<close>

record tables =
  tb_users :: "User list"
  tb_sessions :: "Session list"
  tb_sandboxes :: "sandbox_row list"
  tb_snapshots :: "pg_Snapshot list"
  tb_lines :: "TranscriptLine list"
  tb_audit :: "AuditEntry list"
  tb_versions :: "string list"
  tb_scripts :: "bytes list"

text \<open>
  \<open>tb_versions\<close> is the table \<open>schema_migrations\<close> and \<open>tb_scripts\<close> the migration scripts executed so far, in order. What a statement takes
  from the server: \<open>now()\<close>, the next value of \<open>gen_random_uuid()\<close> and the next value of a \<open>bigserial\<close>.
\<close>

record env =
  ev_now :: pgtime
  ev_uuid :: string
  ev_serial :: int

datatype cell = CText string | CInt int | CBool bool | CTime pgtime | CNull

record qres =
  q_rows :: "cell list list"
  q_affected :: int

text \<open>The meaning of a statement: its result and the new tables, or \<open>None\<close> when a constraint refuses it.\<close>

type_synonym stmt = "env \<Rightarrow> tables \<Rightarrow> (qres \<times> tables) option"

definition done_rows :: "cell list list \<Rightarrow> tables \<Rightarrow> (qres \<times> tables) option" where
  "done_rows rs T = Some (\<lparr>q_rows = rs, q_affected = int (length rs)\<rparr>, T)"

definition done_count :: "nat \<Rightarrow> tables \<Rightarrow> (qres \<times> tables) option" where
  "done_count n T = Some (\<lparr>q_rows = [], q_affected = int n\<rparr>, T)"

text \<open>A \<open>text\<close> value is valid UTF-8 without NUL; an \<open>integer\<close> has 32 bits.\<close>

definition text_ok :: "string \<Rightarrow> bool" where
  "text_ok s \<longleftrightarrow> valid_utf8 s \<and> CHR 0x00 \<notin> set s"

definition int4 :: "int \<Rightarrow> bool" where
  "int4 i \<longleftrightarrow> - (2 ^ 31) \<le> i \<and> i < 2 ^ 31"

text \<open>
  The input conversion of type \<open>uuid\<close>: 32 hexadecimal digits in either case, a hyphen allowed after every group of
  four, optional braces around them; the value is written back in its canonical form.
\<close>

fun uuid_digits :: "nat \<Rightarrow> string \<Rightarrow> string option" where
  "uuid_digits n [] = (if n = 32 then Some [] else None)"
| "uuid_digits n (c # s) =
     (if c = CHR ''-'' then (if n mod 4 = 0 \<and> 0 < n \<and> n < 32 \<and> (case s of [] \<Rightarrow> False | d # _ \<Rightarrow> d \<noteq> CHR ''-'')
                             then uuid_digits n s else None)
      else case hex_val c of None \<Rightarrow> None
        | Some v \<Rightarrow> if n < 32 then map_option (\<lambda>ds. hex_char (nat v) # ds) (uuid_digits (n + 1) s) else None)"

definition uuid_text :: "string \<Rightarrow> string" where
  "uuid_text ds = take 8 ds @ ''-'' @ take 4 (drop 8 ds) @ ''-'' @ take 4 (drop 12 ds) @ ''-'' @
     take 4 (drop 16 ds) @ ''-'' @ drop 20 ds"

definition uuid_in :: "string \<Rightarrow> string option" where
  "uuid_in s = (let b = (if s \<noteq> [] \<and> hd s = CHR ''{'' \<and> last s = CHR ''}'' then butlast (tl s) else s)
     in map_option uuid_text (uuid_digits 0 b))"

text \<open>A canonical form is its own value.\<close>

definition lower_hex :: "char \<Rightarrow> bool" where
  "lower_hex c \<longleftrightarrow> (\<exists>v. hex_val c = Some v \<and> hex_char (nat v) = c)"

lemma lower_hex_hex_char: "d < 16 \<Longrightarrow> lower_hex (hex_char d)"
proof -
  assume "d < 16"
  then have "d \<in> {0, 1, 2, 3, 4, 5, 6, 7, 8, 9, 10, 11, 12, 13, 14, 15}" by simp presburger
  then show ?thesis unfolding lower_hex_def hex_char_def hex_val_def by (auto simp: code_def)
qed

lemma hex_val_range: "hex_val c = Some v \<Longrightarrow> 0 \<le> v \<and> v < 16"
  by (auto simp: hex_val_def split: if_splits)

lemma uuid_digits_out: "uuid_digits n s = Some ds \<Longrightarrow> list_all lower_hex ds \<and> n + length ds = 32"
proof (induction n s arbitrary: ds rule: uuid_digits.induct)
  case (2 n c s)
  then show ?case
    by (auto split: if_splits option.splits dest!: hex_val_range intro!: lower_hex_hex_char)
qed (auto split: if_splits)

lemma lower_hex_not_hyphen: "lower_hex c \<Longrightarrow> c \<noteq> CHR ''-''"
  by (auto simp: lower_hex_def hex_val_def code_def)

lemma uuid_digits_run:
  "list_all lower_hex xs \<Longrightarrow> n + length xs \<le> 32 \<Longrightarrow>
   uuid_digits n (xs @ s) = map_option ((@) xs) (uuid_digits (n + length xs) s)"
proof (induction xs arbitrary: n)
  case Nil
  then show ?case by (simp add: option.map_ident)
next
  case (Cons c xs)
  then have c: "lower_hex c" by simp
  then obtain v where v: "hex_val c = Some v" "hex_char (nat v) = c" unfolding lower_hex_def by blast
  with lower_hex_not_hyphen [OF c] Cons show ?case by (simp add: option.map_comp comp_def)
qed

lemma uuid_digits_hyphen:
  "lower_hex c \<Longrightarrow> n mod 4 = 0 \<Longrightarrow> 0 < n \<Longrightarrow> n < 32 \<Longrightarrow> uuid_digits n (CHR ''-'' # c # s) = uuid_digits n (c # s)"
  using lower_hex_not_hyphen by (subst uuid_digits.simps) simp

lemma uuid_digits_text:
  assumes "list_all lower_hex ds" "length ds = 32"
  shows "uuid_digits 0 (uuid_text ds) = Some ds"
proof -
  obtain a b c d x where ds: "ds = a @ b @ c @ d @ x" "length a = 8" "length b = 4" "length c = 4" "length d = 4" "length x = 12"
  proof (rule that [of "take 8 ds" "take 4 (drop 8 ds)" "take 4 (drop 12 ds)" "take 4 (drop 16 ds)" "drop 20 ds"])
    have cut: "drop n ds = take 4 (drop n ds) @ drop (n + 4) ds" for n
      using append_take_drop_id [of 4 "drop n ds"] by (simp add: add.commute)
    have "ds = take 8 ds @ drop 8 ds" by simp
    also have "drop 8 ds = take 4 (drop 8 ds) @ drop 12 ds" using cut [of 8] by simp
    also have "drop 12 ds = take 4 (drop 12 ds) @ drop 16 ds" using cut [of 12] by simp
    also have "drop 16 ds = take 4 (drop 16 ds) @ drop 20 ds" using cut [of 16] by simp
    finally show "ds = take 8 ds @ take 4 (drop 8 ds) @ take 4 (drop 12 ds) @ take 4 (drop 16 ds) @ drop 20 ds" .
  qed (use assms(2) in simp_all)
  then have t: "uuid_text ds = a @ CHR ''-'' # b @ CHR ''-'' # c @ CHR ''-'' # d @ CHR ''-'' # x"
    by (simp add: uuid_text_def)
  have step: "uuid_digits n (CHR ''-'' # y @ s) = map_option ((@) y) (uuid_digits (n + length y) s)"
    if "list_all lower_hex y" "y \<noteq> []" "n mod 4 = 0" "0 < n" "n + length y \<le> 32" for n y s
    using that uuid_digits_hyphen [of "hd y" n "tl y @ s"] uuid_digits_run [of y n s] by (cases y) auto
  have ne: "b \<noteq> []" "c \<noteq> []" "d \<noteq> []" "x \<noteq> []" using ds by auto
  have h: "list_all lower_hex a" "list_all lower_hex b" "list_all lower_hex c" "list_all lower_hex d" "list_all lower_hex x"
    using assms(1) ds(1) by simp_all
  have "uuid_digits 20 (CHR ''-'' # x) = Some x"
    using step [OF h(5) ne(4), of 20 "[]"] ds by (simp del: uuid_digits.simps(2))
  then show ?thesis
    using uuid_digits_run [OF h(1), of 0] step [OF h(2) ne(1), of 8] step [OF h(3) ne(2), of 12] step [OF h(4) ne(3), of 16] ds
    unfolding t by (simp del: uuid_digits.simps(2))
qed

lemma hd_uuid_text: "list_all lower_hex ds \<Longrightarrow> length ds = 32 \<Longrightarrow> hd (uuid_text ds) \<noteq> CHR ''{''"
proof -
  assume "list_all lower_hex ds" "length ds = 32"
  then obtain c xs where c: "ds = c # xs" "lower_hex c" by (cases ds) auto
  then have "c \<noteq> CHR ''{''" by (auto simp: lower_hex_def hex_val_def code_def)
  with c show ?thesis by (simp add: uuid_text_def)
qed

lemma uuid_in_digits: "list_all lower_hex ds \<Longrightarrow> length ds = 32 \<Longrightarrow> uuid_in (uuid_text ds) = Some (uuid_text ds)"
  using uuid_digits_text [of ds] hd_uuid_text [of ds] by (simp add: uuid_in_def)

lemma uuid_in_canonical:
  assumes "uuid_in s = Some k"
  shows "uuid_in k = Some k"
proof -
  obtain ds where ds: "k = uuid_text ds" "list_all lower_hex ds" "length ds = 32"
    using assms by (auto simp: uuid_in_def Let_def dest!: uuid_digits_out)
  then show ?thesis by (simp add: uuid_in_digits)
qed

section \<open>The server\<close>

text \<open>
  \<open>pq_run\<close> runs one statement; \<open>pq_rows_err\<close> is what \<open>rows.Err()\<close> reports after the rows of a query have been read;
  the other functions are a transaction, which is given by the statements executed in it so far.
\<close>

record 'd pool =
  pq_env :: "'d \<Rightarrow> env"
  pq_run :: "stmt \<Rightarrow> 'd \<Rightarrow> (string, qres) result \<times> 'd"
  pq_rows_err :: "'d \<Rightarrow> string option"
  pq_begin :: "'d \<Rightarrow> string option \<times> 'd"
  pq_tx_exec :: "stmt list \<Rightarrow> stmt \<Rightarrow> 'd \<Rightarrow> string option \<times> 'd"
  pq_rollback :: "'d \<Rightarrow> 'd"
  pq_commit :: "stmt list \<Rightarrow> 'd \<Rightarrow> string option \<times> 'd"

text \<open>Tables are sets of rows: their order is the server's affair. The migration scripts are in the order of their execution.\<close>

definition same_rows :: "tables \<Rightarrow> tables \<Rightarrow> bool" where
  "same_rows T T' \<longleftrightarrow> mset (tb_users T) = mset (tb_users T') \<and> mset (tb_sessions T) = mset (tb_sessions T') \<and>
     mset (tb_sandboxes T) = mset (tb_sandboxes T') \<and> mset (tb_snapshots T) = mset (tb_snapshots T') \<and>
     mset (tb_lines T) = mset (tb_lines T') \<and> mset (tb_audit T) = mset (tb_audit T') \<and>
     mset (tb_versions T) = mset (tb_versions T') \<and> tb_scripts T = tb_scripts T'"

lemma same_rows_refl [simp]: "same_rows T T"
  by (simp add: same_rows_def)

lemma same_rows_sym: "same_rows T T' \<Longrightarrow> same_rows T' T"
  by (simp add: same_rows_def)

lemma same_rows_trans [trans]: "same_rows T T' \<Longrightarrow> same_rows T' T'' \<Longrightarrow> same_rows T T''"
  by (simp add: same_rows_def)

lemma same_rows_sets:
  assumes "same_rows T T'"
  shows "set (tb_users T) = set (tb_users T')" "set (tb_sessions T) = set (tb_sessions T')"
    "set (tb_sandboxes T) = set (tb_sandboxes T')" "set (tb_snapshots T) = set (tb_snapshots T')"
    "set (tb_lines T) = set (tb_lines T')" "set (tb_audit T) = set (tb_audit T')" "set (tb_versions T) = set (tb_versions T')"
    "tb_scripts T = tb_scripts T'"
  using assms unfolding same_rows_def by (auto dest: mset_eq_setD)

fun tx_run :: "stmt list \<Rightarrow> env \<Rightarrow> tables \<Rightarrow> tables option" where
  "tx_run [] ev T = Some T"
| "tx_run (q # qs) ev T = (case q ev T of None \<Rightarrow> None | Some (r, T') \<Rightarrow> tx_run qs ev T')"

definition took_effect :: "stmt \<Rightarrow> env \<Rightarrow> tables \<Rightarrow> tables \<Rightarrow> bool" where
  "took_effect q ev T T' \<longleftrightarrow> (\<exists>r T1. q ev T = Some (r, T1) \<and> same_rows T1 T')"

text \<open>
  Documented behaviour. A statement that succeeds has its result and its effect; one that fails has no effect,
  unless the connection broke after it was committed. A transaction has no effect before its commit, and
  all of its effects or none after it. Generated identifiers are in canonical form.
\<close>

definition pg_laws :: "'d pool \<Rightarrow> ('d \<Rightarrow> tables) \<Rightarrow> bool" where
  "pg_laws P view \<longleftrightarrow>
     (\<forall>q d r d'. pq_run P q d = (Inr r, d') \<longrightarrow>
        (\<exists>T. q (pq_env P d) (view d) = Some (r, T) \<and> same_rows T (view d'))) \<and>
     (\<forall>q d e d'. pq_run P q d = (Inl e, d') \<longrightarrow>
        same_rows (view d) (view d') \<or> took_effect q (pq_env P d) (view d) (view d')) \<and>
     (\<forall>d. uuid_in (ev_uuid (pq_env P d)) = Some (ev_uuid (pq_env P d))) \<and>
     (\<forall>d. same_rows (view d) (view (snd (pq_begin P d)))) \<and>
     (\<forall>qs q d. same_rows (view d) (view (snd (pq_tx_exec P qs q d)))) \<and>
     (\<forall>d. same_rows (view d) (view (pq_rollback P d))) \<and>
     (\<forall>qs d d'. pq_commit P qs d = (None, d') \<longrightarrow>
        (\<exists>T. tx_run qs (pq_env P d) (view d) = Some T \<and> same_rows T (view d'))) \<and>
     (\<forall>qs d e d'. pq_commit P qs d = (Some e, d') \<longrightarrow> same_rows (view d) (view d') \<or>
        (\<exists>T. tx_run qs (pq_env P d) (view d) = Some T \<and> same_rows T (view d')))"

text \<open>A server that is up executes every statement its constraints allow.\<close>

definition pg_up :: "'d pool \<Rightarrow> ('d \<Rightarrow> tables) \<Rightarrow> bool" where
  "pg_up P view \<longleftrightarrow> (\<forall>q d r T. q (pq_env P d) (view d) = Some (r, T) \<longrightarrow> (\<exists>d'. pq_run P q d = (Inr r, d'))) \<and>
     (\<forall>d. pq_rows_err P d = None)"

lemma pg_lawsD:
  assumes "pg_laws P view"
  shows pg_run_ok: "pq_run P q d = (Inr r, d') \<Longrightarrow> \<exists>T. q (pq_env P d) (view d) = Some (r, T) \<and> same_rows T (view d')"
    and pg_run_err: "pq_run P q d = (Inl e, d') \<Longrightarrow>
      same_rows (view d) (view d') \<or> took_effect q (pq_env P d) (view d) (view d')"
    and pg_uuid: "uuid_in (ev_uuid (pq_env P d)) = Some (ev_uuid (pq_env P d))"
    and pg_begin: "pq_begin P d = (x, d') \<Longrightarrow> same_rows (view d) (view d')"
    and pg_tx_exec: "pq_tx_exec P qs q d = (x, d') \<Longrightarrow> same_rows (view d) (view d')"
    and pg_rollback: "same_rows (view d) (view (pq_rollback P d))"
    and pg_commit: "pq_commit P qs d = (None, d') \<Longrightarrow>
      \<exists>T. tx_run qs (pq_env P d) (view d) = Some T \<and> same_rows T (view d')"
    and pg_commit_err: "pq_commit P qs d = (Some e, d') \<Longrightarrow> same_rows (view d) (view d') \<or>
      (\<exists>T. tx_run qs (pq_env P d) (view d) = Some T \<and> same_rows T (view d'))"
  using assms unfolding pg_laws_def by (metis snd_conv)+

text \<open>Whatever it reports, a statement has no effect or the one it says.\<close>

lemma pg_run_any:
  assumes "pg_laws P view" "pq_run P q d = (x, d')"
  shows "same_rows (view d) (view d') \<or> took_effect q (pq_env P d) (view d) (view d')"
proof (cases x)
  case Inl
  then show ?thesis using pg_run_err [OF assms(1)] assms(2) by blast
next
  case Inr
  then show ?thesis using pg_run_ok [OF assms(1)] assms(2) unfolding took_effect_def by blast
qed

lemma took_effectE:
  assumes "same_rows T T' \<or> took_effect q ev T T'"
  obtains "same_rows T T'" | r T1 where "q ev T = Some (r, T1)" "same_rows T1 T'"
  using assms unfolding took_effect_def by blast

section \<open>An in-memory server\<close>

record mem_pg =
  mp_tables :: tables
  mp_clock :: nat

definition mem_env :: "mem_pg \<Rightarrow> env" where
  "mem_env m = \<lparr>ev_now = int (mp_clock m),
     ev_uuid = uuid_text (let ds = replicate 32 CHR ''0'' @ dec_digits (mp_clock m) in drop (length ds - 32) ds), ev_serial = int (mp_clock m)\<rparr>"

definition mem_pool :: "mem_pg pool" where
  "mem_pool = \<lparr>pq_env = mem_env,
     pq_run = \<lambda>q m. (case q (mem_env m) (mp_tables m) of
        None \<Rightarrow> (Inl ''constraint'', m\<lparr>mp_clock := mp_clock m + 1\<rparr>)
      | Some (r, T) \<Rightarrow> (Inr r, m\<lparr>mp_tables := T, mp_clock := mp_clock m + 1\<rparr>)),
     pq_rows_err = \<lambda>m. None, pq_begin = \<lambda>m. (None, m),
     pq_tx_exec = \<lambda>qs q m. (if tx_run (qs @ [q]) (mem_env m) (mp_tables m) = None then Some ''constraint'' else None, m),
     pq_rollback = \<lambda>m. m,
     pq_commit = \<lambda>qs m. (case tx_run qs (mem_env m) (mp_tables m) of
        None \<Rightarrow> (Some ''constraint'', m) | Some T \<Rightarrow> (None, m\<lparr>mp_tables := T, mp_clock := mp_clock m + 1\<rparr>))\<rparr>"

lemma lower_hex_digit_char: "d < 10 \<Longrightarrow> lower_hex (digit_char d)"
  by (drule less_10_cases) (auto simp: digit_char_def lower_hex_def hex_val_def hex_char_def code_def)

lemma lower_hex_digits: "list_all lower_hex (dec_digits n)"
proof (induction n rule: dec_digits.induct)
  case (1 n)
  then show ?case
    by (cases "n < 10") (simp_all add: dec_digits.simps [of n] lower_hex_digit_char)
qed

lemma mem_uuid: "uuid_in (ev_uuid (mem_env m)) = Some (ev_uuid (mem_env m))"
proof -
  have "lower_hex CHR ''0''" by (auto simp: lower_hex_def hex_val_def hex_char_def code_def)
  then show ?thesis
    using lower_hex_digits [of "mp_clock m"]
    by (auto simp: mem_env_def Let_def list_all_iff intro!: uuid_in_digits dest!: in_set_dropD)
qed

lemma mem_pool_laws: "pg_laws mem_pool mp_tables"
  unfolding pg_laws_def mem_pool_def took_effect_def by (auto simp: mem_uuid split: option.splits)

lemma mem_pool_up: "pg_up mem_pool mp_tables"
  unfolding pg_up_def mem_pool_def by auto

definition no_rows :: tables where
  "no_rows = \<lparr>tb_users = [], tb_sessions = [], tb_sandboxes = [], tb_snapshots = [], tb_lines = [], tb_audit = [],
     tb_versions = [], tb_scripts = []\<rparr>"

end
