(* ===== verification/PgStore.thy ===== *)
theory PgStore
  imports PgServer "HOL-Library.Char_ord" "HOL-Library.List_Lexorder"
begin

text \<open>
  The durable store (\<open>internal/store/pg\<close>): one group of definitions per repository, each operation
  with the statement it sends (\<open>sql_\<dots>\<close>, the meaning of the statement's text on the tables) and its handling
  of errors and rows; then the connection string and the migrations. The theorems are about login sessions,
  the history of sandboxes, transcripts, migrations and the connection string.
\<close>

section \<open>Errors and rows\<close>

text \<open>\<open>PgNotFound\<close> is \<open>pg.ErrNotFound\<close>; the others wrap an error of the client under a text.\<close>

datatype pg_error = PgNotFound | PgErr string string

datatype qerr = ErrNoRows | QErr string

definition exec :: "'d pool \<Rightarrow> stmt \<Rightarrow> string \<Rightarrow> 'd \<Rightarrow> (pg_error, int) result \<times> 'd" where
  "exec P q what d = (case pq_run P q d of
      (Inl e, d') \<Rightarrow> (Inl (PgErr what e), d')
    | (Inr r, d') \<Rightarrow> (Inr (q_affected r), d'))"

definition query_row :: "'d pool \<Rightarrow> (cell list \<Rightarrow> (string, 'a) result) \<Rightarrow> stmt \<Rightarrow> 'd \<Rightarrow> (qerr, 'a) result \<times> 'd" where
  "query_row P scan q d = (case pq_run P q d of
      (Inl e, d') \<Rightarrow> (Inl (QErr e), d')
    | (Inr r, d') \<Rightarrow> (case q_rows r of
        [] \<Rightarrow> (Inl ErrNoRows, d')
      | row # _ \<Rightarrow> (case scan row of Inl e \<Rightarrow> (Inl (QErr e), d') | Inr a \<Rightarrow> (Inr a, d'))))"

fun scan_all :: "(cell list \<Rightarrow> (string, 'a) result) \<Rightarrow> cell list list \<Rightarrow> (string, 'a list) result" where
  "scan_all scan [] = Inr []"
| "scan_all scan (row # rows) = rbind (scan row) (\<lambda>a. rbind (scan_all scan rows) (\<lambda>as. Inr (a # as)))"

definition query_rows ::
  "'d pool \<Rightarrow> (cell list \<Rightarrow> (string, 'a) result) \<Rightarrow> stmt \<Rightarrow> string \<Rightarrow> string \<Rightarrow> 'd \<Rightarrow> (pg_error, 'a list) result \<times> 'd" where
  "query_rows P scan q what what_scan d = (case pq_run P q d of
      (Inl e, d') \<Rightarrow> (Inl (PgErr what e), d')
    | (Inr r, d') \<Rightarrow> (case scan_all scan (q_rows r) of
        Inl e \<Rightarrow> (Inl (PgErr what_scan e), d')
      | Inr as \<Rightarrow> (case pq_rows_err P d' of Some e \<Rightarrow> (Inl (PgErr [] e), d') | None \<Rightarrow> (Inr as, d'))))"

definition or_not_found :: "string \<Rightarrow> (qerr, 'a) result \<times> 'd \<Rightarrow> (pg_error, 'a) result \<times> 'd" where
  "or_not_found what x = (case x of
      (Inl ErrNoRows, d) \<Rightarrow> (Inl PgNotFound, d)
    | (Inl (QErr e), d) \<Rightarrow> (Inl (PgErr what e), d)
    | (Inr a, d) \<Rightarrow> (Inr a, d))"

definition or_error :: "string \<Rightarrow> (qerr, 'a) result \<times> 'd \<Rightarrow> (pg_error, 'a) result \<times> 'd" where
  "or_error what x = (case x of
      (Inl ErrNoRows, d) \<Rightarrow> (Inl (PgErr what ''no rows in result set''), d)
    | (Inl (QErr e), d) \<Rightarrow> (Inl (PgErr what e), d)
    | (Inr a, d) \<Rightarrow> (Inr a, d))"

section \<open>Users\<close>

definition user_cells :: "User \<Rightarrow> cell list" where
  "user_cells u = [CText (us_ID u), CText (us_Username u), CText (us_PasswordHash u), CText (us_Role u),
     CBool (us_Disabled u), CTime (us_CreatedAt u)]"

definition scanUser :: "cell list \<Rightarrow> (string, User) result" where
  "scanUser cs = (case cs of
      [CText i, CText n, CText h, CText r, CBool b, CTime t] \<Rightarrow>
        Inr \<lparr>us_ID = i, us_Username = n, us_PasswordHash = h, us_Role = r, us_Disabled = b, us_CreatedAt = t\<rparr>
    | _ \<Rightarrow> Inl ''scan'')"

definition sql_insert_user :: "string \<Rightarrow> string \<Rightarrow> string \<Rightarrow> stmt" where
  "sql_insert_user name hash role ev T =
     (let u = \<lparr>us_ID = ev_uuid ev, us_Username = name, us_PasswordHash = hash, us_Role = role, us_Disabled = False,
               us_CreatedAt = ev_now ev\<rparr> in
      if text_ok name \<and> text_ok hash \<and> text_ok role \<and> name \<notin> us_Username ` set (tb_users T) \<and>
         ev_uuid ev \<notin> us_ID ` set (tb_users T)
      then done_rows [user_cells u] (T\<lparr>tb_users := tb_users T @ [u]\<rparr>) else None)"

definition UserRepo_Create :: "'d pool \<Rightarrow> string \<Rightarrow> string \<Rightarrow> string \<Rightarrow> 'd \<Rightarrow> (pg_error, User) result \<times> 'd" where
  "UserRepo_Create P username passwordHash role d =
     (let role = (if role = [] then RoleOperator else role)
      in or_error ''pg: create user'' (query_row P scanUser (sql_insert_user username passwordHash role) d))"

definition sql_user_by_name :: "string \<Rightarrow> stmt" where
  "sql_user_by_name name ev T =
     (if text_ok name then done_rows (map user_cells (filter (\<lambda>u. us_Username u = name) (tb_users T))) T else None)"

definition UserRepo_ByUsername :: "'d pool \<Rightarrow> string \<Rightarrow> 'd \<Rightarrow> (pg_error, User) result \<times> 'd" where
  "UserRepo_ByUsername P username d =
     or_not_found ''pg: user by username'' (query_row P scanUser (sql_user_by_name username) d)"

definition sql_user_by_id :: "string \<Rightarrow> stmt" where
  "sql_user_by_id i ev T = (case uuid_in i of
      None \<Rightarrow> None
    | Some k \<Rightarrow> done_rows (map user_cells (filter (\<lambda>u. us_ID u = k) (tb_users T))) T)"

definition UserRepo_ByID :: "'d pool \<Rightarrow> string \<Rightarrow> 'd \<Rightarrow> (pg_error, User) result \<times> 'd" where
  "UserRepo_ByID P i d = or_not_found ''pg: user by id'' (query_row P scanUser (sql_user_by_id i) d)"

definition sql_count_users :: stmt where
  "sql_count_users ev T = done_rows [[CInt (int (length (tb_users T)))]] T"

definition scanInt :: "cell list \<Rightarrow> (string, int) result" where
  "scanInt cs = (case cs of [CInt n] \<Rightarrow> Inr n | _ \<Rightarrow> Inl ''scan'')"

definition UserRepo_Count :: "'d pool \<Rightarrow> 'd \<Rightarrow> (pg_error, int) result \<times> 'd" where
  "UserRepo_Count P d = or_error ''pg: count users'' (query_row P scanInt sql_count_users d)"

definition sql_list_users :: stmt where
  "sql_list_users ev T = done_rows (map user_cells (sort_key us_CreatedAt (tb_users T))) T"

definition UserRepo_List :: "'d pool \<Rightarrow> 'd \<Rightarrow> (pg_error, User list) result \<times> 'd" where
  "UserRepo_List P d = query_rows P scanUser sql_list_users ''pg: list users'' ''pg: scan user'' d"

definition sql_set_disabled :: "string \<Rightarrow> bool \<Rightarrow> stmt" where
  "sql_set_disabled i b ev T = (case uuid_in i of
      None \<Rightarrow> None
    | Some k \<Rightarrow> done_count (length (filter (\<lambda>u. us_ID u = k) (tb_users T)))
        (T\<lparr>tb_users := map (\<lambda>u. if us_ID u = k then u\<lparr>us_Disabled := b\<rparr> else u) (tb_users T)\<rparr>))"

definition UserRepo_SetDisabled :: "'d pool \<Rightarrow> string \<Rightarrow> bool \<Rightarrow> 'd \<Rightarrow> (pg_error, int) result \<times> 'd" where
  "UserRepo_SetDisabled P i disabled d = exec P (sql_set_disabled i disabled) ''pg: set disabled'' d"

section \<open>Login sessions\<close>

definition sql_insert_session :: "string \<Rightarrow> string \<Rightarrow> pgtime \<Rightarrow> string \<Rightarrow> string option \<Rightarrow> stmt" where
  "sql_insert_session i uid expires agent ip ev T = (case (uuid_in i, uuid_in uid) of
      (Some k, Some ku) \<Rightarrow>
        if k \<notin> se_ID ` set (tb_sessions T) \<and> ku \<in> us_ID ` set (tb_users T) \<and> text_ok agent
        then done_count 1 (T\<lparr>tb_sessions := tb_sessions T @
          [\<lparr>se_ID = k, se_UserID = ku, se_CreatedAt = ev_now ev, se_ExpiresAt = expires, se_LastSeenAt = ev_now ev,
            se_UserAgent = agent, se_IP = ip\<rparr>]\<rparr>)
        else None
    | _ \<Rightarrow> None)"

definition SessionRepo_Create ::
  "'d pool \<Rightarrow> string \<Rightarrow> string \<Rightarrow> pgtime \<Rightarrow> string \<Rightarrow> string \<Rightarrow> 'd \<Rightarrow> (pg_error, int) result \<times> 'd" where
  "SessionRepo_Create P i userID expiresAt userAgent ip d =
     (let ipArg = (if ip \<noteq> [] then Some ip else None)
      in exec P (sql_insert_session i userID expiresAt userAgent ipArg) ''pg: create session'' d)"

definition live_session :: "string \<Rightarrow> pgtime \<Rightarrow> Session \<Rightarrow> bool" where
  "live_session k now s \<longleftrightarrow> se_ID s = k \<and> se_ExpiresAt s > now"

definition sql_touch_session :: "string \<Rightarrow> stmt" where
  "sql_touch_session i ev T = (case uuid_in i of
      None \<Rightarrow> None
    | Some k \<Rightarrow> done_rows (map (\<lambda>s. [CText (se_UserID s)]) (filter (live_session k (ev_now ev)) (tb_sessions T)))
        (T\<lparr>tb_sessions := map (\<lambda>s. if live_session k (ev_now ev) s then s\<lparr>se_LastSeenAt := ev_now ev\<rparr> else s) (tb_sessions T)\<rparr>))"

definition sql_enabled_user :: "string \<Rightarrow> stmt" where
  "sql_enabled_user i ev T = (case uuid_in i of
      None \<Rightarrow> None
    | Some k \<Rightarrow> done_rows (map user_cells (filter (\<lambda>u. us_ID u = k \<and> \<not> us_Disabled u) (tb_users T))) T)"

definition scanText :: "cell list \<Rightarrow> (string, string) result" where
  "scanText cs = (case cs of [CText s] \<Rightarrow> Inr s | _ \<Rightarrow> Inl ''scan'')"

definition SessionRepo_Resolve :: "'d pool \<Rightarrow> string \<Rightarrow> 'd \<Rightarrow> (pg_error, User) result \<times> 'd" where
  "SessionRepo_Resolve P sessionID d =
     (case or_not_found ''pg: resolve session'' (query_row P scanText (sql_touch_session sessionID) d) of
        (Inl e, d1) \<Rightarrow> (Inl e, d1)
      | (Inr userID, d1) \<Rightarrow>
          or_not_found ''pg: resolve session user'' (query_row P scanUser (sql_enabled_user userID) d1))"

definition sql_delete_session :: "string \<Rightarrow> stmt" where
  "sql_delete_session i ev T = (case uuid_in i of
      None \<Rightarrow> None
    | Some k \<Rightarrow> done_count (length (filter (\<lambda>s. se_ID s = k) (tb_sessions T)))
        (T\<lparr>tb_sessions := filter (\<lambda>s. se_ID s \<noteq> k) (tb_sessions T)\<rparr>))"

definition SessionRepo_Revoke :: "'d pool \<Rightarrow> string \<Rightarrow> 'd \<Rightarrow> (pg_error, int) result \<times> 'd" where
  "SessionRepo_Revoke P sessionID d = exec P (sql_delete_session sessionID) ''pg: revoke session'' d"

definition sql_delete_expired :: stmt where
  "sql_delete_expired ev T =
     done_count (length (filter (\<lambda>s. se_ExpiresAt s \<le> ev_now ev) (tb_sessions T)))
       (T\<lparr>tb_sessions := filter (\<lambda>s. \<not> se_ExpiresAt s \<le> ev_now ev) (tb_sessions T)\<rparr>)"

definition SessionRepo_DeleteExpired :: "'d pool \<Rightarrow> 'd \<Rightarrow> (pg_error, int) result \<times> 'd" where
  "SessionRepo_DeleteExpired P d = exec P sql_delete_expired ''pg: delete expired sessions'' d"

section \<open>Sandbox history\<close>

definition nullStr :: "string \<Rightarrow> string option" where
  "nullStr s = (if s = [] then None else Some s)"

definition nullInt64 :: "int \<Rightarrow> int option" where
  "nullInt64 v = (if v = 0 then None else Some v)"

definition cell_of :: "('a \<Rightarrow> cell) \<Rightarrow> 'a option \<Rightarrow> cell" where
  "cell_of f x = (case x of None \<Rightarrow> CNull | Some a \<Rightarrow> f a)"

definition sandbox_cells :: "sandbox_row \<Rightarrow> cell list" where
  "sandbox_cells r = [CText (sr_id r), cell_of CText (sr_owner r), CText (sr_name r), CText (sr_status r), CInt (sr_vcpus r),
     CInt (sr_mem r), CInt (sr_cpu r), CInt (sr_pids r), cell_of CInt (sr_cid r), CTime (sr_created r),
     cell_of CTime (sr_stopped r), CTime (sr_used r)]"

text \<open>A pointer is \<open>nil\<close> for NULL; the struct then keeps its zero value.\<close>

fun text_ptr :: "cell \<Rightarrow> string option option" where
  "text_ptr (CText s) = Some (Some s)" | "text_ptr CNull = Some None" | "text_ptr _ = None"

fun int_ptr :: "cell \<Rightarrow> int option option" where
  "int_ptr (CInt i) = Some (Some i)" | "int_ptr CNull = Some None" | "int_ptr _ = None"

fun time_ptr :: "cell \<Rightarrow> pgtime option option" where
  "time_ptr (CTime t) = Some (Some t)" | "time_ptr CNull = Some None" | "time_ptr _ = None"

definition scanSandbox :: "cell list \<Rightarrow> (string, pg_Sandbox) result" where
  "scanSandbox cs = (case cs of
      [CText i, ow, CText n, CText st, CInt v, CInt m, CInt c, CInt p, cid, CTime t0, stop, CTime t1] \<Rightarrow>
        (case (text_ptr ow, int_ptr cid, time_ptr stop) of
           (Some ownerID, Some cidp, Some stopped) \<Rightarrow>
             Inr \<lparr>sb_ID = i, sb_OwnerID = (case ownerID of None \<Rightarrow> [] | Some x \<Rightarrow> x), sb_Name = n, sb_Status = st,
               sb_VCPUs = v, sb_MemMiB = m, sb_CPUPercent = c, sb_PidsMax = p,
               sb_CID = (case cidp of None \<Rightarrow> 0 | Some x \<Rightarrow> x), sb_CreatedAt = t0, sb_StoppedAt = stopped, sb_LastUsedAt = t1\<rparr>
         | _ \<Rightarrow> Inl ''scan'')
    | _ \<Rightarrow> Inl ''scan'')"

definition sql_upsert_sandbox :: "pg_Sandbox \<Rightarrow> stmt" where
  "sql_upsert_sandbox s ev T =
     (case (case nullStr (sb_OwnerID s) of None \<Rightarrow> Some None | Some x \<Rightarrow> map_option Some (uuid_in x)) of
        None \<Rightarrow> None
      | Some owner \<Rightarrow>
          if text_ok (sb_ID s) \<and> text_ok (sb_Name s) \<and> text_ok (sb_Status s) \<and> int4 (sb_VCPUs s) \<and> int4 (sb_MemMiB s) \<and>
             int4 (sb_CPUPercent s) \<and> int4 (sb_PidsMax s)
          then (if sb_ID s \<in> sr_id ` set (tb_sandboxes T)
                then done_count 1 (T\<lparr>tb_sandboxes := map (\<lambda>r. if sr_id r = sb_ID s
                   then r\<lparr>sr_status := sb_Status s, sr_cid := nullInt64 (sb_CID s),
                          sr_name := (if sb_Name s = [] then sr_name r else sb_Name s),
                          sr_used := ev_now ev, sr_stopped := None\<rparr> else r) (tb_sandboxes T)\<rparr>)
                else if pred_option (\<lambda>k. k \<in> us_ID ` set (tb_users T)) owner
                then done_count 1 (T\<lparr>tb_sandboxes := tb_sandboxes T @
                  [\<lparr>sr_id = sb_ID s, sr_owner = owner, sr_name = sb_Name s, sr_status = sb_Status s, sr_vcpus = sb_VCPUs s,
                    sr_mem = sb_MemMiB s, sr_cpu = sb_CPUPercent s, sr_pids = sb_PidsMax s, sr_cid = nullInt64 (sb_CID s),
                    sr_created = ev_now ev, sr_stopped = None, sr_used = ev_now ev\<rparr>]\<rparr>)
                else None)
          else None)"

definition SandboxRepo_Upsert :: "'d pool \<Rightarrow> pg_Sandbox \<Rightarrow> 'd \<Rightarrow> (pg_error, int) result \<times> 'd" where
  "SandboxRepo_Upsert P s d = exec P (sql_upsert_sandbox s) ''pg: upsert sandbox'' d"

definition update_sandbox :: "string \<Rightarrow> (sandbox_row \<Rightarrow> sandbox_row) \<Rightarrow> tables \<Rightarrow> (qres \<times> tables) option" where
  "update_sandbox i f T = (if text_ok i
     then done_count (length (filter (\<lambda>r. sr_id r = i) (tb_sandboxes T)))
       (T\<lparr>tb_sandboxes := map (\<lambda>r. if sr_id r = i then f r else r) (tb_sandboxes T)\<rparr>) else None)"

definition sql_mark_stopped :: "string \<Rightarrow> stmt" where
  "sql_mark_stopped i ev T =
     update_sandbox i (\<lambda>r. r\<lparr>sr_status := SandboxStopped, sr_stopped := Some (ev_now ev), sr_cid := None\<rparr>) T"

definition SandboxRepo_MarkStopped :: "'d pool \<Rightarrow> string \<Rightarrow> 'd \<Rightarrow> (pg_error, int) result \<times> 'd" where
  "SandboxRepo_MarkStopped P i d = exec P (sql_mark_stopped i) ''pg: mark stopped'' d"

definition sql_set_status :: "string \<Rightarrow> string \<Rightarrow> stmt" where
  "sql_set_status i st ev T = (if text_ok st
     then update_sandbox i (\<lambda>r. r\<lparr>sr_status := st, sr_stopped := (if st = SandboxRunning then None else sr_stopped r),
            sr_used := ev_now ev\<rparr>) T
     else None)"

definition SandboxRepo_SetStatus :: "'d pool \<Rightarrow> string \<Rightarrow> string \<Rightarrow> 'd \<Rightarrow> (pg_error, int) result \<times> 'd" where
  "SandboxRepo_SetStatus P i status d = exec P (sql_set_status i status) ''pg: set status'' d"

definition sql_rename :: "string \<Rightarrow> string \<Rightarrow> stmt" where
  "sql_rename i name ev T = (if text_ok name then update_sandbox i (\<lambda>r. r\<lparr>sr_name := name\<rparr>) T else None)"

definition SandboxRepo_Rename :: "'d pool \<Rightarrow> string \<Rightarrow> string \<Rightarrow> 'd \<Rightarrow> (pg_error, int) result \<times> 'd" where
  "SandboxRepo_Rename P i name d = exec P (sql_rename i name) ''pg: rename sandbox'' d"

definition SandboxRepo_Archive :: "'d pool \<Rightarrow> string \<Rightarrow> 'd \<Rightarrow> (pg_error, int) result \<times> 'd" where
  "SandboxRepo_Archive P i d = SandboxRepo_SetStatus P i SandboxArchived d"

definition sql_sandbox_by_id :: "string \<Rightarrow> stmt" where
  "sql_sandbox_by_id i ev T =
     (if text_ok i then done_rows (map sandbox_cells (filter (\<lambda>r. sr_id r = i) (tb_sandboxes T))) T else None)"

definition SandboxRepo_ByID :: "'d pool \<Rightarrow> string \<Rightarrow> 'd \<Rightarrow> (pg_error, pg_Sandbox) result \<times> 'd" where
  "SandboxRepo_ByID P i d = or_not_found ''pg: sandbox by id'' (query_row P scanSandbox (sql_sandbox_by_id i) d)"

definition sql_all_sandboxes :: stmt where
  "sql_all_sandboxes ev T = done_rows (map sandbox_cells
     (sort_key (\<lambda>r. - sr_used r) (filter (\<lambda>r. sr_status r \<noteq> SandboxArchived) (tb_sandboxes T)))) T"

definition sql_owned_sandboxes :: "string \<Rightarrow> stmt" where
  "sql_owned_sandboxes owner ev T = (case uuid_in owner of
      None \<Rightarrow> None
    | Some k \<Rightarrow> done_rows (map sandbox_cells (sort_key (\<lambda>r. - sr_used r)
        (filter (\<lambda>r. sr_owner r = Some k \<and> sr_status r \<noteq> SandboxArchived) (tb_sandboxes T)))) T)"

definition SandboxRepo_ListByOwner :: "'d pool \<Rightarrow> string \<Rightarrow> 'd \<Rightarrow> (pg_error, pg_Sandbox list) result \<times> 'd" where
  "SandboxRepo_ListByOwner P ownerID d =
     query_rows P scanSandbox (if ownerID = [] then sql_all_sandboxes else sql_owned_sandboxes ownerID)
       ''pg: list sandboxes'' ''pg: scan sandbox'' d"

definition sql_touch_sandbox :: "string \<Rightarrow> stmt" where
  "sql_touch_sandbox i ev T = update_sandbox i (\<lambda>r. r\<lparr>sr_used := ev_now ev\<rparr>) T"

definition SandboxRepo_Touch :: "'d pool \<Rightarrow> string \<Rightarrow> 'd \<Rightarrow> (pg_error, int) result \<times> 'd" where
  "SandboxRepo_Touch P i d = exec P (sql_touch_sandbox i) [] d"

section \<open>Snapshots\<close>

definition snapshot_cells :: "pg_Snapshot \<Rightarrow> cell list" where
  "snapshot_cells s = [CText (sn_ID s), CText (sn_SandboxID s), CText (sn_MemFilePath s), CText (sn_StateFilePath s),
     CText (sn_DiskFilePath s), CInt (sn_SizeBytes s), CInt (sn_GuestVCPUs s), CInt (sn_GuestMemMiB s), CText (sn_Label s),
     CTime (sn_CreatedAt s)]"

definition scanSnapshot :: "cell list \<Rightarrow> (string, pg_Snapshot) result" where
  "scanSnapshot cs = (case cs of
      [CText i, CText sb, CText m, CText st, CText dk, CInt sz, CInt v, CInt mem, CText lb, CTime t] \<Rightarrow>
        Inr \<lparr>sn_ID = i, sn_SandboxID = sb, sn_MemFilePath = m, sn_StateFilePath = st, sn_DiskFilePath = dk,
          sn_SizeBytes = sz, sn_GuestVCPUs = v, sn_GuestMemMiB = mem, sn_Label = lb, sn_CreatedAt = t\<rparr>
    | _ \<Rightarrow> Inl ''scan'')"

definition sql_insert_snapshot :: "pg_Snapshot \<Rightarrow> stmt" where
  "sql_insert_snapshot s ev T =
     (let row = s\<lparr>sn_ID := ev_uuid ev, sn_CreatedAt := ev_now ev\<rparr> in
      if list_all text_ok [sn_SandboxID s, sn_MemFilePath s, sn_StateFilePath s, sn_DiskFilePath s, sn_Label s] \<and>
         int4 (sn_GuestVCPUs s) \<and> int4 (sn_GuestMemMiB s) \<and> sn_SandboxID s \<in> sr_id ` set (tb_sandboxes T) \<and>
         ev_uuid ev \<notin> sn_ID ` set (tb_snapshots T)
      then done_rows [snapshot_cells row] (T\<lparr>tb_snapshots := tb_snapshots T @ [row]\<rparr>) else None)"

definition SnapshotRepo_Create :: "'d pool \<Rightarrow> pg_Snapshot \<Rightarrow> 'd \<Rightarrow> (pg_error, pg_Snapshot) result \<times> 'd" where
  "SnapshotRepo_Create P s d = or_error ''pg: create snapshot'' (query_row P scanSnapshot (sql_insert_snapshot s) d)"

definition newest_first :: "string \<Rightarrow> tables \<Rightarrow> pg_Snapshot list" where
  "newest_first sid T = sort_key (\<lambda>s. - sn_CreatedAt s) (filter (\<lambda>s. sn_SandboxID s = sid) (tb_snapshots T))"

definition sql_latest_snapshot :: "string \<Rightarrow> stmt" where
  "sql_latest_snapshot sid ev T =
     (if text_ok sid then done_rows (map snapshot_cells (take 1 (newest_first sid T))) T else None)"

definition SnapshotRepo_Latest :: "'d pool \<Rightarrow> string \<Rightarrow> 'd \<Rightarrow> (pg_error, pg_Snapshot) result \<times> 'd" where
  "SnapshotRepo_Latest P sandboxID d =
     or_not_found ''pg: latest snapshot'' (query_row P scanSnapshot (sql_latest_snapshot sandboxID) d)"

definition sql_list_snapshots :: "string \<Rightarrow> stmt" where
  "sql_list_snapshots sid ev T = (if text_ok sid then done_rows (map snapshot_cells (newest_first sid T)) T else None)"

definition SnapshotRepo_ListBySandbox :: "'d pool \<Rightarrow> string \<Rightarrow> 'd \<Rightarrow> (pg_error, pg_Snapshot list) result \<times> 'd" where
  "SnapshotRepo_ListBySandbox P sandboxID d =
     query_rows P scanSnapshot (sql_list_snapshots sandboxID) ''pg: list snapshots'' ''pg: scan snapshot'' d"

definition sql_delete_snapshot :: "string \<Rightarrow> stmt" where
  "sql_delete_snapshot i ev T = (case uuid_in i of
      None \<Rightarrow> None
    | Some k \<Rightarrow> done_count (length (filter (\<lambda>s. sn_ID s = k) (tb_snapshots T)))
        (T\<lparr>tb_snapshots := filter (\<lambda>s. sn_ID s \<noteq> k) (tb_snapshots T)\<rparr>))"

definition SnapshotRepo_Delete :: "'d pool \<Rightarrow> string \<Rightarrow> 'd \<Rightarrow> (pg_error, int) result \<times> 'd" where
  "SnapshotRepo_Delete P i d = exec P (sql_delete_snapshot i) ''pg: delete snapshot'' d"

section \<open>Transcripts\<close>

text \<open>The sub-query \<open>COALESCE((SELECT max(seq) \<dots>), 0) + 1\<close>.\<close>

definition next_seq :: "string \<Rightarrow> tables \<Rightarrow> int" where
  "next_seq sid T = fold max (map tl_Seq (filter (\<lambda>l. tl_SandboxID l = sid) (tb_lines T))) 0 + 1"

definition insert_line :: "string \<Rightarrow> int \<Rightarrow> string \<Rightarrow> string \<Rightarrow> int option \<Rightarrow> stmt" where
  "insert_line sid seq kind dat ec ev T =
     (if text_ok sid \<and> text_ok kind \<and> text_ok dat \<and> pred_option int4 ec \<and> sid \<in> sr_id ` set (tb_sandboxes T)
      then done_rows [[CInt seq]] (T\<lparr>tb_lines := tb_lines T @
        [\<lparr>tl_ID = ev_serial ev, tl_SandboxID = sid, tl_Seq = seq, tl_TS = ev_now ev, tl_Kind = kind, tl_Data = dat, tl_ExitCode = ec\<rparr>]\<rparr>)
      else None)"

definition sql_append_line :: "string \<Rightarrow> string \<Rightarrow> string \<Rightarrow> int option \<Rightarrow> stmt" where
  "sql_append_line sid kind dat ec ev T = insert_line sid (next_seq sid T) kind dat ec ev T"

definition TranscriptRepo_Append ::
  "'d pool \<Rightarrow> string \<Rightarrow> string \<Rightarrow> string \<Rightarrow> int option \<Rightarrow> 'd \<Rightarrow> (pg_error, int) result \<times> 'd" where
  "TranscriptRepo_Append P sandboxID kind dat exitCode d =
     or_error ''pg: append transcript'' (query_row P scanInt (sql_append_line sandboxID kind dat exitCode) d)"

definition line_cells :: "TranscriptLine \<Rightarrow> cell list" where
  "line_cells l = [CInt (tl_Seq l), CTime (tl_TS l), CText (tl_Kind l), CText (tl_Data l), cell_of CInt (tl_ExitCode l)]"

definition scanLine :: "string \<Rightarrow> cell list \<Rightarrow> (string, TranscriptLine) result" where
  "scanLine sid cs = (case cs of
      [CInt s, CTime t, CText k, CText x, c] \<Rightarrow> (case int_ptr c of
         Some ec \<Rightarrow> Inr \<lparr>tl_ID = 0, tl_SandboxID = sid, tl_Seq = s, tl_TS = t, tl_Kind = k, tl_Data = x, tl_ExitCode = ec\<rparr>
       | None \<Rightarrow> Inl ''scan'')
    | _ \<Rightarrow> Inl ''scan'')"

definition sql_list_lines :: "string \<Rightarrow> int \<Rightarrow> int \<Rightarrow> stmt" where
  "sql_list_lines sid after limit ev T = (if text_ok sid
     then (let ls = sort_key tl_Seq (filter (\<lambda>l. tl_SandboxID l = sid \<and> tl_Seq l > after) (tb_lines T))
           in done_rows (map line_cells (if limit > 0 then take (nat limit) ls else ls)) T)
     else None)"

definition TranscriptRepo_List ::
  "'d pool \<Rightarrow> string \<Rightarrow> int \<Rightarrow> int \<Rightarrow> 'd \<Rightarrow> (pg_error, TranscriptLine list) result \<times> 'd" where
  "TranscriptRepo_List P sandboxID afterSeq limit d =
     query_rows P (scanLine sandboxID) (sql_list_lines sandboxID afterSeq limit) ''pg: list transcript'' ''pg: scan transcript'' d"

definition day :: pgtime where "day = 86400000000"

definition sql_prune_lines :: "int \<Rightarrow> stmt" where
  "sql_prune_lines days ev T =
     done_count (length (filter (\<lambda>l. tl_TS l < ev_now ev - days * day) (tb_lines T)))
       (T\<lparr>tb_lines := filter (\<lambda>l. \<not> tl_TS l < ev_now ev - days * day) (tb_lines T)\<rparr>)"

definition TranscriptRepo_PruneOlderThanDays :: "'d pool \<Rightarrow> int \<Rightarrow> 'd \<Rightarrow> (pg_error, int) result \<times> 'd" where
  "TranscriptRepo_PruneOlderThanDays P days d = exec P (sql_prune_lines days) ''pg: prune transcript'' d"

section \<open>Audit log\<close>

definition sql_insert_audit :: "string option \<Rightarrow> string \<Rightarrow> string \<Rightarrow> bytes option \<Rightarrow> stmt" where
  "sql_insert_audit uid action target detail ev T =
     (case (case uid of None \<Rightarrow> Some None | Some x \<Rightarrow> map_option Some (uuid_in x)) of
        None \<Rightarrow> None
      | Some u \<Rightarrow>
          if text_ok action \<and> text_ok target
          then done_count 1 (T\<lparr>tb_audit := tb_audit T @
            [\<lparr>ae_ID = ev_serial ev, ae_UserID = u, ae_Action = action, ae_Target = target, ae_Detail = detail, ae_TS = ev_now ev\<rparr>]\<rparr>)
          else None)"

text \<open>The details the callers pass are maps from strings to strings, which \<open>json.Marshal\<close> always encodes, with sorted keys.\<close>

definition AuditRepo_Log ::
  "'d pool \<Rightarrow> string \<Rightarrow> string \<Rightarrow> string \<Rightarrow> (string \<times> string) list \<Rightarrow> 'd \<Rightarrow> (pg_error, int) result \<times> 'd" where
  "AuditRepo_Log P userID action target detail d =
     (let detailArg = (if detail \<noteq> [] then Some (jprint (JObj (map (\<lambda>(k, v). (k, JStr v)) (sort_key fst detail)))) else None)
      in exec P (sql_insert_audit (nullStr userID) action target detailArg) ''pg: audit log'' d)"

definition audit_cells :: "AuditEntry \<Rightarrow> cell list" where
  "audit_cells e = [CInt (ae_ID e), cell_of CText (ae_UserID e), CText (ae_Action e), CText (ae_Target e),
     cell_of CText (ae_Detail e), CTime (ae_TS e)]"

definition scanAudit :: "cell list \<Rightarrow> (string, AuditEntry) result" where
  "scanAudit cs = (case cs of
      [CInt i, u, CText a, CText t, dt, CTime ts] \<Rightarrow> (case (text_ptr u, text_ptr dt) of
         (Some uid, Some detail) \<Rightarrow>
           Inr \<lparr>ae_ID = i, ae_UserID = uid, ae_Action = a, ae_Target = t, ae_Detail = detail, ae_TS = ts\<rparr>
       | _ \<Rightarrow> Inl ''scan'')
    | _ \<Rightarrow> Inl ''scan'')"

definition sql_recent_audit :: "int \<Rightarrow> stmt" where
  "sql_recent_audit limit ev T = done_rows (map audit_cells (take (nat limit) (sort_key (\<lambda>e. - ae_TS e) (tb_audit T)))) T"

definition AuditRepo_Recent :: "'d pool \<Rightarrow> int \<Rightarrow> 'd \<Rightarrow> (pg_error, AuditEntry list) result \<times> 'd" where
  "AuditRepo_Recent P limit d =
     query_rows P scanAudit (sql_recent_audit (if limit \<le> 0 then 100 else limit)) ''pg: recent audit'' ''pg: scan audit'' d"

section \<open>Connection string\<close>

record PgConfig =
  pc_Host :: string
  pc_Port :: string
  pc_User :: string
  pc_Password :: string
  pc_DB :: string
  pc_SSLMode :: string

definition unreserved :: "char \<Rightarrow> bool" where
  "unreserved c \<longleftrightarrow> (let n = code c in (48 \<le> n \<and> n \<le> 57) \<or> (65 \<le> n \<and> n \<le> 90) \<or> (97 \<le> n \<and> n \<le> 122)) \<or> c \<in> set ''-_.~''"

definition upper_hex :: "nat \<Rightarrow> char" where
  "upper_hex v = ''0123456789ABCDEF'' ! v"

definition pct :: "char \<Rightarrow> string" where
  "pct c = [CHR ''%'', upper_hex (nat (code c div 16)), upper_hex (nat (code c mod 16))]"

definition QueryEscape :: "string \<Rightarrow> string" where
  "QueryEscape s = concat (map (\<lambda>c. if unreserved c then [c] else if c = CHR '' '' then ''+'' else pct c) s)"

definition PathEscape :: "string \<Rightarrow> string" where
  "PathEscape s = concat (map (\<lambda>c. if unreserved c \<or> c \<in> set ''$&+=:@'' then [c] else pct c) s)"

definition DSN :: "PgConfig \<Rightarrow> string" where
  "DSN c = (let port = (if pc_Port c = [] then ''5432'' else pc_Port c);
               ssl = (if pc_SSLMode c = [] then ''disable'' else pc_SSLMode c) in
     ''postgres://'' @ QueryEscape (pc_User c) @ '':'' @ QueryEscape (pc_Password c) @ ''@'' @ pc_Host c @ '':'' @ port @ ''/'' @
     PathEscape (pc_DB c) @ ''?sslmode='' @ ssl)"

section \<open>Opening the store\<close>

text \<open>\<open>pgxpool.New\<close> and \<open>Ping\<close> are arguments; the repositories all share the pool.\<close>

definition NewPg :: "(string \<Rightarrow> (string, 'd) result) \<Rightarrow> ('d \<Rightarrow> string option) \<Rightarrow> PgConfig \<Rightarrow> (pg_error, 'd) result" where
  "NewPg openPool ping cfg = (case openPool (DSN cfg) of
      Inl e \<Rightarrow> Inl (PgErr ''pg: connect'' e)
    | Inr d \<Rightarrow> (case ping d of
        Some e \<Rightarrow> Inl (PgErr (''pg: ping '' @ pc_Host cfg @ '':'' @ pc_Port cfg) e)
      | None \<Rightarrow> Inr d))"

section \<open>Migrations\<close>

text \<open>A directory entry of the embedded file system: its name, whether it is a directory, what \<open>ReadFile\<close> gives for it.\<close>

record dirEntry =
  de_Name :: string
  de_IsDir :: bool
  de_Body :: "(string, bytes) result"

definition has_suffix :: "string \<Rightarrow> string \<Rightarrow> bool" where
  "has_suffix s x \<longleftrightarrow> length x \<le> length s \<and> drop (length s - length x) s = x"

definition trim_suffix :: "string \<Rightarrow> string \<Rightarrow> string" where
  "trim_suffix s x = (if has_suffix s x then take (length s - length x) s else s)"

definition migrationFiles :: "dirEntry list \<Rightarrow> dirEntry list" where
  "migrationFiles es = sort_key de_Name (filter (\<lambda>e. \<not> de_IsDir e \<and> has_suffix (de_Name e) ''.sql'') es)"

definition sql_ensure_migrations :: stmt where
  "sql_ensure_migrations ev T = done_count 0 T"

definition sql_is_applied :: "string \<Rightarrow> stmt" where
  "sql_is_applied v ev T = (if text_ok v then done_rows [[CBool (v \<in> set (tb_versions T))]] T else None)"

definition scanBool :: "cell list \<Rightarrow> (string, bool) result" where
  "scanBool cs = (case cs of [CBool b] \<Rightarrow> Inr b | _ \<Rightarrow> Inl ''scan'')"

definition sql_script :: "bytes \<Rightarrow> stmt" where
  "sql_script body ev T = done_count 0 (T\<lparr>tb_scripts := tb_scripts T @ [body]\<rparr>)"

definition sql_insert_version :: "string \<Rightarrow> stmt" where
  "sql_insert_version v ev T = (if text_ok v \<and> v \<notin> set (tb_versions T)
     then done_count 1 (T\<lparr>tb_versions := tb_versions T @ [v]\<rparr>) else None)"

definition version_of :: "dirEntry \<Rightarrow> string" where
  "version_of f = trim_suffix (de_Name f) ''.sql''"

definition migration_tx :: "'d pool \<Rightarrow> string \<Rightarrow> bytes \<Rightarrow> 'd \<Rightarrow> pg_error option \<times> 'd" where
  "migration_tx P v body d = (case pq_begin P d of
       (Some e, d1) \<Rightarrow> (Some (PgErr (''pg: begin migration '' @ v) e), d1)
     | (None, d1) \<Rightarrow> (case pq_tx_exec P [] (sql_script body) d1 of
         (Some e, d2) \<Rightarrow> (Some (PgErr (''pg: apply migration '' @ v) e), pq_rollback P d2)
       | (None, d2) \<Rightarrow> (case pq_tx_exec P [sql_script body] (sql_insert_version v) d2 of
           (Some e, d3) \<Rightarrow> (Some (PgErr (''pg: record migration '' @ v) e), pq_rollback P d3)
         | (None, d3) \<Rightarrow> (case pq_commit P [sql_script body, sql_insert_version v] d3 of
             (Some e, d4) \<Rightarrow> (Some (PgErr (''pg: commit migration '' @ v) e), d4)
           | (None, d4) \<Rightarrow> (None, d4)))))"

definition apply_migration :: "'d pool \<Rightarrow> dirEntry \<Rightarrow> 'd \<Rightarrow> pg_error option \<times> 'd" where
  "apply_migration P f d = (case de_Body f of
      Inl e \<Rightarrow> (Some (PgErr (''pg: read migration '' @ de_Name f) e), d)
    | Inr body \<Rightarrow> migration_tx P (version_of f) body d)"

fun migrate_loop :: "'d pool \<Rightarrow> dirEntry list \<Rightarrow> 'd \<Rightarrow> pg_error option \<times> 'd" where
  "migrate_loop P [] d = (None, d)"
| "migrate_loop P (f # fs) d =
     (case or_error (''pg: check migration '' @ version_of f) (query_row P scanBool (sql_is_applied (version_of f)) d) of
        (Inl e, d1) \<Rightarrow> (Some e, d1)
      | (Inr True, d1) \<Rightarrow> migrate_loop P fs d1
      | (Inr False, d1) \<Rightarrow> (case apply_migration P f d1 of
          (Some e, d2) \<Rightarrow> (Some e, d2)
        | (None, d2) \<Rightarrow> migrate_loop P fs d2))"

definition Migrate :: "'d pool \<Rightarrow> (string, dirEntry list) result \<Rightarrow> 'd \<Rightarrow> pg_error option \<times> 'd" where
  "Migrate P readDir d = (case exec P sql_ensure_migrations ''pg: ensure schema_migrations'' d of
      (Inl e, d1) \<Rightarrow> (Some e, d1)
    | (Inr _, d1) \<Rightarrow> (case readDir of
        Inl e \<Rightarrow> (Some (PgErr ''pg: read migrations'' e), d1)
      | Inr entries \<Rightarrow> migrate_loop P (migrationFiles entries) d1))"

section \<open>How an operation relates to its statement\<close>

lemma exec_any:
  assumes "pg_laws P view" "exec P q what d = (x, d')"
  shows "same_rows (view d) (view d') \<or> took_effect q (pq_env P d) (view d) (view d')"
  using assms pg_run_any [OF assms(1)] by (fastforce simp: exec_def split: prod.splits sum.splits)

lemma exec_ok:
  assumes "pg_laws P view" "exec P q what d = (Inr n, d')"
  obtains r T where "q (pq_env P d) (view d) = Some (r, T)" "n = q_affected r" "same_rows T (view d')"
  using assms pg_run_ok [OF assms(1)] by (fastforce simp: exec_def split: prod.splits sum.splits)

lemma query_row_any:
  assumes "pg_laws P view" "query_row P scan q d = (x, d')"
  shows "same_rows (view d) (view d') \<or> took_effect q (pq_env P d) (view d) (view d')"
  using assms pg_run_any [OF assms(1)] by (fastforce simp: query_row_def split: prod.splits sum.splits list.splits)

lemma query_row_ok:
  assumes "pg_laws P view" "query_row P scan q d = (Inr a, d')"
  obtains r T row rows where "q (pq_env P d) (view d) = Some (r, T)" "q_rows r = row # rows" "scan row = Inr a" "same_rows T (view d')"
proof -
  obtain r row rows where "pq_run P q d = (Inr r, d')" "q_rows r = row # rows" "scan row = Inr a"
    using assms(2) by (auto simp: query_row_def split: prod.splits sum.splits list.splits)
  with pg_run_ok [OF assms(1)] that show thesis by blast
qed

lemma query_row_none:
  assumes "pg_laws P view" "query_row P scan q d = (Inl ErrNoRows, d')"
  obtains r T where "q (pq_env P d) (view d) = Some (r, T)" "q_rows r = []" "same_rows T (view d')"
proof -
  obtain r where "pq_run P q d = (Inr r, d')" "q_rows r = []"
    using assms(2) by (auto simp: query_row_def split: prod.splits sum.splits list.splits)
  with pg_run_ok [OF assms(1)] that show thesis by blast
qed

lemma query_row_up:
  assumes "pg_up P view" "q (pq_env P d) (view d) = Some (r, T)" "q_rows r = row # rows" "scan row = Inr a"
  shows "\<exists>d'. query_row P scan q d = (Inr a, d')"
  using assms unfolding pg_up_def query_row_def by fastforce

lemma query_rows_any:
  assumes "pg_laws P view" "query_rows P scan q w1 w2 d = (x, d')"
  shows "same_rows (view d) (view d') \<or> took_effect q (pq_env P d) (view d) (view d')"
  using assms pg_run_any [OF assms(1)]
  by (fastforce simp: query_rows_def split: prod.splits sum.splits option.splits)

lemma query_rows_ok:
  assumes "pg_laws P view" "query_rows P scan q w1 w2 d = (Inr as, d')"
  obtains r T where "q (pq_env P d) (view d) = Some (r, T)" "scan_all scan (q_rows r) = Inr as" "same_rows T (view d')"
proof -
  obtain r where "pq_run P q d = (Inr r, d')" "scan_all scan (q_rows r) = Inr as"
    using assms(2) by (auto simp: query_rows_def split: prod.splits sum.splits option.splits)
  with pg_run_ok [OF assms(1)] that show thesis by blast
qed

lemma or_not_found_iff [simp]:
  "or_not_found w x = (Inr a, d) \<longleftrightarrow> x = (Inr a, d)"
  "or_not_found w x = (Inl PgNotFound, d) \<longleftrightarrow> x = (Inl ErrNoRows, d)"
  "snd (or_not_found w x) = snd x"
  by (auto simp: or_not_found_def split: prod.splits sum.splits qerr.splits)

lemma or_error_iff [simp]: "or_error w x = (Inr a, d) \<longleftrightarrow> x = (Inr a, d)" "snd (or_error w x) = snd x"
  by (auto simp: or_error_def split: prod.splits sum.splits qerr.splits)

lemma scan_cells [simp]:
  "scanUser (user_cells u) = Inr u" "scanSnapshot (snapshot_cells s) = Inr s"
  by (simp_all add: scanUser_def user_cells_def scanSnapshot_def snapshot_cells_def)

definition to_Sandbox :: "sandbox_row \<Rightarrow> pg_Sandbox" where
  "to_Sandbox r = \<lparr>sb_ID = sr_id r, sb_OwnerID = (case sr_owner r of None \<Rightarrow> [] | Some x \<Rightarrow> x), sb_Name = sr_name r,
     sb_Status = sr_status r, sb_VCPUs = sr_vcpus r, sb_MemMiB = sr_mem r, sb_CPUPercent = sr_cpu r, sb_PidsMax = sr_pids r,
     sb_CID = (case sr_cid r of None \<Rightarrow> 0 | Some x \<Rightarrow> x), sb_CreatedAt = sr_created r, sb_StoppedAt = sr_stopped r,
     sb_LastUsedAt = sr_used r\<rparr>"

lemma ptr_cell_of [simp]:
  "text_ptr (cell_of CText x) = Some x" "int_ptr (cell_of CInt i) = Some i" "time_ptr (cell_of CTime t) = Some t"
  by (cases x; cases i; cases t; simp add: cell_of_def)+

lemma scanSandbox_cells [simp]: "scanSandbox (sandbox_cells r) = Inr (to_Sandbox r)"
  by (simp add: scanSandbox_def sandbox_cells_def to_Sandbox_def)

lemma scanLine_cells [simp]:
  "tl_SandboxID l = sid \<Longrightarrow> scanLine sid (line_cells l) = Inr (l\<lparr>tl_ID := 0\<rparr>)"
  by (cases l) (auto simp: scanLine_def line_cells_def)

lemma scan_all_map: "(\<And>x. x \<in> set xs \<Longrightarrow> scan (f x) = Inr (g x)) \<Longrightarrow> scan_all scan (map f xs) = Inr (map g xs)"
  by (induction xs) auto

lemma map_filter_Cons: "map f (filter Q xs) = y # ys \<Longrightarrow> \<exists>x \<in> set xs. Q x \<and> y = f x"
  by (auto dest!: Cons_eq_filterD [OF sym] simp: map_eq_Cons_conv)

lemma filter_key_single:
  assumes "distinct (map k xs)" "x \<in> set xs" "Q x" "\<And>y. Q y \<Longrightarrow> k y = k x"
  shows "filter Q xs = [x]"
  using assms(1,2)
proof (induction xs)
  case (Cons y ys)
  show ?case
  proof (cases "y = x")
    case True
    have "\<not> Q z" if "z \<in> set ys" for z
      using that Cons.prems(1) True assms(4) by (metis distinct.simps(2) image_eqI list.set_map list.simps(9))
    then have "filter Q ys = []" by (simp add: filter_empty_conv)
    with True assms(3) show ?thesis by simp
  next
    case False
    then have "x \<in> set ys" using Cons.prems(2) by simp
    moreover have "\<not> Q y"
      using assms(4) Cons.prems(1) \<open>x \<in> set ys\<close> by (metis distinct.simps(2) image_eqI list.set_map list.simps(9))
    ultimately show ?thesis using Cons by simp
  qed
qed simp

lemma in_map_update:
  "y \<in> set (map (\<lambda>x. if Q x then f x else x) xs) \<longleftrightarrow> (\<exists>x \<in> set xs. Q x \<and> y = f x) \<or> (y \<in> set xs \<and> \<not> Q y)"
  by auto

lemmas done_defs = done_rows_def done_count_def

text \<open>Reading statements change nothing, whatever they report.\<close>

definition reads :: "stmt \<Rightarrow> bool" where
  "reads q \<longleftrightarrow> (\<forall>ev T r T'. q ev T = Some (r, T') \<longrightarrow> T' = T)"

lemma reads_same: "reads q \<Longrightarrow> same_rows T T' \<or> took_effect q ev T T' \<Longrightarrow> same_rows T T'"
  unfolding took_effect_def reads_def by blast

lemma reading_statements:
  "reads (sql_user_by_name n)" "reads (sql_user_by_id i)" "reads sql_count_users" "reads sql_list_users" "reads (sql_enabled_user i)"
  "reads (sql_sandbox_by_id i)" "reads sql_all_sandboxes" "reads (sql_owned_sandboxes i)" "reads (sql_latest_snapshot i)"
  "reads (sql_list_snapshots i)" "reads (sql_list_lines i a l)" "reads (sql_recent_audit l)" "reads (sql_is_applied v)"
  "reads sql_ensure_migrations"
  by (simp_all add: reads_def done_defs sql_user_by_name_def sql_user_by_id_def sql_count_users_def sql_list_users_def
      sql_enabled_user_def sql_sandbox_by_id_def sql_all_sandboxes_def sql_owned_sandboxes_def sql_latest_snapshot_def
      sql_list_snapshots_def sql_list_lines_def sql_recent_audit_def sql_is_applied_def sql_ensure_migrations_def Let_def
      split: option.split)

lemma query_row_reads:
  "pg_laws P view \<Longrightarrow> reads q \<Longrightarrow> query_row P scan q d = (x, d') \<Longrightarrow> same_rows (view d) (view d')"
  by (meson query_row_any reads_same)

lemma query_rows_reads:
  "pg_laws P view \<Longrightarrow> reads q \<Longrightarrow> query_rows P scan q w1 w2 d = (x, d') \<Longrightarrow> same_rows (view d) (view d')"
  by (meson query_rows_any reads_same)

section \<open>The constraints of the schema are an invariant\<close>

definition pg_ok :: "tables \<Rightarrow> bool" where
  "pg_ok T \<longleftrightarrow> distinct (map us_ID (tb_users T)) \<and> distinct (map us_Username (tb_users T)) \<and>
     distinct (map se_ID (tb_sessions T)) \<and> distinct (map sr_id (tb_sandboxes T)) \<and> distinct (map sn_ID (tb_snapshots T)) \<and>
     distinct (tb_versions T) \<and>
     list_all (\<lambda>u. uuid_in (us_ID u) = Some (us_ID u)) (tb_users T) \<and>
     list_all (\<lambda>s. uuid_in (se_ID s) = Some (se_ID s) \<and> se_UserID s \<in> us_ID ` set (tb_users T)) (tb_sessions T) \<and>
     list_all (\<lambda>r. pred_option (\<lambda>k. k \<in> us_ID ` set (tb_users T)) (sr_owner r)) (tb_sandboxes T) \<and>
     list_all (\<lambda>s. sn_SandboxID s \<in> sr_id ` set (tb_sandboxes T)) (tb_snapshots T) \<and>
     list_all (\<lambda>l. tl_SandboxID l \<in> sr_id ` set (tb_sandboxes T)) (tb_lines T)"

lemma mset_distinct_map: "mset xs = mset ys \<Longrightarrow> distinct (map f xs) = distinct (map f ys)"
  by (metis mset_eq_imp_distinct_iff mset_map)

lemma pg_ok_same_rows:
  assumes "same_rows T T'"
  shows "pg_ok T \<longleftrightarrow> pg_ok T'"
proof -
  have "distinct (map us_ID (tb_users T)) = distinct (map us_ID (tb_users T'))"
    "distinct (map us_Username (tb_users T)) = distinct (map us_Username (tb_users T'))"
    "distinct (map se_ID (tb_sessions T)) = distinct (map se_ID (tb_sessions T'))"
    "distinct (map sr_id (tb_sandboxes T)) = distinct (map sr_id (tb_sandboxes T'))"
    "distinct (map sn_ID (tb_snapshots T)) = distinct (map sn_ID (tb_snapshots T'))"
    "distinct (tb_versions T) = distinct (tb_versions T')"
    using assms unfolding same_rows_def
    by - (elim conjE; rule mset_distinct_map mset_eq_imp_distinct_iff; assumption)+
  then show ?thesis
    unfolding pg_ok_def list_all_iff by (simp add: same_rows_sets [OF assms])
qed

lemma pg_ok_user_id: "pg_ok T \<Longrightarrow> u \<in> set (tb_users T) \<Longrightarrow> uuid_in (us_ID u) = Some (us_ID u)"
  by (simp add: pg_ok_def list_all_iff)

definition keeps :: "stmt \<Rightarrow> bool" where
  "keeps q \<longleftrightarrow> (\<forall>ev T r T'. pg_ok T \<longrightarrow> uuid_in (ev_uuid ev) = Some (ev_uuid ev) \<longrightarrow> q ev T = Some (r, T') \<longrightarrow> pg_ok T')"

lemma keepsI:
  "(\<And>ev T r T'. pg_ok T \<Longrightarrow> uuid_in (ev_uuid ev) = Some (ev_uuid ev) \<Longrightarrow> q ev T = Some (r, T') \<Longrightarrow> pg_ok T') \<Longrightarrow> keeps q"
  unfolding keeps_def by blast

lemma map_key_update [simp]:
  "(\<And>x. k (f x) = k x) \<Longrightarrow> map (k \<circ> (\<lambda>x. if P x then f x else x)) xs = map k xs"
  "(\<And>x. k (f x) = k x) \<Longrightarrow> k ` (f ` (A \<inter> Collect P) \<union> A \<inter> {x. \<not> P x}) = k ` A"
  by (auto simp: image_Un image_image)

lemma keeps_users: "keeps (sql_insert_user n h r)" "keeps (sql_set_disabled i b)"
  by (intro keepsI, auto simp: sql_insert_user_def sql_set_disabled_def done_defs Let_def pg_ok_def list_all_iff
      pred_option_def split: if_splits option.splits)+

lemma keeps_sessions:
  "keeps (sql_insert_session i u e a ip)" "keeps (sql_touch_session i)" "keeps (sql_delete_session i)" "keeps sql_delete_expired"
proof -
  show "keeps (sql_insert_session i u e a ip)"
    by (intro keepsI, auto simp: sql_insert_session_def done_defs pg_ok_def list_all_iff split: if_splits option.splits
        dest: uuid_in_canonical)
  show "keeps (sql_touch_session i)"
    by (intro keepsI, auto simp: sql_touch_session_def done_defs pg_ok_def list_all_iff split: if_splits option.splits)
  show "keeps (sql_delete_session i)" "keeps sql_delete_expired"
    by (intro keepsI, auto simp: sql_delete_session_def sql_delete_expired_def done_defs pg_ok_def list_all_iff distinct_map_filter
        split: if_splits option.splits)+
qed

lemma pg_ok_update_sandbox:
  assumes "pg_ok T" "update_sandbox i f T = Some (r, T')" "\<And>x. sr_id (f x) = sr_id x" "\<And>x. sr_owner (f x) = sr_owner x"
  shows "pg_ok T'"
  using assms by (auto simp: update_sandbox_def done_defs pg_ok_def list_all_iff split: if_splits)

lemma keeps_sandboxes:
  "keeps (sql_upsert_sandbox s)" "keeps (sql_mark_stopped i)" "keeps (sql_set_status i st)" "keeps (sql_rename i n)"
  "keeps (sql_touch_sandbox i)"
proof -
  show "keeps (sql_mark_stopped i)" "keeps (sql_set_status i st)" "keeps (sql_rename i n)" "keeps (sql_touch_sandbox i)"
    by (intro keepsI, auto simp: sql_mark_stopped_def sql_set_status_def sql_rename_def sql_touch_sandbox_def split: if_splits
        elim!: pg_ok_update_sandbox)+
  show "keeps (sql_upsert_sandbox s)"
    by (intro keepsI, auto simp: sql_upsert_sandbox_def done_defs pg_ok_def list_all_iff split: if_splits option.splits)
qed

lemma keeps_rest:
  "keeps (sql_insert_snapshot s)" "keeps (sql_delete_snapshot i)" "keeps (sql_append_line i k x c)" "keeps (sql_prune_lines n)"
  "keeps (sql_insert_audit u a t dt)"
  by (intro keepsI, auto simp: sql_insert_snapshot_def sql_delete_snapshot_def sql_append_line_def insert_line_def sql_prune_lines_def
      sql_insert_audit_def done_defs Let_def pg_ok_def list_all_iff distinct_map_filter split: if_splits option.splits)+

lemma keeps_effect:
  assumes "pg_laws P view" "pg_ok (view d)" "keeps q" "same_rows (view d) (view d') \<or> took_effect q (pq_env P d) (view d) (view d')"
  shows "pg_ok (view d')"
  using assms(4)
proof (rule took_effectE)
  assume "same_rows (view d) (view d')"
  then show ?thesis using assms(2) pg_ok_same_rows by blast
next
  fix r T assume "q (pq_env P d) (view d) = Some (r, T)" "same_rows T (view d')"
  then show ?thesis using assms(2,3) pg_uuid [OF assms(1)] pg_ok_same_rows unfolding keeps_def by blast
qed

lemma keeps_exec: "pg_laws P view \<Longrightarrow> pg_ok (view d) \<Longrightarrow> keeps q \<Longrightarrow> pg_ok (view (snd (exec P q w d)))"
  by (metis exec_any keeps_effect prod.collapse)

lemma keeps_query_row: "pg_laws P view \<Longrightarrow> pg_ok (view d) \<Longrightarrow> keeps q \<Longrightarrow> pg_ok (view (snd (query_row P scan q d)))"
  by (metis query_row_any keeps_effect prod.collapse)

lemma reads_keeps: "reads q \<Longrightarrow> keeps q"
  unfolding reads_def keeps_def by blast

lemma keeps_Resolve:
  assumes "pg_laws P view" "pg_ok (view d)"
  shows "pg_ok (view (snd (SessionRepo_Resolve P i d)))"
proof (cases "query_row P scanText (sql_touch_session i) d")
  case (Pair x d1)
  then have "pg_ok (view d1)" using keeps_query_row [OF assms keeps_sessions(2)] by (metis snd_conv)
  then show ?thesis
    using keeps_query_row [OF assms(1) _ reads_keeps [OF reading_statements(5)]] Pair
    by (cases x) (auto simp: SessionRepo_Resolve_def or_not_found_def [of _ "(_, _)"] split: qerr.split)
qed


section \<open>Login sessions\<close>

lemma touch_session_rows:
  assumes "sql_touch_session i ev T = Some (r, T')"
  obtains k where "uuid_in i = Some k" "q_rows r = map (\<lambda>s. [CText (se_UserID s)]) (filter (live_session k (ev_now ev)) (tb_sessions T))"
    "tb_users T' = tb_users T" "se_ID ` set (tb_sessions T') = se_ID ` set (tb_sessions T)"
  using assms by (auto simp: sql_touch_session_def done_defs split: option.splits)

lemma resolve_sound:
  assumes "pg_laws P view" "SessionRepo_Resolve P sid d = (Inr u, d')"
  shows "\<exists>k s. uuid_in sid = Some k \<and> s \<in> set (tb_sessions (view d)) \<and> live_session k (ev_now (pq_env P d)) s \<and>
    u \<in> set (tb_users (view d)) \<and> uuid_in (se_UserID s) = Some (us_ID u) \<and> \<not> us_Disabled u"
proof -
  obtain uid d1 where q: "query_row P scanText (sql_touch_session sid) d = (Inr uid, d1)"
    "query_row P scanUser (sql_enabled_user uid) d1 = (Inr u, d')"
    using assms(2) by (auto simp: SessionRepo_Resolve_def split: prod.splits sum.splits)
  obtain r T row rows where r: "sql_touch_session sid (pq_env P d) (view d) = Some (r, T)" "q_rows r = row # rows"
    "scanText row = Inr uid" "same_rows T (view d1)"
    by (rule query_row_ok [OF assms(1) q(1)])
  from r(1) obtain k where k: "uuid_in sid = Some k"
    "q_rows r = map (\<lambda>s. [CText (se_UserID s)]) (filter (live_session k (ev_now (pq_env P d))) (tb_sessions (view d)))"
    "tb_users T = tb_users (view d)" by (rule touch_session_rows)
  then obtain s where s: "s \<in> set (tb_sessions (view d))" "live_session k (ev_now (pq_env P d)) s" "row = [CText (se_UserID s)]"
    using map_filter_Cons [OF trans [OF k(2) [symmetric] r(2)]] by blast
  obtain r2 T2 row2 rows2 where r2: "sql_enabled_user uid (pq_env P d1) (view d1) = Some (r2, T2)" "q_rows r2 = row2 # rows2"
    "scanUser row2 = Inr u" "same_rows T2 (view d')"
    by (rule query_row_ok [OF assms(1) q(2)])
  then obtain ku where ku: "uuid_in uid = Some ku" "row2 # rows2 = map user_cells (filter (\<lambda>u. us_ID u = ku \<and> \<not> us_Disabled u) (tb_users (view d1)))"
    by (auto simp: sql_enabled_user_def done_defs split: option.splits)
  then have "\<exists>u \<in> set (tb_users (view d1)). (us_ID u = ku \<and> \<not> us_Disabled u) \<and> row2 = user_cells u"
    using map_filter_Cons [OF sym [OF ku(2)]] by blast
  then have "u \<in> set (tb_users (view d1))" "us_ID u = ku" "\<not> us_Disabled u" using r2(3) by auto
  moreover have "set (tb_users (view d1)) = set (tb_users (view d))" using same_rows_sets(1) [OF r(4)] k(3) by simp
  moreover have "uid = se_UserID s" using r(3) s(3) by (simp add: scanText_def)
  ultimately show ?thesis using k(1) s(1,2) ku(1) by blast
qed

lemma resolve_complete:
  assumes "pg_laws P view" "pg_up P view" "pg_ok (view d)" "uuid_in sid = Some k" "s \<in> set (tb_sessions (view d))"
    "live_session k (ev_now (pq_env P d)) s" "u \<in> set (tb_users (view d))" "us_ID u = se_UserID s" "\<not> us_Disabled u"
  shows "\<exists>d'. SessionRepo_Resolve P sid d = (Inr u, d')"
proof -
  have one: "filter (live_session k (ev_now (pq_env P d))) (tb_sessions (view d)) = [s]"
    using assms(3,5,6) by (intro filter_key_single [of se_ID]) (auto simp: pg_ok_def live_session_def)
  obtain r T where r: "sql_touch_session sid (pq_env P d) (view d) = Some (r, T)" "q_rows r = [[CText (se_UserID s)]]"
    using assms(4) one by (simp add: sql_touch_session_def done_defs)
  then obtain d1 where d1: "query_row P scanText (sql_touch_session sid) d = (Inr (se_UserID s), d1)"
    using query_row_up [of P view "sql_touch_session sid" d r T "[CText (se_UserID s)]" "[]" scanText, OF assms(2) r]
    by (auto simp: scanText_def)
  have u: "set (tb_users (view d1)) = set (tb_users (view d))"
  proof (rule query_row_ok [OF assms(1) d1])
    fix r T assume "sql_touch_session sid (pq_env P d) (view d) = Some (r, T)" "same_rows T (view d1)"
    then show ?thesis by (metis same_rows_sets(1) touch_session_rows)
  qed
  have ok: "pg_ok (view d1)" using keeps_query_row [OF assms(1,3) keeps_sessions(2)] d1 by (metis snd_conv)
  have "uuid_in (se_UserID s) = Some (us_ID u)" using assms(3,7,8) by (auto simp: pg_ok_def list_all_iff)
  moreover have "filter (\<lambda>v. us_ID v = us_ID u \<and> \<not> us_Disabled v) (tb_users (view d1)) = [u]"
    using ok assms(7,9) u by (intro filter_key_single [of us_ID]) (auto simp: pg_ok_def)
  ultimately have "\<exists>d'. query_row P scanUser (sql_enabled_user (se_UserID s)) d1 = (Inr u, d')"
    by (intro query_row_up [where q = "sql_enabled_user (se_UserID s)", OF assms(2)]) (auto simp: sql_enabled_user_def done_defs)
  with d1 show ?thesis by (auto simp: SessionRepo_Resolve_def or_not_found_def)
qed

definition valid_login :: "tables \<Rightarrow> pgtime \<Rightarrow> string \<Rightarrow> User \<Rightarrow> bool" where
  "valid_login T now sid u \<longleftrightarrow> u \<in> set (tb_users T) \<and> \<not> us_Disabled u \<and>
     (\<exists>s \<in> set (tb_sessions T). uuid_in sid = Some (se_ID s) \<and> now < se_ExpiresAt s \<and> se_UserID s = us_ID u)"

lemma resolve_valid_login:
  assumes "pg_laws P view" "pg_ok (view d)" "SessionRepo_Resolve P sid d = (Inr u, d')"
  shows "valid_login (view d) (ev_now (pq_env P d)) sid u"
proof -
  obtain k s where ks: "uuid_in sid = Some k" "s \<in> set (tb_sessions (view d))" "live_session k (ev_now (pq_env P d)) s"
    "u \<in> set (tb_users (view d))" "uuid_in (se_UserID s) = Some (us_ID u)" "\<not> us_Disabled u"
    using resolve_sound [OF assms(1,3)] by blast
  then have "se_UserID s = us_ID u" using assms(2) by (auto simp: pg_ok_def list_all_iff)
  with ks show ?thesis by (auto simp: valid_login_def live_session_def)
qed

lemma revoke_deletes:
  assumes "pg_laws P view" "SessionRepo_Revoke P sid d = (Inr n, d')"
  shows "\<exists>k. uuid_in sid = Some k \<and> k \<notin> se_ID ` set (tb_sessions (view d'))"
  using assms(2) unfolding SessionRepo_Revoke_def
proof (rule exec_ok [OF assms(1)])
  fix r T assume a: "sql_delete_session sid (pq_env P d) (view d) = Some (r, T)" "same_rows T (view d')"
  then show ?thesis
    by (auto simp: sql_delete_session_def done_defs same_rows_sets(2) [OF a(2), symmetric] split: option.splits)
qed

lemma set_disabled_disables:
  assumes "pg_laws P view" "UserRepo_SetDisabled P i True d = (Inr n, d')" "u \<in> set (tb_users (view d'))" "uuid_in i = Some (us_ID u)"
  shows "us_Disabled u"
  using assms(2) unfolding UserRepo_SetDisabled_def
proof (rule exec_ok [OF assms(1)])
  fix r T assume a: "sql_set_disabled i True (pq_env P d) (view d) = Some (r, T)" "same_rows T (view d')"
  obtain k where k: "uuid_in i = Some k" "us_ID u = k" using assms(4) by blast
  have "tb_users T = map (\<lambda>v. if us_ID v = k then v\<lparr>us_Disabled := True\<rparr> else v) (tb_users (view d))"
    using a(1) k(1) by (auto simp: sql_set_disabled_def done_defs)
  moreover have "u \<in> set (tb_users T)" using assms(3) same_rows_sets(1) [OF a(2)] by simp
  ultimately have "(\<exists>v \<in> set (tb_users (view d)). us_ID v = k \<and> u = v\<lparr>us_Disabled := True\<rparr>) \<or>
      (u \<in> set (tb_users (view d)) \<and> us_ID u \<noteq> k)"
    by (simp only: in_map_update)
  then show ?thesis
  proof
    assume "\<exists>v \<in> set (tb_users (view d)). us_ID v = k \<and> u = v\<lparr>us_Disabled := True\<rparr>"
    then obtain v where "u = v\<lparr>us_Disabled := True\<rparr>" by blast
    then show ?thesis by simp
  qed (use k(2) in blast)
qed

text \<open>
  C31: A login session is worth exactly what the tables say. \<open>Resolve\<close> returns a user only if an unexpired session with
  the id of the cookie belongs to that user and the account is not disabled, and (when the server is up) it
  returns that user in this case. Once \<open>Revoke\<close> has succeeded the id resolves to nobody, and once \<open>SetDisabled\<close> has
  disabled an account no session of it resolves.
\<close>

theorem login_sessions:
  assumes "pg_laws P view" "pg_ok (view d)"
  shows "(SessionRepo_Resolve P sid d = (Inr u, d') \<longrightarrow> valid_login (view d) (ev_now (pq_env P d)) sid u) \<and>
    (pg_up P view \<and> valid_login (view d) (ev_now (pq_env P d)) sid u \<longrightarrow> (\<exists>d'. SessionRepo_Resolve P sid d = (Inr u, d'))) \<and>
    (SessionRepo_Revoke P sid d = (Inr n, d') \<longrightarrow> SessionRepo_Resolve P sid d' \<noteq> (Inr u, d'')) \<and>
    (UserRepo_SetDisabled P (us_ID u) True d = (Inr n, d') \<longrightarrow> SessionRepo_Resolve P sid d' \<noteq> (Inr u', d'') \<or> us_ID u' \<noteq> us_ID u)"
proof (intro conjI impI)
  show "valid_login (view d) (ev_now (pq_env P d)) sid u" if "SessionRepo_Resolve P sid d = (Inr u, d')"
    by (rule resolve_valid_login [OF assms that])
  show "\<exists>d'. SessionRepo_Resolve P sid d = (Inr u, d')" if "pg_up P view \<and> valid_login (view d) (ev_now (pq_env P d)) sid u"
    using that by (auto simp: valid_login_def live_session_def intro: resolve_complete [OF assms(1) _ assms(2)])
  show "SessionRepo_Resolve P sid d' \<noteq> (Inr u, d'')" if "SessionRepo_Revoke P sid d = (Inr n, d')"
    using revoke_deletes [OF assms(1) that] resolve_sound [OF assms(1), of sid d' u d'']
    by (fastforce simp: live_session_def image_iff)
next
  assume dis: "UserRepo_SetDisabled P (us_ID u) True d = (Inr n, d')"
  have "pg_ok (view d')"
    using keeps_exec [OF assms keeps_users(2)] dis unfolding UserRepo_SetDisabled_def by (metis snd_conv)
  moreover have "us_Disabled v" if "v \<in> set (tb_users (view d'))" "uuid_in (us_ID u) = Some (us_ID v)" for v
    by (rule set_disabled_disables [OF assms(1) dis that])
  ultimately show "SessionRepo_Resolve P sid d' \<noteq> (Inr u', d'') \<or> us_ID u' \<noteq> us_ID u"
    using resolve_valid_login [OF assms(1), of d' sid u' d''] pg_ok_user_id [of "view d'" u'] by (auto simp: valid_login_def)
qed

text \<open>A store with one user, one open session and one sandbox.\<close>

definition exId :: string where "exId = uuid_text (replicate 32 CHR ''a'')"

definition exUser :: User where
  "exUser = \<lparr>us_ID = exId, us_Username = ''ann'', us_PasswordHash = ''h'', us_Role = RoleOperator, us_Disabled = False, us_CreatedAt = 0\<rparr>"

definition exRow :: sandbox_row where
  "exRow = \<lparr>sr_id = ''sb-1'', sr_owner = Some exId, sr_name = ''mine'', sr_status = SandboxStopped, sr_vcpus = 2, sr_mem = 512, sr_cpu = 50,
     sr_pids = 64, sr_cid = None, sr_created = 1, sr_stopped = Some 3, sr_used = 2\<rparr>"

definition exPg :: mem_pg where
  "exPg = \<lparr>mp_tables = no_rows\<lparr>tb_users := [exUser], tb_sandboxes := [exRow],
     tb_sessions := [\<lparr>se_ID = exId, se_UserID = exId, se_CreatedAt = 0, se_ExpiresAt = 100, se_LastSeenAt = 0, se_UserAgent = [], se_IP = None\<rparr>]\<rparr>,
     mp_clock = 7\<rparr>"

lemma exId_ok: "uuid_in exId = Some exId"
  unfolding exId_def by (intro uuid_in_digits) (auto simp: list_all_iff lower_hex_def hex_val_def hex_char_def code_def)

lemma exPg_ok: "pg_ok (mp_tables exPg)"
  by (simp add: exPg_def pg_ok_def no_rows_def exUser_def exRow_def exId_ok)


theorem login_sessions_witness:
  "\<exists>d d' d''. SessionRepo_Resolve mem_pool exId exPg = (Inr exUser, d) \<and> SessionRepo_Revoke mem_pool exId exPg = (Inr 1, d') \<and>
     SessionRepo_Resolve mem_pool exId d' \<noteq> (Inr exUser, d'')"
proof -
  have "valid_login (mp_tables exPg) (ev_now (pq_env mem_pool exPg)) exId exUser"
    by (simp add: valid_login_def exPg_def no_rows_def exUser_def exId_ok mem_pool_def mem_env_def)
  moreover have "\<exists>d'. SessionRepo_Revoke mem_pool exId exPg = (Inr 1, d')"
    by (simp add: SessionRepo_Revoke_def exec_def mem_pool_def sql_delete_session_def exId_ok done_defs exPg_def no_rows_def)
  ultimately show ?thesis
    using login_sessions [OF mem_pool_laws exPg_ok] mem_pool_up by blast
qed

section \<open>The history of sandboxes\<close>

definition row_of :: "tables \<Rightarrow> string \<Rightarrow> sandbox_row option" where
  "row_of T i = find (\<lambda>r. sr_id r = i) (tb_sandboxes T)"

lemma find_filter: "filter Q xs = y # ys \<Longrightarrow> find Q xs = Some y"
  by (induction xs) (auto split: if_splits)

lemma find_key: "distinct (map k xs) \<Longrightarrow> find (\<lambda>x. k x = i) xs = Some r \<longleftrightarrow> r \<in> set xs \<and> k r = i"
  by (induction xs) force+

lemma row_of_Some: "pg_ok T \<Longrightarrow> row_of T i = Some r \<longleftrightarrow> r \<in> set (tb_sandboxes T) \<and> sr_id r = i"
  by (simp add: row_of_def pg_ok_def find_key)

lemma row_of_None: "row_of T i = None \<longleftrightarrow> i \<notin> sr_id ` set (tb_sandboxes T)"
  by (auto simp: row_of_def find_None_iff)

lemma row_of_eqI:
  assumes "pg_ok T" "pg_ok T'" "\<And>r. r \<in> set (tb_sandboxes T') \<and> sr_id r = i \<longleftrightarrow> r \<in> set (tb_sandboxes T) \<and> sr_id r = i"
  shows "row_of T' i = row_of T i"
  using assms by (metis not_Some_eq row_of_Some)

lemma row_of_same_rows: "pg_ok T \<Longrightarrow> same_rows T T' \<Longrightarrow> row_of T' i = row_of T i"
  by (rule row_of_eqI) (simp_all add: pg_ok_same_rows [symmetric] same_rows_sets(3))

lemma find_update_key:
  "(\<And>x. sr_id (f x) = sr_id x) \<Longrightarrow> find (\<lambda>r. sr_id r = j) (map (\<lambda>r. if sr_id r = i then f r else r) rs) =
     (if j = i then map_option f (find (\<lambda>r. sr_id r = i) rs) else find (\<lambda>r. sr_id r = j) rs)"
  by (induction rs) auto

lemma row_of_update:
  assumes "update_sandbox i f T = Some (r, T')" "\<And>x. sr_id (f x) = sr_id x"
  shows "row_of T' = (row_of T)(i := map_option f (row_of T i))"
proof
  fix j
  have "tb_sandboxes T' = map (\<lambda>r. if sr_id r = i then f r else r) (tb_sandboxes T)"
    using assms(1) by (auto simp: update_sandbox_def done_defs split: if_splits)
  then show "row_of T' j = ((row_of T)(i := map_option f (row_of T i))) j"
    by (simp add: row_of_def find_update_key [OF assms(2)])
qed

text \<open>What \<open>Upsert\<close> makes of a row: an existing one keeps its owner, its sizes and its creation time.\<close>

definition upsert_row :: "pgtime \<Rightarrow> pg_Sandbox \<Rightarrow> sandbox_row option \<Rightarrow> sandbox_row" where
  "upsert_row now s old = (case old of
      Some r \<Rightarrow> r\<lparr>sr_status := sb_Status s, sr_cid := nullInt64 (sb_CID s), sr_name := (if sb_Name s = [] then sr_name r else sb_Name s),
        sr_used := now, sr_stopped := None\<rparr>
    | None \<Rightarrow> \<lparr>sr_id = sb_ID s, sr_owner = Option.bind (nullStr (sb_OwnerID s)) uuid_in, sr_name = sb_Name s, sr_status = sb_Status s,
        sr_vcpus = sb_VCPUs s, sr_mem = sb_MemMiB s, sr_cpu = sb_CPUPercent s, sr_pids = sb_PidsMax s, sr_cid = nullInt64 (sb_CID s),
        sr_created = now, sr_stopped = None, sr_used = now\<rparr>)"

lemma find_append_new: "find Q (xs @ [y]) = (case find Q xs of None \<Rightarrow> if Q y then Some y else None | Some x \<Rightarrow> Some x)"
  by (induction xs) auto

lemma row_of_upsert:
  assumes "sql_upsert_sandbox s ev T = Some (r, T')"
  shows "row_of T' = (row_of T)(sb_ID s \<mapsto> upsert_row (ev_now ev) s (row_of T (sb_ID s)))"
proof (cases "row_of T (sb_ID s)")
  case None
  then have new: "sb_ID s \<notin> sr_id ` set (tb_sandboxes T)" by (simp add: row_of_None)
  obtain x where x: "tb_sandboxes T' = tb_sandboxes T @ [x]" "x = upsert_row (ev_now ev) s None"
    using assms new
    by (auto simp: sql_upsert_sandbox_def done_defs upsert_row_def nullStr_def split: option.splits if_splits)
  then have "sr_id x = sb_ID s" by (simp add: upsert_row_def)
  with x None show ?thesis by (auto simp: row_of_def find_append_new fun_eq_iff split: option.split)
next
  case (Some old)
  then have "sb_ID s \<in> sr_id ` set (tb_sandboxes T)" by (metis option.distinct(1) row_of_None)
  then have "tb_sandboxes T' = map (\<lambda>r. if sr_id r = sb_ID s then upsert_row (ev_now ev) s (Some r) else r) (tb_sandboxes T)"
    using assms by (auto simp: sql_upsert_sandbox_def done_defs upsert_row_def split: option.splits if_splits)
  moreover have "sr_id (upsert_row (ev_now ev) s (Some r)) = sr_id r" for r by (simp add: upsert_row_def)
  ultimately show ?thesis using Some by (auto simp: row_of_def find_update_key fun_eq_iff)
qed

lemma ran_row_of: "pg_ok T \<Longrightarrow> ran (row_of T) = set (tb_sandboxes T)"
  by (auto simp: ran_def row_of_Some)

lemma exec_row_of:
  assumes "pg_laws P view" "pg_ok (view d)" "keeps q" "exec P q w d = (Inr n, d')"
  obtains r T where "q (pq_env P d) (view d) = Some (r, T)" "row_of (view d') = row_of T"
proof (rule exec_ok [OF assms(1,4)])
  fix r T assume q: "q (pq_env P d) (view d) = Some (r, T)" "same_rows T (view d')"
  then have "pg_ok T" using assms(2,3) pg_uuid [OF assms(1)] unfolding keeps_def by blast
  then show thesis using that q row_of_same_rows by blast
qed

lemma exec_update_row:
  assumes "pg_laws P view" "pg_ok (view d)" "keeps q" "exec P q w d = (Inr n, d')"
    "\<And>r T. q (pq_env P d) (view d) = Some (r, T) \<Longrightarrow> update_sandbox i f (view d) = Some (r, T)" "\<And>x. sr_id (f x) = sr_id x"
  shows "row_of (view d') = (row_of (view d))(i := map_option f (row_of (view d) i))"
  using exec_row_of [OF assms(1-4)] row_of_update [OF assms(5,6)] by metis

lemma ByID_row:
  assumes "pg_laws P view" "SandboxRepo_ByID P i d = (Inr sb, d')"
  shows "\<exists>r. row_of (view d) i = Some r \<and> sb = to_Sandbox r"
proof -
  have q: "query_row P scanSandbox (sql_sandbox_by_id i) d = (Inr sb, d')" using assms(2) by (simp add: SandboxRepo_ByID_def)
  obtain r T row rows where r: "sql_sandbox_by_id i (pq_env P d) (view d) = Some (r, T)" "q_rows r = row # rows"
    "scanSandbox row = Inr sb" "same_rows T (view d')"
    by (rule query_row_ok [OF assms(1) q])
  then have "map sandbox_cells (filter (\<lambda>r. sr_id r = i) (tb_sandboxes (view d))) = row # rows"
    by (auto simp: sql_sandbox_by_id_def done_defs split: if_splits)
  then obtain x xs where "filter (\<lambda>r. sr_id r = i) (tb_sandboxes (view d)) = x # xs" "row = sandbox_cells x" by (auto simp: map_eq_Cons_conv)
  then have "row_of (view d) i = Some x" by (simp add: row_of_def find_filter)
  with r(3) \<open>row = sandbox_cells x\<close> show ?thesis by simp
qed

lemma ByID_none:
  assumes "pg_laws P view" "SandboxRepo_ByID P i d = (Inl PgNotFound, d')"
  shows "row_of (view d) i = None"
proof -
  have q: "query_row P scanSandbox (sql_sandbox_by_id i) d = (Inl ErrNoRows, d')" using assms(2) by (simp add: SandboxRepo_ByID_def)
  obtain r T where "sql_sandbox_by_id i (pq_env P d) (view d) = Some (r, T)" "q_rows r = []" "same_rows T (view d')"
    by (rule query_row_none [OF assms(1) q])
  then show ?thesis by (auto simp: sql_sandbox_by_id_def done_defs row_of_None filter_empty_conv split: if_splits)
qed

lemma ListByOwner_rows:
  assumes "pg_laws P view" "SandboxRepo_ListByOwner P owner d = (Inr l, d')"
  shows "\<exists>k. (owner = [] \<or> uuid_in owner = Some k) \<and>
    l = map to_Sandbox (sort_key (\<lambda>r. - sr_used r) (filter (\<lambda>r. (owner = [] \<or> sr_owner r = Some k) \<and> sr_status r \<noteq> SandboxArchived)
      (tb_sandboxes (view d))))"
proof -
  let ?q = "if owner = [] then sql_all_sandboxes else sql_owned_sandboxes owner"
  obtain r T where r: "?q (pq_env P d) (view d) = Some (r, T)" "scan_all scanSandbox (q_rows r) = Inr l" "same_rows T (view d')"
    by (rule query_rows_ok [OF assms(1) assms(2) [unfolded SandboxRepo_ListByOwner_def]])
  have "scan_all scanSandbox (map sandbox_cells rs) = Inr (map to_Sandbox rs)" for rs by (rule scan_all_map) simp
  with r(1,2) show ?thesis
    by (auto simp: sql_all_sandboxes_def sql_owned_sandboxes_def done_defs split: if_splits option.splits)
qed

text \<open>
  C33: The repository of sandboxes implements a map from ids to rows. \<open>Upsert\<close> sets the row of its id (a new row as
  given; of an existing row only status, CID, a non-empty name and the times change, so the first owner and the first
  sizes stay), \<open>MarkStopped\<close>, \<open>Archive\<close> and \<open>Rename\<close> change the row of their id, \<open>ByID\<close> looks it up, and
  \<open>ListByOwner\<close> gives exactly the rows that are not archived and belong to the owner (all of them for the empty owner), last used first.
\<close>

theorem history_refines_map:
  assumes "pg_laws P view" "pg_ok (view d)"
  defines "m \<equiv> row_of (view d)" and "now \<equiv> ev_now (pq_env P d)"
  shows "(SandboxRepo_Upsert P s d = (Inr n, d') \<longrightarrow> row_of (view d') = m(sb_ID s \<mapsto> upsert_row now s (m (sb_ID s)))) \<and>
    (SandboxRepo_MarkStopped P i d = (Inr n, d') \<longrightarrow> row_of (view d') =
       m(i := map_option (\<lambda>r. r\<lparr>sr_status := SandboxStopped, sr_stopped := Some now, sr_cid := None\<rparr>) (m i))) \<and>
    (SandboxRepo_Archive P i d = (Inr n, d') \<longrightarrow> row_of (view d') =
       m(i := map_option (\<lambda>r. r\<lparr>sr_status := SandboxArchived, sr_used := now\<rparr>) (m i))) \<and>
    (SandboxRepo_Rename P i name d = (Inr n, d') \<longrightarrow> row_of (view d') = m(i := map_option (\<lambda>r. r\<lparr>sr_name := name\<rparr>) (m i))) \<and>
    (SandboxRepo_ByID P i d = (Inr sb, d') \<longrightarrow> map_option to_Sandbox (m i) = Some sb) \<and>
    (SandboxRepo_ByID P i d = (Inl PgNotFound, d') \<longrightarrow> m i = None) \<and>
    (SandboxRepo_ListByOwner P owner d = (Inr l, d') \<longrightarrow>
       set l = to_Sandbox ` {r \<in> ran m. (owner = [] \<or> sr_owner r = uuid_in owner) \<and> sr_status r \<noteq> SandboxArchived} \<and>
       sorted_wrt (\<lambda>a b. sb_LastUsedAt a \<ge> sb_LastUsedAt b) l)"
proof (intro conjI impI)
  assume a: "SandboxRepo_Upsert P s d = (Inr n, d')"
  show "row_of (view d') = m(sb_ID s \<mapsto> upsert_row now s (m (sb_ID s)))"
    using exec_row_of [OF assms(1,2) keeps_sandboxes(1) a [unfolded SandboxRepo_Upsert_def]] row_of_upsert
    unfolding m_def now_def by metis
next
  assume a: "SandboxRepo_MarkStopped P i d = (Inr n, d')"
  show "row_of (view d') = m(i := map_option (\<lambda>r. r\<lparr>sr_status := SandboxStopped, sr_stopped := Some now, sr_cid := None\<rparr>) (m i))"
    unfolding m_def now_def
    by (rule exec_update_row [OF assms(1,2) keeps_sandboxes(2) a [unfolded SandboxRepo_MarkStopped_def]]) (simp_all add: sql_mark_stopped_def)
next
  assume a: "SandboxRepo_Archive P i d = (Inr n, d')"
  have "row_of (view d') = m(i := map_option (\<lambda>r. r\<lparr>sr_status := SandboxArchived,
      sr_stopped := (if SandboxArchived = SandboxRunning then None else sr_stopped r), sr_used := now\<rparr>) (m i))"
    unfolding m_def now_def
    by (rule exec_update_row [OF assms(1,2) keeps_sandboxes(3) a [unfolded SandboxRepo_Archive_def SandboxRepo_SetStatus_def]])
      (auto simp: sql_set_status_def split: if_splits)
  then show "row_of (view d') = m(i := map_option (\<lambda>r. r\<lparr>sr_status := SandboxArchived, sr_used := now\<rparr>) (m i))"
    by (simp add: status_defs cong: map_option_cong)
next
  assume a: "SandboxRepo_Rename P i name d = (Inr n, d')"
  show "row_of (view d') = m(i := map_option (\<lambda>r. r\<lparr>sr_name := name\<rparr>) (m i))"
    unfolding m_def
    by (rule exec_update_row [OF assms(1,2) keeps_sandboxes(4) a [unfolded SandboxRepo_Rename_def]]) (auto simp: sql_rename_def split: if_splits)
next
  show "map_option to_Sandbox (m i) = Some sb" if "SandboxRepo_ByID P i d = (Inr sb, d')"
    using ByID_row [OF assms(1) that] by (auto simp: m_def)
  show "m i = None" if "SandboxRepo_ByID P i d = (Inl PgNotFound, d')"
    using ByID_none [OF assms(1) that] by (simp add: m_def)
next
  assume a: "SandboxRepo_ListByOwner P owner d = (Inr l, d')"
  then obtain k where k: "owner = [] \<or> uuid_in owner = Some k"
    "l = map to_Sandbox (sort_key (\<lambda>r. - sr_used r) (filter (\<lambda>r. (owner = [] \<or> sr_owner r = Some k) \<and> sr_status r \<noteq> SandboxArchived)
      (tb_sandboxes (view d))))"
    using ListByOwner_rows [OF assms(1)] by blast
  show "set l = to_Sandbox ` {r \<in> ran m. (owner = [] \<or> sr_owner r = uuid_in owner) \<and> sr_status r \<noteq> SandboxArchived}"
    using k by (auto simp: m_def ran_row_of [OF assms(2)])
  have "sorted_wrt (\<lambda>a b. sr_used a \<ge> sr_used b) (sort_key (\<lambda>r. - sr_used r) xs)" for xs
    using sorted_sort_key [of "\<lambda>r. - sr_used r" xs] by (simp add: sorted_map sorted_wrt_map)
  then show "sorted_wrt (\<lambda>a b. sb_LastUsedAt a \<ge> sb_LastUsedAt b) l"
    using k(2) by (simp add: sorted_wrt_map to_Sandbox_def)
qed

theorem history_refines_map_witness:
  "\<exists>d d' n. SandboxRepo_MarkStopped mem_pool ''sb-1'' exPg = (Inr n, d) \<and>
     map_option sr_status (row_of (mp_tables d) ''sb-1'') = Some SandboxStopped \<and>
     SandboxRepo_ByID mem_pool ''sb-1'' exPg = (Inr (to_Sandbox exRow), d')"
proof -
  have ok: "text_ok ''sb-1''" by code_simp
  have "\<exists>n d. SandboxRepo_MarkStopped mem_pool ''sb-1'' exPg = (Inr n, d)"
    by (simp add: SandboxRepo_MarkStopped_def exec_def mem_pool_def sql_mark_stopped_def update_sandbox_def ok done_defs)
  then obtain n d where d: "SandboxRepo_MarkStopped mem_pool ''sb-1'' exPg = (Inr n, d)" by blast
  have r: "row_of (mp_tables exPg) ''sb-1'' = Some exRow" by (simp add: row_of_def exPg_def exRow_def)
  have "\<exists>d'. SandboxRepo_ByID mem_pool ''sb-1'' exPg = (Inr (to_Sandbox exRow), d')"
    by (simp add: SandboxRepo_ByID_def query_row_def or_not_found_def mem_pool_def sql_sandbox_by_id_def ok done_defs exPg_def exRow_def)
  moreover have "map_option sr_status (row_of (mp_tables d) ''sb-1'') = Some SandboxStopped"
    using history_refines_map [OF mem_pool_laws exPg_ok, of _ n d "''sb-1''"] d by (simp add: r)
  ultimately show ?thesis using d by blast
qed

section \<open>Transcripts\<close>

lemma next_seq_Max: "next_seq sid T = Max (insert 0 (tl_Seq ` {l \<in> set (tb_lines T). tl_SandboxID l = sid})) + 1"
proof -
  have "fold max xs 0 = Max (insert 0 (set xs))" for xs :: "int list"
    using Max.set_eq_fold [of 0 xs] by simp
  then show ?thesis by (simp add: next_seq_def)
qed

definition line_core :: "TranscriptLine \<Rightarrow> string \<times> string \<times> int option" where
  "line_core l = (tl_Kind l, tl_Data l, tl_ExitCode l)"

lemma append_step:
  assumes "pg_laws P view" "TranscriptRepo_Append P sid k x c d = (Inr q, d')"
  obtains l where "line_core l = (k, x, c)" "tl_SandboxID l = sid" "tl_Seq l = q" "q = next_seq sid (view d)"
    "mset (tb_lines (view d')) = mset (tb_lines (view d)) + {#l#}" "next_seq sid (view d') = q + 1"
proof -
  have row: "query_row P scanInt (sql_append_line sid k x c) d = (Inr q, d')"
    using assms(2) by (simp add: TranscriptRepo_Append_def)
  obtain r T rw rws where r: "sql_append_line sid k x c (pq_env P d) (view d) = Some (r, T)" "q_rows r = rw # rws" "scanInt rw = Inr q"
    "same_rows T (view d')"
    by (rule query_row_ok [OF assms(1) row])
  let ?l = "\<lparr>tl_ID = ev_serial (pq_env P d), tl_SandboxID = sid, tl_Seq = next_seq sid (view d), tl_TS = ev_now (pq_env P d),
    tl_Kind = k, tl_Data = x, tl_ExitCode = c\<rparr>"
  have "q_rows r = [[CInt (next_seq sid (view d))]]" and T: "tb_lines T = tb_lines (view d) @ [?l]"
    using r(1) by (auto simp: sql_append_line_def insert_line_def done_defs split: if_splits)
  then have "q = next_seq sid (view d)" using r(2,3) by (simp add: scanInt_def)
  with T obtain l where l: "line_core l = (k, x, c)" "tl_SandboxID l = sid" "tl_Seq l = q" "q = next_seq sid (view d)"
    "tb_lines T = tb_lines (view d) @ [l]"
    by (intro that [of ?l]) (simp_all add: line_core_def)
  have m: "mset (tb_lines (view d')) = mset (tb_lines (view d)) + {#l#}" using l(5) r(4) by (simp add: same_rows_def)
  have "set (tb_lines (view d')) = insert l (set (tb_lines (view d)))" using same_rows_sets(5) [OF r(4)] l(5) by simp
  then have "{m \<in> set (tb_lines (view d')). tl_SandboxID m = sid} = insert l {m \<in> set (tb_lines (view d)). tl_SandboxID m = sid}"
    using l(2) by auto
  then have "next_seq sid (view d') = Max (insert (tl_Seq l) (insert 0 (tl_Seq ` {m \<in> set (tb_lines (view d)). tl_SandboxID m = sid}))) + 1"
    by (simp add: next_seq_Max insert_commute)
  also have "\<dots> = max (tl_Seq l) (next_seq sid (view d) - 1) + 1" by (subst Max_insert) (simp_all add: next_seq_Max)
  finally have "next_seq sid (view d') = q + 1" using l(3,4) by simp
  with l m that show thesis by blast
qed

fun append_all :: "'d pool \<Rightarrow> string \<Rightarrow> (string \<times> string \<times> int option) list \<Rightarrow> 'd \<Rightarrow> (pg_error, int list) result \<times> 'd" where
  "append_all P sid [] d = (Inr [], d)"
| "append_all P sid ((k, x, c) # ls) d = (case TranscriptRepo_Append P sid k x c d of
      (Inl e, d1) \<Rightarrow> (Inl e, d1)
    | (Inr q, d1) \<Rightarrow> (case append_all P sid ls d1 of (Inl e, d2) \<Rightarrow> (Inl e, d2) | (Inr qs, d2) \<Rightarrow> (Inr (q # qs), d2)))"

lemma append_all_lines:
  assumes "pg_laws P view" "append_all P sid ls d = (Inr qs, d')"
  shows "\<exists>new. map line_core new = ls \<and> map tl_Seq new = qs \<and> list_all (\<lambda>l. tl_SandboxID l = sid) new \<and>
    qs = map (\<lambda>i. next_seq sid (view d) + int i) [0..<length ls] \<and> mset (tb_lines (view d')) = mset (tb_lines (view d)) + mset new"
  using assms(2)
proof (induction ls arbitrary: d qs)
  case (Cons a ls)
  obtain k x c where a: "a = (k, x, c)" by (cases a)
  obtain q d1 qs1 where q: "TranscriptRepo_Append P sid k x c d = (Inr q, d1)" "append_all P sid ls d1 = (Inr qs1, d')" "qs = q # qs1"
    using Cons.prems a by (auto split: prod.splits sum.splits)
  obtain l where l: "line_core l = (k, x, c)" "tl_SandboxID l = sid" "tl_Seq l = q" "q = next_seq sid (view d)"
    "mset (tb_lines (view d1)) = mset (tb_lines (view d)) + {#l#}" "next_seq sid (view d1) = q + 1"
    by (rule append_step [OF assms(1) q(1)])
  obtain new where new: "map line_core new = ls" "map tl_Seq new = qs1" "list_all (\<lambda>l. tl_SandboxID l = sid) new"
    "qs1 = map (\<lambda>i. next_seq sid (view d1) + int i) [0..<length ls]" "mset (tb_lines (view d')) = mset (tb_lines (view d1)) + mset new"
    using Cons.IH [OF q(2)] by blast
  have "[0..<length (a # ls)] = 0 # map Suc [0..<length ls]" by (simp add: upt_conv_Cons map_Suc_upt del: upt_Suc)
  then have "qs = map (\<lambda>i. next_seq sid (view d) + int i) [0..<length (a # ls)]"
    using q(3) new(4) l(4,6) by (simp add: comp_def algebra_simps del: upt_Suc)
  then show ?case using a l new q(3) by (intro exI [of _ "l # new"]) simp
qed simp

text \<open>
  C34: A transcript replays what was appended. Lines appended one after another get consecutive numbers, and listing the
  sandbox's lines after the number it had reached returns exactly the appended lines, in their order, cut at the limit.
\<close>

theorem transcript_replay:
  assumes "pg_laws P view" "append_all P sid ls d = (Inr qs, d')"
    "TranscriptRepo_List P sid (next_seq sid (view d) - 1) limit d' = (Inr out, d'')"
  shows "map line_core out = (if limit > 0 then take (nat limit) ls else ls) \<and>
    map tl_Seq out = (if limit > 0 then take (nat limit) qs else qs) \<and>
    qs = map (\<lambda>i. next_seq sid (view d) + int i) [0..<length ls]"
proof -
  let ?n = "next_seq sid (view d)" and ?cut = "\<lambda>xs. if limit > 0 then take (nat limit) xs else xs"
  let ?Q = "\<lambda>l. tl_SandboxID l = sid \<and> tl_Seq l > ?n - 1"
  obtain new where new: "map line_core new = ls" "map tl_Seq new = qs" "list_all (\<lambda>l. tl_SandboxID l = sid) new"
    "qs = map (\<lambda>i. ?n + int i) [0..<length ls]" "mset (tb_lines (view d')) = mset (tb_lines (view d)) + mset new"
    using append_all_lines [OF assms(1,2)] by blast
  have seqs: "sorted qs" "distinct qs" using new(4) by (auto simp: distinct_map inj_on_def sorted_map)
  have "\<not> ?Q l" if "l \<in> set (tb_lines (view d))" for l
  proof -
    have "tl_Seq l \<le> ?n - 1" if "tl_SandboxID l = sid"
      using \<open>l \<in> _\<close> that by (auto simp: next_seq_Max intro: Max_ge)
    then show ?thesis by auto
  qed
  then have "filter ?Q (tb_lines (view d)) = []" by (simp add: filter_empty_conv)
  moreover have "\<forall>l \<in> set new. ?Q l"
  proof
    fix l assume "l \<in> set new"
    then have "tl_SandboxID l = sid" "tl_Seq l \<in> set qs" using new(2,3) by (auto simp: list_all_iff)
    then show "?Q l" using new(4) by auto
  qed
  ultimately have "mset (filter ?Q (tb_lines (view d'))) = mset new"
    using arg_cong [OF new(5), of "filter_mset ?Q"] by (simp flip: mset_filter)
  then have perm: "mset (filter ?Q (tb_lines (view d'))) = mset new" .
  have "inj_on tl_Seq (set new)" using seqs(2) new(2) by (metis distinct_map)
  then have "inj_on tl_Seq (set (filter ?Q (tb_lines (view d'))))" unfolding mset_eq_setD [OF perm] .
  then have sort: "sort_key tl_Seq (filter ?Q (tb_lines (view d'))) = new"
    using seqs(1) new(2) by (intro sort_key_inj_key_eq [OF perm]) simp_all
  obtain r T where r: "sql_list_lines sid (?n - 1) limit (pq_env P d') (view d') = Some (r, T)"
    "scan_all (scanLine sid) (q_rows r) = Inr out" "same_rows T (view d'')"
    by (rule query_rows_ok [OF assms(1) assms(3) [unfolded TranscriptRepo_List_def]])
  have "scan_all (scanLine sid) (map line_cells (?cut new)) = Inr (map (\<lambda>l. l\<lparr>tl_ID := 0\<rparr>) (?cut new))"
    using new(3) by (intro scan_all_map) (auto simp: list_all_iff dest: in_set_takeD split: if_splits)
  then have "out = map (\<lambda>l. l\<lparr>tl_ID := 0\<rparr>) (?cut new)"
    using r(1,2) sort by (auto simp: sql_list_lines_def done_defs Let_def split: if_splits)
  then have "map line_core out = ?cut (map line_core new)" "map tl_Seq out = ?cut (map tl_Seq new)"
    by (auto simp: comp_def line_core_def take_map)
  then show ?thesis using new(1,2,4) by simp
qed

lemma exPg_append:
  "text_ok k \<Longrightarrow> text_ok x \<Longrightarrow> pred_option int4 c \<Longrightarrow> row_of (mp_tables m) ''sb-1'' \<noteq> None \<Longrightarrow>
   \<exists>m'. TranscriptRepo_Append mem_pool ''sb-1'' k x c m = (Inr (next_seq ''sb-1'' (mp_tables m)), m') \<and>
     row_of (mp_tables m') ''sb-1'' \<noteq> None"
proof -
  have "text_ok ''sb-1''" by code_simp
  then show "text_ok k \<Longrightarrow> text_ok x \<Longrightarrow> pred_option int4 c \<Longrightarrow> row_of (mp_tables m) ''sb-1'' \<noteq> None \<Longrightarrow> ?thesis"
    by (simp add: TranscriptRepo_Append_def query_row_def or_error_def mem_pool_def sql_append_line_def insert_line_def done_defs
        scanInt_def row_of_None)
qed

theorem transcript_replay_witness:
  "\<exists>d d' out. append_all mem_pool ''sb-1'' [(KindInput, ''ls'', None), (KindExit, [], Some 0)] exPg = (Inr [1, 2], d) \<and>
     TranscriptRepo_List mem_pool ''sb-1'' 0 5000 d = (Inr out, d') \<and>
     map line_core out = [(KindInput, ''ls'', None), (KindExit, [], Some 0)]"
proof -
  let ?ls = "[(KindInput, ''ls'', None), (KindExit, [], Some (0 :: int))]"
  have ok: "text_ok KindInput" "text_ok ''ls''" "text_ok KindExit" "text_ok []" "text_ok ''sb-1''" by code_simp+
  have r: "row_of (mp_tables exPg) ''sb-1'' \<noteq> None" "next_seq ''sb-1'' (mp_tables exPg) = 1"
    by (simp_all add: row_of_def exPg_def exRow_def next_seq_def no_rows_def)
  obtain m where m: "TranscriptRepo_Append mem_pool ''sb-1'' KindInput ''ls'' None exPg = (Inr 1, m)" "row_of (mp_tables m) ''sb-1'' \<noteq> None"
    using exPg_append [OF ok(1,2), of None exPg] r by auto
  obtain m2 where m2: "TranscriptRepo_Append mem_pool ''sb-1'' KindExit [] (Some 0) m = (Inr (next_seq ''sb-1'' (mp_tables m)), m2)"
    using exPg_append [OF ok(3,4), of "Some 0" m] m(2) by (auto simp: int4_def)
  have "next_seq ''sb-1'' (mp_tables m) = 1 + 1" by (rule append_step [OF mem_pool_laws m(1)]) simp
  with m m2 obtain d where d: "append_all mem_pool ''sb-1'' ?ls exPg = (Inr [1, 2], d)" by simp
  have "\<exists>out d'. TranscriptRepo_List mem_pool ''sb-1'' 0 5000 d = (Inr out, d')"
  proof -
    have "scan_all (scanLine ''sb-1'') (map line_cells (take 5000 xs)) = Inr (map (\<lambda>l. l\<lparr>tl_ID := 0\<rparr>) (take 5000 xs))"
      if "\<forall>l \<in> set xs. tl_SandboxID l = ''sb-1''" for xs
      using that by (intro scan_all_map) (auto dest: in_set_takeD)
    then show ?thesis
      by (simp add: TranscriptRepo_List_def query_rows_def mem_pool_def sql_list_lines_def ok done_defs Let_def del: take_map)
  qed
  then obtain out d' where "TranscriptRepo_List mem_pool ''sb-1'' 0 5000 d = (Inr out, d')" by blast
  with transcript_replay [OF mem_pool_laws d, of 5000 out d'] d show ?thesis by (fastforce simp: r)
qed

text \<open>
  The number of a line is the result of a sub-query: two appends that evaluate it before either row is visible (as
  concurrent statements do at Postgres' default isolation) store the same number, and no constraint refuses the second.
\<close>

lemma append_race:
  assumes "sql_append_line sid k1 x1 c1 ev T = Some (r1, T1)" "text_ok k2" "text_ok x2" "pred_option int4 c2"
  shows "\<exists>r2 T2. insert_line sid (next_seq sid T) k2 x2 c2 ev' T1 = Some (r2, T2) \<and>
    map tl_Seq (drop (length (tb_lines T)) (tb_lines T2)) = [next_seq sid T, next_seq sid T]"
  using assms by (auto simp: sql_append_line_def insert_line_def done_defs split: if_splits)

section \<open>Connection string\<close>

text \<open>How the user and password of a URL are decoded (\<open>net/url\<close>): \<open>%XX\<close> only, a plus sign stays.\<close>

fun url_unescape :: "string \<Rightarrow> string option" where
  "url_unescape [] = Some []"
| "url_unescape (c # s) =
     (if c = CHR ''%'' then (case s of a # b # r \<Rightarrow> (case (hex_val a, hex_val b) of
          (Some x, Some y) \<Rightarrow> map_option (\<lambda>u. char_of (nat (16 * x + y)) # u) (url_unescape r)
        | _ \<Rightarrow> None) | _ \<Rightarrow> None)
      else map_option (\<lambda>u. c # u) (url_unescape s))"

lemma hex_val_upper_hex: "v < 16 \<Longrightarrow> hex_val (upper_hex v) = Some (int v)"
proof -
  assume "v < 16"
  then have "v \<in> {0, 1, 2, 3, 4, 5, 6, 7, 8, 9, 10, 11, 12, 13, 14, 15}" by simp presburger
  then show ?thesis unfolding upper_hex_def hex_val_def by (auto simp: code_def)
qed

lemma code_nat: "code c = int (of_char c)"
  by (cases c) (simp add: code_def)

lemma unescape_pct: "url_unescape (pct c @ s) = map_option ((#) c) (url_unescape s)"
proof -
  have "int (nat (code c div 16)) = code c div 16" "int (nat (code c mod 16)) = code c mod 16" using code_range [of c] by simp_all
  moreover have "nat (code c div 16) < 16" "nat (code c mod 16) < 16" using code_range [of c] by linarith+
  moreover have "char_of (nat (16 * (code c div 16) + code c mod 16)) = c"
    by (simp add: code_nat)
  ultimately show ?thesis by (simp add: pct_def hex_val_upper_hex)
qed

lemma unescape_plain: "c \<noteq> CHR ''%'' \<Longrightarrow> url_unescape (c # s) = map_option ((#) c) (url_unescape s)"
  by simp

lemma not_percent: "unreserved c \<Longrightarrow> c \<noteq> CHR ''%''"
  by (auto simp: unreserved_def Let_def code_def)

lemma unescape_PathEscape: "url_unescape (PathEscape s) = Some s"
proof (induction s)
  case (Cons c s)
  have "PathEscape (c # s) = (if unreserved c \<or> c \<in> set ''$&+=:@'' then [c] else pct c) @ PathEscape s" by (simp add: PathEscape_def)
  moreover have "c \<noteq> CHR ''%''" if "unreserved c \<or> c \<in> set ''$&+=:@''" using that not_percent by auto
  ultimately show ?case using Cons.IH unescape_pct unescape_plain by (auto simp del: url_unescape.simps)
qed (simp add: PathEscape_def)

lemma unescape_QueryEscape:
  "url_unescape (QueryEscape s) = Some (map (\<lambda>c. if c = CHR '' '' then CHR ''+'' else c) s)"
proof (induction s)
  case (Cons c s)
  have "QueryEscape (c # s) = (if unreserved c then [c] else if c = CHR '' '' then ''+'' else pct c) @ QueryEscape s"
    by (simp add: QueryEscape_def)
  moreover have "\<not> unreserved CHR '' ''" by (simp add: unreserved_def Let_def code_def)
  ultimately show ?case
    using Cons.IH unescape_pct [of c "QueryEscape s"] unescape_plain [of _ "QueryEscape s"] not_percent [of c]
    by (auto simp del: url_unescape.simps)
qed (simp add: QueryEscape_def)

lemma QueryEscape_chars: "c \<in> set (QueryEscape s) \<Longrightarrow> c \<notin> set '':@/?#''"
proof -
  define D where "D = set '':@/?#''"
  have u: "unreserved x \<Longrightarrow> x \<notin> D" for x by (auto simp: D_def unreserved_def Let_def code_def)
  have h: "upper_hex v \<notin> D" if "v < 16" for v
  proof -
    have "v \<in> {0, 1, 2, 3, 4, 5, 6, 7, 8, 9, 10, 11, 12, 13, 14, 15}" using that by simp presburger
    then show ?thesis unfolding upper_hex_def D_def by auto
  qed
  have n: "nat (code x div 16) < 16" "nat (code x mod 16) < 16" for x using code_range [of x] by linarith+
  have "CHR ''+'' \<notin> D" "CHR ''%'' \<notin> D" by (simp_all add: D_def)
  then have "set (if unreserved x then [x] else if x = CHR '' '' then ''+'' else pct x) \<inter> D = {}" for x
    using u [of x] h [OF n(1) [of x]] h [OF n(2) [of x]] by (auto simp: pct_def)
  then have "set (QueryEscape s) \<inter> D = {}" unfolding QueryEscape_def set_concat set_map by blast
  then show "c \<in> set (QueryEscape s) \<Longrightarrow> ?thesis" unfolding D_def by blast
qed

text \<open>
  What the connection string conveys. In \<open>DSN\<close> the escaped user and password contain none of the delimiters of
  a URL, so they end where they should, and the database name is decoded to itself; but they are escaped as a query, in
  which a space becomes a plus sign, and decoded as user information, where it stays one: exactly the credentials
  without a space arrive as they are.
\<close>

theorem dsn_credentials:
  "(\<exists>u p n t. DSN c = ''postgres://'' @ u @ '':'' @ p @ ''@'' @ pc_Host c @ '':'' @ t @ ''?sslmode='' @
        (if pc_SSLMode c = [] then ''disable'' else pc_SSLMode c) \<and>
      t = (if pc_Port c = [] then ''5432'' else pc_Port c) @ ''/'' @ n \<and> url_unescape n = Some (pc_DB c) \<and>
      set (u @ p) \<inter> set '':@/?#'' = {} \<and>
      (url_unescape u = Some (pc_User c) \<longleftrightarrow> CHR '' '' \<notin> set (pc_User c)) \<and>
      (url_unescape p = Some (pc_Password c) \<longleftrightarrow> CHR '' '' \<notin> set (pc_Password c)))"
proof -
  have space: "map (\<lambda>c. if c = CHR '' '' then CHR ''+'' else c) s = s \<longleftrightarrow> CHR '' '' \<notin> set s" for s :: string
    by (induction s) auto
  have delims: "set (QueryEscape (pc_User c) @ QueryEscape (pc_Password c)) \<inter> set '':@/?#'' = {}"
    unfolding set_append using QueryEscape_chars by blast
  show ?thesis
    by (rule exI [of _ "QueryEscape (pc_User c)"], rule exI [of _ "QueryEscape (pc_Password c)"], rule exI [of _ "PathEscape (pc_DB c)"],
        rule exI [of _ "(if pc_Port c = [] then ''5432'' else pc_Port c) @ ''/'' @ PathEscape (pc_DB c)"], intro conjI)
      (simp only: DSN_def Let_def append_assoc, rule refl, rule unescape_PathEscape, rule delims,
       simp_all only: unescape_QueryEscape option.inject space)
qed

section \<open>Migrations\<close>

text \<open>The body of a file whose contents can be read.\<close>

definition body_of :: "dirEntry \<Rightarrow> bytes" where
  "body_of f = (case de_Body f of Inl e \<Rightarrow> [] | Inr b \<Rightarrow> b)"

definition migrated :: "tables \<Rightarrow> string set \<times> bytes list" where
  "migrated T = (set (tb_versions T), tb_scripts T)"

lemma migrated_same_rows: "same_rows T T' \<Longrightarrow> migrated T' = migrated T"
  by (simp add: migrated_def same_rows_sets)

lemma migration_tx_effect:
  assumes "pg_laws P view" "migration_tx P v body d = (x, d')"
  shows "(migrated (view d') = migrated (view d) \<and> x \<noteq> None) \<or>
    (v \<notin> set (tb_versions (view d)) \<and> migrated (view d') = (insert v (set (tb_versions (view d))), tb_scripts (view d) @ [body]))"
proof -
  have roll: "migrated (view (pq_rollback P d)) = migrated (view d)" for d
    by (rule migrated_same_rows [OF pg_rollback [OF assms(1)]])
  have beg: "migrated (view d1) = migrated (view d)" if "pq_begin P d = (y, d1)" for y d d1
    by (rule migrated_same_rows [OF pg_begin [OF assms(1) that]])
  have exe: "migrated (view d1) = migrated (view d)" if "pq_tx_exec P qs q d = (y, d1)" for y d d1 qs q
    by (rule migrated_same_rows [OF pg_tx_exec [OF assms(1) that]])
  have com: "(migrated (view d1) = migrated (view d) \<and> y \<noteq> None) \<or>
      (v \<notin> set (tb_versions (view d)) \<and> migrated (view d1) = (insert v (set (tb_versions (view d))), tb_scripts (view d) @ [body]))"
    if "pq_commit P [sql_script body, sql_insert_version v] d = (y, d1)" for y d d1
  proof -
    have run: ?thesis if "tx_run [sql_script body, sql_insert_version v] (pq_env P d) (view d) = Some T" "same_rows T (view d1)" for T
    proof -
      have "v \<notin> set (tb_versions (view d))"
        "T = view d\<lparr>tb_scripts := tb_scripts (view d) @ [body], tb_versions := tb_versions (view d) @ [v]\<rparr>"
        using that(1) by (simp_all add: sql_script_def sql_insert_version_def done_defs split: if_splits)
      then show ?thesis using migrated_same_rows [OF that(2)] by (simp add: migrated_def)
    qed
    show ?thesis
    proof (cases y)
      case None
      then show ?thesis using pg_commit [OF assms(1)] that run by blast
    next
      case (Some e)
      with pg_commit_err [OF assms(1), of _ d e d1] that run migrated_same_rows show ?thesis by blast
    qed
  qed
  show ?thesis
  proof (cases "pq_begin P d")
    case (Pair b d1)
    note d1 = beg [OF this]
    show ?thesis
    proof (cases "pq_tx_exec P [] (sql_script body) d1")
      case (Pair b2 d2)
      note d2 = exe [OF this]
      obtain b3 d3 where e3: "pq_tx_exec P [sql_script body] (sql_insert_version v) d2 = (b3, d3)" by fastforce
      note d3 = exe [OF e3]
      obtain b4 d4 where e4: "pq_commit P [sql_script body, sql_insert_version v] d3 = (b4, d4)" by fastforce
      have m: "set (tb_versions (view d3)) = set (tb_versions (view d))" "tb_scripts (view d3) = tb_scripts (view d)"
        using d1 d2 d3 by (simp_all add: migrated_def)
      show ?thesis
        using assms(2) \<open>pq_begin P d = (b, d1)\<close> Pair e3 e4 com [OF e4] d1 d2 d3 roll m
        by (auto simp: migration_tx_def split: option.splits)
    qed
  qed
qed

lemma apply_migration_effect:
  assumes "pg_laws P view" "apply_migration P f d = (x, d')"
  shows "(migrated (view d') = migrated (view d) \<and> x \<noteq> None) \<or> (version_of f \<notin> set (tb_versions (view d)) \<and>
    migrated (view d') = (insert (version_of f) (set (tb_versions (view d))), tb_scripts (view d) @ [body_of f]))"
  using assms(2) migration_tx_effect [OF assms(1), of "version_of f" _ d x d']
  by (auto simp: apply_migration_def body_of_def split: sum.splits)

lemma check_applied:
  assumes "pg_laws P view" "or_error w (query_row P scanBool (sql_is_applied v) d) = (x, d')"
  shows "migrated (view d') = migrated (view d)" "x = Inr b \<Longrightarrow> b \<longleftrightarrow> v \<in> set (tb_versions (view d))"
proof -
  obtain y where y: "query_row P scanBool (sql_is_applied v) d = (y, d')"
    using assms(2) by (metis or_error_iff(2) prod.collapse snd_conv)
  then show "migrated (view d') = migrated (view d)"
    by (intro migrated_same_rows query_row_reads [OF assms(1) reading_statements(13)])
  show "b \<longleftrightarrow> v \<in> set (tb_versions (view d))" if "x = Inr b"
  proof -
    have q: "query_row P scanBool (sql_is_applied v) d = (Inr b, d')" using assms(2) that by simp
    obtain r T row rows where "sql_is_applied v (pq_env P d) (view d) = Some (r, T)" "q_rows r = row # rows" "scanBool row = Inr b"
      "same_rows T (view d')" by (rule query_row_ok [OF assms(1) q])
    then show ?thesis by (auto simp: sql_is_applied_def done_defs scanBool_def split: if_splits)
  qed
qed

definition missing :: "tables \<Rightarrow> dirEntry list \<Rightarrow> dirEntry list" where
  "missing T fs = filter (\<lambda>f. version_of f \<notin> set (tb_versions T)) fs"

definition extended :: "tables \<Rightarrow> dirEntry list \<Rightarrow> string set \<times> bytes list" where
  "extended T fs = (set (tb_versions T) \<union> version_of ` set fs, tb_scripts T @ map body_of fs)"

lemma missing_cong: "migrated T' = migrated T \<Longrightarrow> missing T' fs = missing T fs" "migrated T' = migrated T \<Longrightarrow> extended T' fs = extended T fs"
  by (simp_all add: missing_def migrated_def extended_def)

lemma migrate_loop_effect:
  assumes "pg_laws P view" "distinct (map version_of fs)" "migrate_loop P fs d = (x, d')"
  shows "\<exists>k. k \<le> length fs \<and> migrated (view d') = extended (view d) (missing (view d) (take k fs)) \<and> (x = None \<longrightarrow> k = length fs)"
  using assms(2,3)
proof (induction fs arbitrary: d)
  case Nil
  then show ?case by (simp add: missing_def extended_def migrated_def)
next
  case (Cons f fs)
  obtain c d1 where c: "or_error (''pg: check migration '' @ version_of f) (query_row P scanBool (sql_is_applied (version_of f)) d) = (c, d1)"
    by fastforce
  note d1 = check_applied [OF assms(1) c] and run = Cons.prems(2) [unfolded migrate_loop.simps c]
  have none: "\<exists>k. k \<le> length (f # fs) \<and> migrated (view d') = extended (view d) (missing (view d) (take k (f # fs))) \<and> (x = None \<longrightarrow> k = length (f # fs))"
    if "migrated (view d') = migrated (view d)" "x \<noteq> None"
    using that by (intro exI [of _ 0]) (simp add: missing_def extended_def migrated_def)
  have later: "\<exists>k. k \<le> length (f # fs) \<and> migrated (view d') = extended (view d) (missing (view d) (take k (f # fs))) \<and> (x = None \<longrightarrow> k = length (f # fs))"
    if l: "migrate_loop P fs d2 = (x, d')" "migrated (view d2) = extended (view d) (missing (view d) [f])" for d2
  proof -
    obtain k where k: "k \<le> length fs" "migrated (view d') = extended (view d2) (missing (view d2) (take k fs))" "x = None \<longrightarrow> k = length fs"
      using Cons.IH [OF _ l(1)] Cons.prems(1) by auto
    have "version_of g \<noteq> version_of f" if "g \<in> set (take k fs)" for g
      using in_set_takeD [OF that] Cons.prems(1) by (metis distinct.simps(2) image_eqI list.set_map list.simps(9))
    then have "extended (view d2) (missing (view d2) (take k fs)) = extended (view d) (missing (view d) (f # take k fs))"
      using l(2) by (auto simp: extended_def missing_def migrated_def split: if_splits intro!: filter_cong arg_cong [of _ _ "map body_of"])
    with k show ?thesis by (intro exI [of _ "Suc k"]) simp
  qed
  show ?case
  proof (cases c)
    case (Inl e)
    then have "d' = d1" "x \<noteq> None" using run by auto
    then show ?thesis using d1(1) none by blast
  next
    case (Inr b)
    then have b: "b \<longleftrightarrow> version_of f \<in> set (tb_versions (view d))" by (rule d1(2))
    show ?thesis
    proof (cases b)
      case True
      then have "migrate_loop P fs d1 = (x, d')" using run Inr by simp
      moreover have "migrated (view d1) = extended (view d) (missing (view d) [f])"
        using True b d1(1) by (simp add: missing_def extended_def migrated_def)
      ultimately show ?thesis by (rule later)
    next
      case False
      obtain y d2 where a: "apply_migration P f d1 = (y, d2)" by fastforce
      from apply_migration_effect [OF assms(1) a] show ?thesis
      proof
        assume "migrated (view d2) = migrated (view d1) \<and> y \<noteq> None"
        moreover from this have "d' = d2" "x \<noteq> None" using a run Inr False by auto
        ultimately show ?thesis using d1(1) none by metis
      next
        assume "version_of f \<notin> set (tb_versions (view d1)) \<and>
          migrated (view d2) = (insert (version_of f) (set (tb_versions (view d1))), tb_scripts (view d1) @ [body_of f])"
        then have m: "migrated (view d2) = extended (view d) (missing (view d) [f])"
          using d1(1) b False by (simp add: missing_def extended_def migrated_def)
        show ?thesis
        proof (cases y)
          case None
          then have "migrate_loop P fs d2 = (x, d')" using run a Inr False by simp
          then show ?thesis using m by (rule later)
        next
          case (Some e)
          then have "d' = d2" "x \<noteq> None" using run a Inr False by auto
          then show ?thesis using m by (intro exI [of _ 1]) auto
        qed
      qed
    qed
  qed
qed

lemma version_of_inject:
  "has_suffix (de_Name f) ''.sql'' \<Longrightarrow> has_suffix (de_Name g) ''.sql'' \<Longrightarrow> version_of f = version_of g \<Longrightarrow> de_Name f = de_Name g"
  unfolding version_of_def trim_suffix_def has_suffix_def by (metis append_take_drop_id)

lemma migration_versions_distinct:
  assumes "distinct (map de_Name entries)"
  shows "distinct (map version_of (migrationFiles entries))"
proof -
  let ?fs = "migrationFiles entries"
  have "distinct (map de_Name ?fs)"
    using assms by (simp add: migrationFiles_def distinct_map distinct_map_filter inj_on_def)
  moreover have "\<forall>f \<in> set ?fs. has_suffix (de_Name f) ''.sql''" by (simp add: migrationFiles_def)
  ultimately show ?thesis
    using version_of_inject by (auto simp: distinct_map inj_on_def)
qed

text \<open>
  Migrations are applied once, in order and never by half. The files considered are the \<open>.sql\<close> files in lexical order.
  However \<open>Migrate\<close> ends, a prefix of them is now applied: each file of the prefix that was not recorded before has had its
  script executed, after the scripts executed earlier and in the order of the files, and is recorded; nothing else was executed or recorded.
  A success means that the prefix is all of them, and a further call then executes nothing.
\<close>

theorem migrate_once_in_order:
  assumes "pg_laws P view" "distinct (map de_Name entries)" "Migrate P (Inr entries) d = (x, d')"
  defines "fs \<equiv> migrationFiles entries"
  shows "sorted (map de_Name fs) \<and> set fs = {f \<in> set entries. \<not> de_IsDir f \<and> has_suffix (de_Name f) ''.sql''} \<and>
    (\<exists>k. k \<le> length fs \<and> set (tb_versions (view d')) = set (tb_versions (view d)) \<union> version_of ` set (missing (view d) (take k fs)) \<and>
       tb_scripts (view d') = tb_scripts (view d) @ map body_of (missing (view d) (take k fs)) \<and> (x = None \<longrightarrow> k = length fs)) \<and>
    (x = None \<longrightarrow> Migrate P (Inr entries) d' = (y, d'') \<longrightarrow> tb_scripts (view d'') = tb_scripts (view d'))"
proof -
  have effect: "\<exists>k. k \<le> length fs \<and> migrated (view d1) = extended (view d0) (missing (view d0) (take k fs)) \<and> (z = None \<longrightarrow> k = length fs)"
    if m: "Migrate P (Inr entries) d0 = (z, d1)" for d0 d1 z
  proof -
    obtain e d2 where e: "exec P sql_ensure_migrations ''pg: ensure schema_migrations'' d0 = (e, d2)" by fastforce
    have same: "migrated (view d2) = migrated (view d0)"
      by (rule migrated_same_rows [OF reads_same [OF reading_statements(14) exec_any [OF assms(1) e]]])
    show ?thesis
    proof (cases e)
      case (Inl a)
      with m e have "d1 = d2" "z \<noteq> None" by (auto simp: Migrate_def)
      then show ?thesis using same by (intro exI [of _ 0]) (auto simp: missing_def extended_def migrated_def)
    next
      case (Inr a)
      with m e have "migrate_loop P fs d2 = (z, d1)" by (simp add: Migrate_def fs_def)
      from migrate_loop_effect [OF assms(1) migration_versions_distinct [OF assms(2), folded fs_def] this]
      show ?thesis using missing_cong [OF same] by metis
    qed
  qed
  obtain k where k: "k \<le> length fs" "migrated (view d') = extended (view d) (missing (view d) (take k fs))" "x = None \<longrightarrow> k = length fs"
    using effect [OF assms(3)] by blast
  have "tb_scripts (view d'') = tb_scripts (view d')" if again: "x = None" "Migrate P (Inr entries) d' = (y, d'')"
  proof -
    obtain j where j: "migrated (view d'') = extended (view d') (missing (view d') (take j fs))" using effect [OF again(2)] by blast
    have "version_of f \<in> set (tb_versions (view d'))" if "f \<in> set fs" for f
      using k that again(1) by (auto simp: migrated_def extended_def missing_def)
    then have "missing (view d') (take j fs) = []" by (auto simp: missing_def filter_empty_conv dest: in_set_takeD)
    with j show ?thesis by (simp add: migrated_def extended_def)
  qed
  moreover have "sorted (map de_Name fs)" "set fs = {f \<in> set entries. \<not> de_IsDir f \<and> has_suffix (de_Name f) ''.sql''}"
    by (auto simp: fs_def migrationFiles_def)
  ultimately show ?thesis using k by (auto simp: migrated_def extended_def)
qed

definition exFile :: "string \<Rightarrow> dirEntry" where
  "exFile n = \<lparr>de_Name = n, de_IsDir = False, de_Body = Inr n\<rparr>"

lemma mem_apply_migration:
  assumes "text_ok (version_of f)" "version_of f \<notin> set (tb_versions (mp_tables m))" "de_Body f = Inr b"
  shows "\<exists>m'. apply_migration mem_pool f m = (None, m') \<and>
    mp_tables m' = mp_tables m\<lparr>tb_scripts := tb_scripts (mp_tables m) @ [b], tb_versions := tb_versions (mp_tables m) @ [version_of f]\<rparr>"
  using assms by (simp add: apply_migration_def migration_tx_def mem_pool_def sql_script_def sql_insert_version_def done_defs)

theorem migrate_once_in_order_witness:
  "\<exists>d d' x. Migrate mem_pool (Inr [exFile ''b.sql'', exFile ''a.sql'', exFile ''notes'']) exPg = (None, d) \<and>
     tb_scripts (mp_tables d) = [''a.sql'', ''b.sql''] \<and>
     Migrate mem_pool (Inr [exFile ''b.sql'', exFile ''a.sql'', exFile ''notes'']) d = (x, d') \<and>
     tb_scripts (mp_tables d') = [''a.sql'', ''b.sql'']"
proof -
  let ?es = "[exFile ''b.sql'', exFile ''a.sql'', exFile ''notes'']"
  have fs: "migrationFiles ?es = [exFile ''a.sql'', exFile ''b.sql'']" by code_simp
  have v: "version_of (exFile ''a.sql'') = ''a''" "version_of (exFile ''b.sql'') = ''b''" by code_simp+
  have ok: "text_ok ''a''" "text_ok ''b''" by code_simp+
  have chk: "\<exists>m'. or_error w (query_row mem_pool scanBool (sql_is_applied v) m) = (Inr (v \<in> set (tb_versions (mp_tables m))), m') \<and>
      mp_tables m' = mp_tables m" if "text_ok v" for v w m
    using that by (simp add: query_row_def mem_pool_def sql_is_applied_def done_defs scanBool_def or_error_def)
  have e0: "tb_versions (mp_tables exPg) = []" "tb_scripts (mp_tables exPg) = []" by (simp_all add: exPg_def no_rows_def)
  obtain m0 where m0: "exec mem_pool sql_ensure_migrations ''pg: ensure schema_migrations'' exPg = (Inr 0, m0)" "mp_tables m0 = mp_tables exPg"
    by (simp add: exec_def mem_pool_def sql_ensure_migrations_def done_defs)
  obtain m1 where m1: "or_error (''pg: check migration '' @ ''a'') (query_row mem_pool scanBool (sql_is_applied ''a'') m0) = (Inr False, m1)"
    "mp_tables m1 = mp_tables exPg"
    using chk [OF ok(1), of "''pg: check migration '' @ ''a''" m0] m0(2) e0 by auto
  obtain m2 where m2: "apply_migration mem_pool (exFile ''a.sql'') m1 = (None, m2)"
    "tb_versions (mp_tables m2) = [''a'']" "tb_scripts (mp_tables m2) = [''a.sql'']"
    using mem_apply_migration [of "exFile ''a.sql''" m1 "''a.sql''"] m1(2) e0 ok v by (auto simp: exFile_def)
  obtain m3 where m3: "or_error (''pg: check migration '' @ ''b'') (query_row mem_pool scanBool (sql_is_applied ''b'') m2) = (Inr False, m3)"
    "mp_tables m3 = mp_tables m2"
    using chk [OF ok(2), of "''pg: check migration '' @ ''b''" m2] m2(2) by auto
  obtain m4 where m4: "apply_migration mem_pool (exFile ''b.sql'') m3 = (None, m4)" "tb_scripts (mp_tables m4) = [''a.sql'', ''b.sql'']"
    using mem_apply_migration [of "exFile ''b.sql''" m3 "''b.sql''"] m3(2) m2 ok v by (auto simp: exFile_def)
  have run: "Migrate mem_pool (Inr ?es) exPg = (None, m4)"
    unfolding Migrate_def m0(1) using m1(1) m2(1) m3(1) m4(1) by (simp add: fs v or_error_def)
  moreover obtain x d' where "Migrate mem_pool (Inr ?es) m4 = (x, d')" by fastforce
  moreover have "distinct (map de_Name ?es)" by (simp add: exFile_def)
  ultimately show ?thesis
    using migrate_once_in_order [OF mem_pool_laws _ run, of x d'] m4(2) by auto
qed

end
