(* ===== verification/Auth.thy ===== *)
theory Auth
  imports PgStore
begin

unbundle bit_operations_syntax

text \<open>
  Operator authentication (\<open>internal/auth/auth.go\<close>): passwords, the comparison of tokens, principals, login sessions and
  their cookie. The package bcrypt is a parameter. Times here are Go's, in nanoseconds.
\<close>

section \<open>Passwords and tokens\<close>

definition bcryptCost :: int where "bcryptCost = 12"

definition CookieName :: string where "CookieName = ''sid''"

text \<open>\<open>bc_generate\<close> takes the salt it draws as an argument; \<open>bc_compare\<close> returns the error of a mismatch.\<close>

record bcrypt =
  bc_generate :: "string \<Rightarrow> string \<Rightarrow> int \<Rightarrow> (string, string) result"
  bc_compare :: "string \<Rightarrow> string \<Rightarrow> string option"

definition HashPassword :: "bcrypt \<Rightarrow> string \<Rightarrow> string \<Rightarrow> (string, string) result" where
  "HashPassword B salt plain = (case bc_generate B salt plain bcryptCost of
      Inl e \<Rightarrow> Inl (''auth: hash: '' @ e)
    | Inr b \<Rightarrow> Inr b)"

definition VerifyPassword :: "bcrypt \<Rightarrow> string \<Rightarrow> string \<Rightarrow> bool" where
  "VerifyPassword B hash plain \<longleftrightarrow> bc_compare B hash plain = None"

text \<open>\<open>subtle.ConstantTimeCompare\<close>: the bytes are compared without an early exit.\<close>

definition ConstantTimeCompare :: "string \<Rightarrow> string \<Rightarrow> int" where
  "ConstantTimeCompare x y = (if length x \<noteq> length y then 0
     else if fold (\<lambda>(a, b) v. v OR (code a XOR code b)) (zip x y) 0 = 0 then 1 else 0)"

definition ConstantTimeEqual :: "string \<Rightarrow> string \<Rightarrow> bool" where
  "ConstantTimeEqual a b \<longleftrightarrow> ConstantTimeCompare a b = 1"

section \<open>Principals\<close>

record Principal =
  pr_UserID :: string
  pr_Username :: string
  pr_Role :: string
  pr_Service :: bool

definition IsAdmin :: "Principal \<Rightarrow> bool" where
  "IsAdmin p \<longleftrightarrow> pr_Service p \<or> pr_Role p = RoleAdmin"

text \<open>The principal of a request's context, if the middleware placed one; \<open>p, _ := FromContext\<close> gives the zero value otherwise.\<close>

definition zeroPrincipal :: Principal where
  "zeroPrincipal = \<lparr>pr_UserID = [], pr_Username = [], pr_Role = [], pr_Service = False\<rparr>"

definition principal_or_zero :: "Principal option \<Rightarrow> Principal" where
  "principal_or_zero c = (case c of None \<Rightarrow> zeroPrincipal | Some p \<Rightarrow> p)"

section \<open>Sessions\<close>

record Sessions =
  sm_ttl :: int

definition Hour :: int where "Hour = 3600000000000"

definition NewSessions :: "int \<Rightarrow> Sessions" where
  "NewSessions ttl = \<lparr>sm_ttl = (if ttl \<le> 0 then 24 * Hour else ttl)\<rparr>"

definition TTL :: "Sessions \<Rightarrow> int" where
  "TTL s = sm_ttl s"

text \<open>\<open>i\<close> is the fresh UUID and \<open>now\<close> the reading of the clock; the database keeps microseconds.\<close>

definition Sessions_Create ::
  "'d pool \<Rightarrow> Sessions \<Rightarrow> string \<Rightarrow> int \<Rightarrow> string \<Rightarrow> string \<Rightarrow> string \<Rightarrow> 'd \<Rightarrow> (pg_error, string \<times> int) result \<times> 'd" where
  "Sessions_Create P s i now userID userAgent ip d =
     (let ex = now + sm_ttl s in
      case SessionRepo_Create P i userID (ex div 1000) userAgent ip d of
        (Inl e, d') \<Rightarrow> (Inl e, d')
      | (Inr _, d') \<Rightarrow> (Inr (i, ex), d'))"

definition Sessions_Resolve :: "'d pool \<Rightarrow> string \<Rightarrow> 'd \<Rightarrow> (pg_error, User) result \<times> 'd" where
  "Sessions_Resolve P i d = SessionRepo_Resolve P i d"

definition Sessions_Revoke :: "'d pool \<Rightarrow> string \<Rightarrow> 'd \<Rightarrow> (pg_error, int) result \<times> 'd" where
  "Sessions_Revoke P i d = SessionRepo_Revoke P i d"

section \<open>The session cookie\<close>

record Cookie =
  ck_Name :: string
  ck_Value :: string
  ck_Path :: string
  ck_Expires :: "int option"
  ck_MaxAge :: int
  ck_HttpOnly :: bool
  ck_Secure :: bool
  ck_SameSiteStrict :: bool

definition SetSessionCookie :: "int \<Rightarrow> string \<Rightarrow> int \<Rightarrow> bool \<Rightarrow> Cookie" where
  "SetSessionCookie now i expires secure =
     \<lparr>ck_Name = CookieName, ck_Value = i, ck_Path = ''/'', ck_Expires = Some expires,
      ck_MaxAge = go_div (expires - now) 1000000000, ck_HttpOnly = True, ck_Secure = secure, ck_SameSiteStrict = True\<rparr>"

definition ClearSessionCookie :: "bool \<Rightarrow> Cookie" where
  "ClearSessionCookie secure =
     \<lparr>ck_Name = CookieName, ck_Value = [], ck_Path = ''/'', ck_Expires = None,
      ck_MaxAge = - 1, ck_HttpOnly = True, ck_Secure = secure, ck_SameSiteStrict = True\<rparr>"

text \<open>The cookies of a request by name; a missing one reads as the empty string.\<close>

definition CookieValue :: "(string \<Rightarrow> string option) \<Rightarrow> string" where
  "CookieValue cookies = (case cookies CookieName of None \<Rightarrow> [] | Some v \<Rightarrow> v)"

section \<open>Properties\<close>

lemma xor_zero_iff: "(a :: int) XOR b = 0 \<longleftrightarrow> a = b"
proof
  assume "a XOR b = 0"
  then have "bit a n = bit b n" for n using bit_xor_iff [of a b n] by simp
  then show "a = b" by (rule bit_eqI)
qed simp

lemma fold_or_zero: "fold (\<lambda>(a, b) v. v OR (code a XOR code b)) ps (v :: int) = 0 \<longleftrightarrow> v = 0 \<and> list_all (\<lambda>(a, b). a = b) ps"
proof (induction ps arbitrary: v)
  case (Cons p ps)
  obtain a b where p: "p = (a, b)" by (cases p)
  have "v OR (code a XOR code b) = 0 \<longleftrightarrow> v = 0 \<and> a = b"
    unfolding or_eq_0_iff xor_zero_iff code_inject by (rule refl)
  then show ?case using Cons.IH [of "v OR (code a XOR code b)"] p by simp
qed simp

text \<open>The constant-time comparison is equality.\<close>

lemma ConstantTimeEqual_iff: "ConstantTimeEqual a b \<longleftrightarrow> a = b"
proof -
  have "list_all (\<lambda>(x, y). x = y) (zip a b) \<longleftrightarrow> a = b" if "length a = length b"
    using that by (induction a b rule: list_induct2) auto
  then show ?thesis by (auto simp: ConstantTimeEqual_def ConstantTimeCompare_def fold_or_zero)
qed

end
