(* ===== verification/Terminal.thy ===== *)
theory Terminal
  imports VsockClient Gate StateStore PgStore "HOL-Library.Sublist"
begin

text \<open>
  The terminal proxy (\<open>internal/gateway/proxy.go\<close>): one WebSocket session, from a browser's message to the execution of
  its script in the guest. A session is a list of turns, one per message received before the client goes away; a turn carries
  what the outside contributes to it (readings of the clock, what Redis holds while a decision is awaited, the
  connection to the guest). The session's log is the sequence of what it did: events sent, transcript lines, submissions and executions.
\<close>

section \<open>Messages\<close>

record wsRequest =
  wr_Script :: string
  wr_TimeoutSec :: int
  wr_Env :: gomap

definition set_wsRequest :: "wsRequest \<Rightarrow> bytes \<Rightarrow> json \<Rightarrow> (string, wsRequest) result" where
  "set_wsRequest r k j =
     (let n = fold_name k in
      if n = ''SCRIPT'' then rbind (dec_string (wr_Script r) j) (\<lambda>v. Inr (r\<lparr>wr_Script := v\<rparr>))
      else if n = ''TIMEOUT_SEC'' then rbind (dec_int (wr_TimeoutSec r) j) (\<lambda>v. Inr (r\<lparr>wr_TimeoutSec := v\<rparr>))
      else if n = ''ENV'' then rbind (dec_map (wr_Env r) j) (\<lambda>v. Inr (r\<lparr>wr_Env := v\<rparr>))
      else Inr r)"

definition unmarshalWs :: "bytes \<Rightarrow> (string, wsRequest) result" where
  "unmarshalWs b = json_unmarshal \<lparr>wr_Script = [], wr_TimeoutSec = 0, wr_Env = []\<rparr> set_wsRequest b"

record wsEvent =
  we_Kind :: string
  we_Data :: string
  we_ExitCode :: int
  we_ApprovalID :: string
  we_Reason :: string
  we_Message :: string

definition evtOutput :: string where "evtOutput = ''output''"
definition evtExit :: string where "evtExit = ''exit''"
definition evtError :: string where "evtError = ''error''"
definition evtPending :: string where "evtPending = ''pending''"
definition evtApproved :: string where "evtApproved = ''approved''"
definition evtRejected :: string where "evtRejected = ''rejected''"

lemmas evt_defs = evtOutput_def evtExit_def evtError_def evtPending_def evtApproved_def evtRejected_def

definition evt :: "string \<Rightarrow> wsEvent" where
  "evt k = \<lparr>we_Kind = k, we_Data = [], we_ExitCode = 0, we_ApprovalID = [], we_Reason = [], we_Message = []\<rparr>"

definition eventJSON :: "wsEvent \<Rightarrow> json" where
  "eventJSON e = JObj ((''kind'', JStr (we_Kind e)) # omit_str ''data'' (we_Data e) @ omit_int ''exit_code'' (we_ExitCode e) @
     omit_str ''approval_id'' (we_ApprovalID e) @ omit_str ''reason'' (we_Reason e) @ omit_str ''message'' (we_Message e))"

section \<open>The proxy\<close>

record terminalProxy =
  tp_gate :: Gate
  tp_vsockCfg :: VsockConfig
  tp_origins :: "string list"
  tp_transcripts :: bool
  tp_sandboxes :: bool

definition newTerminalProxy :: "Gate \<Rightarrow> VsockConfig \<Rightarrow> string list \<Rightarrow> bool \<Rightarrow> bool \<Rightarrow> terminalProxy" where
  "newTerminalProxy gate vsockCfg origins transcripts sandboxes =
     \<lparr>tp_gate = gate, tp_vsockCfg = vsockCfg, tp_origins = origins, tp_transcripts = transcripts, tp_sandboxes = sandboxes\<rparr>"

text \<open>\<open>urlHost\<close> is the host of \<open>url.Parse\<close>, if the text parses.\<close>

definition checkOrigin :: "(string \<Rightarrow> string option) \<Rightarrow> terminalProxy \<Rightarrow> string \<Rightarrow> string \<Rightarrow> bool" where
  "checkOrigin urlHost p origin host =
     (if origin = [] then True
      else if list_ex (\<lambda>allowed. origin = allowed) (tp_origins p) then True
      else if tp_origins p \<noteq> [] then False
      else case urlHost origin of None \<Rightarrow> False | Some h \<Rightarrow> h = host)"

definition newExecID :: "string option \<Rightarrow> string" where
  "newExecID rnd = (case rnd of None \<Rightarrow> ''exec'' | Some hex \<Rightarrow> ''ex-'' @ hex)"

section \<open>A session\<close>

datatype session_event =
    Sent wsEvent
  | Line string string "int option"
  | Submitted string string
  | Executed ExecutionRequest

record 'd session =
  ts_db :: 'd
  ts_buckets :: "string \<Rightarrow> bucket option"
  ts_log :: "session_event list"

text \<open>\<open>send\<close> marshals the event and writes it; errors are ignored.\<close>

definition send :: "wsEvent \<Rightarrow> 'd session \<Rightarrow> 'd session" where
  "send e s = s\<lparr>ts_log := ts_log s @ [Sent e]\<rparr>"

definition recordLine :: "'d pool \<Rightarrow> terminalProxy \<Rightarrow> string \<Rightarrow> string \<Rightarrow> string \<Rightarrow> int option \<Rightarrow> 'd session \<Rightarrow> 'd session" where
  "recordLine P p sandboxID kind dat exitCode s =
     (if \<not> tp_transcripts p then s
      else s\<lparr>ts_db := snd (TranscriptRepo_Append P sandboxID kind dat exitCode (ts_db s)), ts_log := ts_log s @ [Line kind dat exitCode]\<rparr>)"

text \<open>
  What the outside contributes to a turn: the message; the clock and an error of the rate limiter; Redis when the
  request is submitted, the new id and the time; what the wait for a decision sees; the random part of the
  execution's id; the context and the connection of the execution.
\<close>

record ('r, 'w) turn =
  tu_msg :: bytes
  tu_now :: int
  tu_down :: "string option"
  tu_redis :: 'r
  tu_newID :: "(string, string) result"
  tu_time :: time
  tu_wait :: "'r wait_event list"
  tu_rnd :: "string option"
  tu_ctx :: ctx
  tu_dial :: "'w dialer"

text \<open>What the callback of \<open>Exec\<close> does with the frames, and what is left of them for the transcript.\<close>

fun on_frames :: "ResponseFrame list \<Rightarrow> 'd session \<Rightarrow> 'd session" where
  "on_frames [] s = s"
| "on_frames (f # fs) s = on_frames fs
     (if rf_Kind f = FrameOutput then send ((evt evtOutput)\<lparr>we_Data := rf_Data f\<rparr>) s
      else if rf_Kind f = FrameExit then send ((evt evtExit)\<lparr>we_ExitCode := rf_ExitCode f\<rparr>) s else s)"

definition outBuf :: "ResponseFrame list \<Rightarrow> string" where
  "outBuf fs = concat (map rf_Data (filter (\<lambda>f. rf_Kind f = FrameOutput) fs))"

definition exitCode_of :: "ResponseFrame list \<Rightarrow> int option" where
  "exitCode_of fs = (case filter (\<lambda>f. rf_Kind f = FrameExit) fs of [] \<Rightarrow> None | es \<Rightarrow> Some (rf_ExitCode (last es)))"

definition execRequest :: "wsRequest \<Rightarrow> string \<Rightarrow> ExecutionRequest" where
  "execRequest req i = zeroRequest\<lparr>er_ID := i, er_Kind := KindExec, er_Script := wr_Script req, er_TimeoutSec := wr_TimeoutSec req, er_Env := wr_Env req\<rparr>"

text \<open>\<open>etext\<close> is \<open>Error()\<close> of an error of the client.\<close>

definition execute ::
  "'d pool \<Rightarrow> terminalProxy \<Rightarrow> (vsock_error \<Rightarrow> string) \<Rightarrow> 'w writer \<Rightarrow> Client \<Rightarrow> string \<Rightarrow> wsRequest \<Rightarrow> ('r, 'w) turn \<Rightarrow> 'd session \<Rightarrow> 'd session" where
  "execute P p etext wr client sandboxID req t s =
     (let execReq = execRequest req (newExecID (tu_rnd t)) in
      case Exec client (tu_ctx t) wr (tu_dial t) execReq of
        (execErr, fs, _) \<Rightarrow>
          (let s1 = on_frames fs (s\<lparr>ts_log := ts_log s @ [Executed execReq]\<rparr>);
               s2 = (if outBuf fs \<noteq> [] then recordLine P p sandboxID KindOutput (outBuf fs) None s1 else s1);
               s3 = (case exitCode_of fs of None \<Rightarrow> s2 | Some c \<Rightarrow> recordLine P p sandboxID KindExit [] (Some c) s2)
           in case execErr of None \<Rightarrow> s3 | Some e \<Rightarrow> send ((evt evtError)\<lparr>we_Message := etext e\<rparr>) s3))"

text \<open>
  The branch of a sensitive script: \<open>Some True\<close> goes on to the execution, \<open>Some False\<close> to the next message, \<open>None\<close> ends the
  session (the wait failed: \<open>cancelWait\<close> has been called by then, so \<open>waitCtx.Err()\<close> is never \<open>nil\<close>, or it is still waiting).
\<close>

definition approve ::
  "'r redis \<Rightarrow> 'd pool \<Rightarrow> terminalProxy \<Rightarrow> string \<Rightarrow> string \<Rightarrow> string \<Rightarrow> ('r, 'w) turn \<Rightarrow> 'd session \<Rightarrow> bool option \<times> 'd session" where
  "approve R P p sandboxID script reason t s =
     (case Submit R (tp_gate p) (tu_newID t) (tu_time t) sandboxID script reason (tu_redis t) of
        (Inl e, _) \<Rightarrow> (Some False, send ((evt evtError)\<lparr>we_Message := ''failed to submit for approval''\<rparr>) s)
      | (Inr k, _) \<Rightarrow>
         (let s1 = send ((evt evtPending)\<lparr>we_ApprovalID := k, we_Reason := reason\<rparr>) (s\<lparr>ts_log := ts_log s @ [Submitted k script]\<rparr>);
              s2 = recordLine P p sandboxID KindHITL (''pending: '' @ reason) None s1
          in case WaitForDecision R k (tu_wait t) of
               None \<Rightarrow> (None, s2)
             | Some (_, Some e) \<Rightarrow> (None, s2)
             | Some (decision, None) \<Rightarrow>
                 if decision = StateRejected
                 then (Some False, recordLine P p sandboxID KindHITL ''rejected'' None (send (evt evtRejected) s2))
                 else (Some True, recordLine P p sandboxID KindHITL ''approved'' None (send (evt evtApproved) s2))))"

text \<open>The argument \<open>rateAllow\<close>: the clock, an error of the limiter and the key give the verdict and the new buckets.\<close>

type_synonym limiter =
  "int \<Rightarrow> string option \<Rightarrow> string \<Rightarrow> (string \<Rightarrow> bucket option) \<Rightarrow> (store_error, bool) result \<times> (string \<Rightarrow> bucket option)"

text \<open>One turn of the loop of \<open>serve\<close>: whether the loop goes on, and the session after it.\<close>

definition serve_turn ::
  "'r redis \<Rightarrow> 'd pool \<Rightarrow> (bytes \<Rightarrow> bytes) \<Rightarrow> terminalProxy \<Rightarrow> (vsock_error \<Rightarrow> string) \<Rightarrow> 'w writer \<Rightarrow> Client \<Rightarrow> string \<Rightarrow>
   limiter option \<Rightarrow>
   ('r, 'w) turn \<Rightarrow> 'd session \<Rightarrow> bool \<times> 'd session" where
  "serve_turn R P ul p etext wr client sandboxID rateAllow t s = (case unmarshalWs (tu_msg t) of
      Inl e \<Rightarrow> (True, send ((evt evtError)\<lparr>we_Message := ''invalid request JSON''\<rparr>) s)
    | Inr req \<Rightarrow>
       (if wr_Script req = [] then (True, send ((evt evtError)\<lparr>we_Message := ''script is required''\<rparr>) s)
        else let (ok, s1) = (case rateAllow of
                   None \<Rightarrow> (True, s)
                 | Some f \<Rightarrow> (case f (tu_now t) (tu_down t) (''cmd:'' @ sandboxID) (ts_buckets s) of
                     (Inl e, bs) \<Rightarrow> (True, s\<lparr>ts_buckets := bs\<rparr>)
                   | (Inr b, bs) \<Rightarrow> (b, s\<lparr>ts_buckets := bs\<rparr>)))
        in if \<not> ok then (True, send ((evt evtError)\<lparr>we_Message := ''rate limit exceeded (60 commands/min)''\<rparr>) s1)
        else let s2 = recordLine P p sandboxID KindInput (wr_Script req) None s1 in
          case Classify ul (ga_rules (tp_gate p)) (wr_Script req) of
            (ClassSensitive, reason) \<Rightarrow> (case approve R P p sandboxID (wr_Script req) reason t s2 of
                (None, s3) \<Rightarrow> (False, s3)
              | (Some False, s3) \<Rightarrow> (True, s3)
              | (Some True, s3) \<Rightarrow> (True, execute P p etext wr client sandboxID req t s3))
          | (ClassBenign, _) \<Rightarrow> (True, execute P p etext wr client sandboxID req t s2)))"

fun serve_loop ::
  "'r redis \<Rightarrow> 'd pool \<Rightarrow> (bytes \<Rightarrow> bytes) \<Rightarrow> terminalProxy \<Rightarrow> (vsock_error \<Rightarrow> string) \<Rightarrow> 'w writer \<Rightarrow> Client \<Rightarrow> string \<Rightarrow>
   limiter option \<Rightarrow>
   ('r, 'w) turn list \<Rightarrow> 'd session \<Rightarrow> 'd session" where
  "serve_loop R P ul p etext wr client sandboxID rateAllow [] s = s"
| "serve_loop R P ul p etext wr client sandboxID rateAllow (t # ts) s =
     (case serve_turn R P ul p etext wr client sandboxID rateAllow t s of
        (False, s') \<Rightarrow> s'
      | (True, s') \<Rightarrow> serve_loop R P ul p etext wr client sandboxID rateAllow ts s')"

text \<open>\<open>serve\<close>: \<open>upgraded\<close> says whether the handshake succeeded, which needs \<open>checkOrigin\<close>.\<close>

definition serve ::
  "'r redis \<Rightarrow> 'd pool \<Rightarrow> (bytes \<Rightarrow> bytes) \<Rightarrow> terminalProxy \<Rightarrow> (vsock_error \<Rightarrow> string) \<Rightarrow> 'w writer \<Rightarrow> bool \<Rightarrow> string \<Rightarrow> string \<Rightarrow>
   limiter option \<Rightarrow>
   ('r, 'w) turn list \<Rightarrow> 'd session \<Rightarrow> 'd session" where
  "serve R P ul p etext wr upgraded vsockPath sandboxID rateAllow ts s =
     (if \<not> upgraded then s
      else let s1 = (if tp_sandboxes p then s\<lparr>ts_db := snd (SandboxRepo_Touch P sandboxID (ts_db s))\<rparr> else s)
        in serve_loop R P ul p etext wr (NewClient vsockPath (tp_vsockCfg p)) sandboxID rateAllow ts s1)"

section \<open>What is executed\<close>

definition executed :: "'d session \<Rightarrow> ExecutionRequest list" where
  "executed s = concat (map (\<lambda>e. case e of Executed r \<Rightarrow> [r] | _ \<Rightarrow> []) (ts_log s))"

lemma executed_log [simp]:
  "executed (s\<lparr>ts_log := ts_log s @ [Executed r]\<rparr>) = executed s @ [r]"
  "executed (s\<lparr>ts_log := ts_log s @ [Submitted k x]\<rparr>) = executed s"
  "executed (s\<lparr>ts_db := d\<rparr>) = executed s" "executed (s\<lparr>ts_buckets := b\<rparr>) = executed s"
  by (simp_all add: executed_def)

lemma executed_send [simp]: "executed (send e s) = executed s"
  by (simp add: send_def executed_def)

lemma executed_recordLine [simp]: "executed (recordLine P p sid k x c s) = executed s"
  by (simp add: recordLine_def executed_def)

lemma executed_on_frames [simp]: "executed (on_frames fs s) = executed s"
  by (induction fs arbitrary: s) auto

lemma executed_execute [simp]:
  "executed (execute P p etext wr client sid req t s) = executed s @ [execRequest req (newExecID (tu_rnd t))]"
  by (auto simp: execute_def Let_def split: prod.split option.split)

lemma executed_approve [simp]: "executed (snd (approve R P p sid script reason t s)) = executed s"
  by (auto simp: approve_def Let_def split: prod.split sum.split option.split)

text \<open>The wait that lets a script through has read an approval that is neither pending nor rejected.\<close>

lemma wait_approved:
  "WaitForDecision R k es = Some (st, None) \<Longrightarrow> st \<noteq> StateRejected \<Longrightarrow>
   \<exists>r rec. Tick r \<in> set es \<and> GetApproval R k r = Inr rec \<and> ap_State rec = st \<and> st \<noteq> StatePending"
  by (induction R k es rule: WaitForDecision.induct) (auto split: sum.splits if_splits)

lemma approve_True:
  assumes "fst (approve R P p sid script reason t s) = Some True"
  shows "\<exists>k r' r rec. Submit R (tp_gate p) (tu_newID t) (tu_time t) sid script reason (tu_redis t) = (Inr k, r') \<and>
    Tick r \<in> set (tu_wait t) \<and> GetApproval R k r = Inr rec \<and> ap_State rec \<noteq> StatePending \<and> ap_State rec \<noteq> StateRejected"
  using assms wait_approved
  by (fastforce simp: approve_def Let_def split: prod.splits sum.splits option.splits if_splits)

definition cleared :: "'r redis \<Rightarrow> (bytes \<Rightarrow> bytes) \<Rightarrow> Gate \<Rightarrow> string \<Rightarrow> ('r, 'w) turn \<Rightarrow> string \<Rightarrow> bool" where
  "cleared R ul g sid t script \<longleftrightarrow> fst (Classify ul (ga_rules g) script) = ClassBenign \<or>
     (\<exists>k r' r rec. Submit R g (tu_newID t) (tu_time t) sid script (snd (Classify ul (ga_rules g) script)) (tu_redis t) = (Inr k, r') \<and>
        Tick r \<in> set (tu_wait t) \<and> GetApproval R k r = Inr rec \<and> ap_State rec \<noteq> StatePending \<and> ap_State rec \<noteq> StateRejected)"

lemma serve_turn_executed:
  assumes "serve_turn R P ul p etext wr client sid rateAllow t s = (b, s')"
  shows "executed s' = executed s \<or> (\<exists>req. unmarshalWs (tu_msg t) = Inr req \<and> wr_Script req \<noteq> [] \<and>
    cleared R ul (tp_gate p) sid t (wr_Script req) \<and> executed s' = executed s @ [execRequest req (newExecID (tu_rnd t))])"
proof (cases "unmarshalWs (tu_msg t)")
  case (Inr req)
  let ?c = "Classify ul (ga_rules (tp_gate p)) (wr_Script req)"
  obtain ok s1 where l: "(case rateAllow of None \<Rightarrow> (True, s)
      | Some f \<Rightarrow> (case f (tu_now t) (tu_down t) (''cmd:'' @ sid) (ts_buckets s) of
          (Inl e, bs) \<Rightarrow> (True, s\<lparr>ts_buckets := bs\<rparr>) | (Inr b, bs) \<Rightarrow> (b, s\<lparr>ts_buckets := bs\<rparr>))) = (ok, s1)"
    by fastforce
  then have s1: "executed s1 = executed s" by (auto split: option.splits prod.splits sum.splits)
  let ?s2 = "recordLine P p sid KindInput (wr_Script req) None s1"
  obtain a s3 where a: "approve R P p sid (wr_Script req) (snd ?c) t ?s2 = (a, s3)" by fastforce
  have s3: "executed s3 = executed s" using executed_approve [of R P p sid "wr_Script req" "snd ?c" t ?s2] a s1 by simp
  have ap: "cleared R ul (tp_gate p) sid t (wr_Script req)" if "a = Some True"
    using approve_True [of R P p sid "wr_Script req" "snd ?c" t ?s2] a that unfolding cleared_def by auto
  show ?thesis
  proof (cases "wr_Script req = [] \<or> \<not> ok")
    case True
    then show ?thesis using assms Inr s1 unfolding serve_turn_def l by (cases "wr_Script req = []") (auto simp: Let_def)
  next
    case False
    then have run: "(b, s') = (case ?c of (ClassSensitive, reason) \<Rightarrow> (case approve R P p sid (wr_Script req) reason t ?s2 of
          (None, s3) \<Rightarrow> (False, s3) | (Some False, s3) \<Rightarrow> (True, s3)
        | (Some True, s3) \<Rightarrow> (True, execute P p etext wr client sid req t s3))
      | (ClassBenign, _) \<Rightarrow> (True, execute P p etext wr client sid req t ?s2))"
      using assms Inr unfolding serve_turn_def l by (simp add: Let_def)
    show ?thesis
    proof (cases "fst ?c")
      case ClassBenign
      then have "cleared R ul (tp_gate p) sid t (wr_Script req)" by (simp add: cleared_def)
      then show ?thesis using run ClassBenign False Inr s1 by (cases ?c) auto
    next
      case ClassSensitive
      then have "?c = (ClassSensitive, snd ?c)" by (metis prod.collapse)
      then have "(b, s') = (case a of None \<Rightarrow> (False, s3) | Some False \<Rightarrow> (True, s3) | Some True \<Rightarrow> (True, execute P p etext wr client sid req t s3))"
        using run a by (auto split: option.splits bool.splits prod.splits)
      then show ?thesis using ap False Inr s3 by (auto split: option.splits bool.splits)
    qed
  qed
qed (use assms in \<open>auto simp: serve_turn_def\<close>)

lemma serve_loop_executed:
  assumes "req \<in> set (executed (serve_loop R P ul p etext wr client sid rateAllow ts s))"
  shows "req \<in> set (executed s) \<or> (\<exists>t \<in> set ts. er_Script req \<noteq> [] \<and> cleared R ul (tp_gate p) sid t (er_Script req))"
  using assms
proof (induction ts arbitrary: s)
  case (Cons t ts)
  obtain b s' where t: "serve_turn R P ul p etext wr client sid rateAllow t s = (b, s')" by fastforce
  have "req \<in> set (executed s') \<or> (\<exists>t \<in> set ts. er_Script req \<noteq> [] \<and> cleared R ul (tp_gate p) sid t (er_Script req))"
    using Cons t by (cases b) auto
  then show ?case
  proof
    assume "req \<in> set (executed s')"
    with serve_turn_executed [OF t] show ?thesis by (auto simp: execRequest_def)
  qed auto
qed simp

lemma serve_executed:
  assumes "req \<in> set (executed (serve R P ul p etext wr upgraded path sid rateAllow ts s))"
  shows "req \<in> set (executed s) \<or> (\<exists>t \<in> set ts. er_Script req \<noteq> [] \<and> cleared R ul (tp_gate p) sid t (er_Script req))"
  using assms serve_loop_executed [where s = "s\<lparr>ts_db := snd (SandboxRepo_Touch P sid (ts_db s))\<rparr>"]
    serve_loop_executed [where s = s]
  by (fastforce simp: serve_def Let_def split: if_splits)

text \<open>
  What a turn's view of Redis has to do with the gate: the id drawn for a request is new, and what the wait reads has come
  about from there by runs of the gate's operations. \<open>hist t r\<close> is the history up to the state \<open>r\<close> of turn \<open>t\<close>.
\<close>

definition turn_ok :: "'r redis \<Rightarrow> ('r \<Rightarrow> rview) \<Rightarrow> Gate \<Rightarrow> (('r, 'w) turn \<Rightarrow> 'r \<Rightarrow> gate_event list) \<Rightarrow> ('r, 'w) turn \<Rightarrow> bool" where
  "turn_ok R view g hist t \<longleftrightarrow>
     (\<forall>k. tu_newID t = Inr k \<longrightarrow> rv_str (view (tu_redis t)) (approvalKey k) = None) \<and>
     (\<forall>r. Tick r \<in> set (tu_wait t) \<longrightarrow> gate_runs R view g (tu_redis t) (hist t r) r)"

lemma Classify_benign: "fst (Classify ul rules script) = ClassBenign \<Longrightarrow> Classify ul rules script = (ClassBenign, [])"
  by (simp add: Classify_def classify_loop_find split: option.splits)

lemma Submit_newID: "Submit R g newID now sb script reason r = (Inr k, r') \<Longrightarrow> newID = Inr k"
  by (auto simp: Submit_def Let_def split: sum.splits prod.splits option.splits)

text \<open>
  C1: No sensitive script runs without an operator's approval. Every script that a terminal session hands to the guest is not
  empty, and either the classifier finds it benign, or in one of the session's turns exactly this script was submitted to
  the gate under a new id and, by the moment the session's wait let it through, an operator had decided this id with
  approve. This holds whatever the messages, the rate limiter, the database, Redis's errors and the
  operations of other sessions and operators on the gate are, as long as Redis keeps its documented promises.
\<close>

theorem sensitive_runs_only_approved:
  assumes "redis_laws R view" and "\<forall>t \<in> set ts. turn_ok R view (tp_gate p) hist t" and "executed s = []"
    and "req \<in> set (executed (serve R P ul p etext wr upgraded path sid rateAllow ts s))"
  shows "er_Script req \<noteq> [] \<and>
    (Classify ul (ga_rules (tp_gate p)) (er_Script req) = (ClassBenign, []) \<or>
     (\<exists>t k r r' reason. t \<in> set ts \<and> Classify ul (ga_rules (tp_gate p)) (er_Script req) = (ClassSensitive, reason) \<and>
        Submit R (tp_gate p) (tu_newID t) (tu_time t) sid (er_Script req) reason (tu_redis t) = (Inr k, r') \<and>
        Tick r \<in> set (tu_wait t) \<and> approved_in (hist t r) k))"
proof -
  let ?c = "Classify ul (ga_rules (tp_gate p)) (er_Script req)"
  obtain t where t: "t \<in> set ts" "er_Script req \<noteq> []" "cleared R ul (tp_gate p) sid t (er_Script req)"
    using serve_executed [OF assms(4)] assms(3) by auto
  show ?thesis
  proof (cases "fst ?c")
    case ClassBenign
    then have "?c = (ClassBenign, [])" by (rule Classify_benign)
    with t(2) show ?thesis by blast
  next
    case ClassSensitive
    with t(3) obtain k r' r rec where c: "Submit R (tp_gate p) (tu_newID t) (tu_time t) sid (er_Script req) (snd ?c) (tu_redis t) = (Inr k, r')"
      "Tick r \<in> set (tu_wait t)" "GetApproval R k r = Inr rec" "ap_State rec \<noteq> StatePending" "ap_State rec \<noteq> StateRejected"
      by (auto simp: cleared_def)
    have "rv_str (view (tu_redis t)) (approvalKey k) = None" "gate_runs R view (tp_gate p) (tu_redis t) (hist t r) r"
      using assms(2) t(1) Submit_newID [OF c(1)] c(2) by (auto simp: turn_ok_def)
    from let_through_approved [OF assms(1) this(2,1) c(3-5)] have "approved_in (hist t r) k" .
    moreover have "?c = (ClassSensitive, snd ?c)" using ClassSensitive by (metis prod.collapse)
    ultimately show ?thesis using t(1,2) c(1,2) by blast
  qed
qed

text \<open>The example: an operator approves \<open>sudo id\<close> while the session waits.\<close>

definition exApproval :: ApprovalRecord where
  "exApproval = \<lparr>ap_ID = ''a1'', ap_SandboxID = ''sb-1'', ap_Script = ''sudo id'', ap_Reason = ''privilege escalation'',
     ap_State = StatePending, ap_SubmittedAt = ''2024-02-29T12:00:00Z'', ap_DecidedBy = [], ap_DecidedAt = None\<rparr>"

definition exWait :: "Gate \<Rightarrow> mem_redis" where
  "exWait g = snd (decide_write mem_server g ''2024-02-29T12:00:01.5Z'' ''a1'' DecisionApprove ''ann'' exApproval
     (snd (Submit mem_server g (Inr ''a1'') ''2024-02-29T12:00:00Z'' ''sb-1'' ''sudo id'' (ap_Reason exApproval) mem_empty)))"

definition exTurn :: "Gate \<Rightarrow> (mem_redis, bytes) turn" where
  "exTurn g = \<lparr>tu_msg = ''{'' @ [CHR 0x22] @ ''script'' @ [CHR 0x22] @ '':'' @ [CHR 0x22] @ ''sudo id'' @ [CHR 0x22] @ ''}'', tu_now = 0, tu_down = None,
     tu_redis = mem_empty, tu_newID = Inr ''a1'', tu_time = ''2024-02-29T12:00:00Z'', tu_wait = [Tick (exWait g)],
     tu_rnd = Some ''00'', tu_ctx = exCtx, tu_dial = \<lambda>_. Inl ''refused''\<rparr>"

lemma exGate_default:
  "map_option (\<lambda>g. Classify (\<lambda>b. b) (ga_rules g) ''sudo id'') (NewGate 0) = Some (ClassSensitive, ap_Reason exApproval)"
  by code_simp

lemma exTurn_waits:
  "WaitForDecision mem_server ''a1'' (tu_wait (exTurn g)) = Some (StateApproved, None)"
  "gate_runs mem_server mem_view g mem_empty [SubmitOf ''a1'', DecideOf ''a1'' DecisionApprove ''ann''] (exWait g)"
proof -
  let ?rec = "exApproval\<lparr>ap_DecidedBy := ''ann'', ap_DecidedAt := Some ''2024-02-29T12:00:01.5Z'', ap_State := StateApproved\<rparr>"
  have "approval_ok ?rec"
    using exTimes by (auto simp: approval_ok_def exApproval_def state_defs code_def intro!: ascii_valid_utf8)
  moreover have "rv_str (mem_view (exWait g)) (approvalKey ''a1'') = Some (marshalApproval ?rec)"
    by (simp add: exWait_def decide_write_def decided_def state_defs mem_server_def mem_view_def Let_def approvalKey_def auditKey_def)
  moreover have "readable mem_server (exWait g) ''a1''" by (simp add: readable_def mem_server_def)
  ultimately have "GetApproval mem_server ''a1'' (exWait g) = Inr ?rec" using stored_reads(1) [OF mem_server_laws] by blast
  then show "WaitForDecision mem_server ''a1'' (tu_wait (exTurn g)) = Some (StateApproved, None)"
    by (simp add: exTurn_def state_defs)
  have "gate_runs mem_server mem_view g mem_empty [] mem_empty" by (rule gate_runs.start)
  from gate_runs.decide [OF gate_runs.submit [OF this prod.collapse [symmetric]] prod.collapse [symmetric]]
  show "gate_runs mem_server mem_view g mem_empty [SubmitOf ''a1'', DecideOf ''a1'' DecisionApprove ''ann''] (exWait g)"
    unfolding exWait_def by fastforce
qed

theorem sensitive_runs_only_approved_witness:
  "\<exists>g req t k r h. NewGate 0 = Some g \<and>
     executed (serve mem_server mem_pool (\<lambda>b. b) (newTerminalProxy g (cl_cfg exClient) [] False False) (\<lambda>_. []) buf_write True
       ''/srv/vsock.sock'' ''sb-1'' None [exTurn g] \<lparr>ts_db = exPg, ts_buckets = Map.empty, ts_log = []\<rparr>) = [req] \<and>
     er_Script req = ''sudo id'' \<and> t = exTurn g \<and> Tick r \<in> set (tu_wait t) \<and>
     h = [SubmitOf ''a1'', DecideOf ''a1'' DecisionApprove ''ann''] \<and> approved_in h k"
proof -
  obtain g where g: "NewGate 0 = Some g" "Classify (\<lambda>b. b) (ga_rules g) ''sudo id'' = (ClassSensitive, ap_Reason exApproval)"
    using exGate_default by (cases "NewGate 0") auto
  let ?p = "newTerminalProxy g (cl_cfg exClient) [] False False"
  let ?s = "\<lparr>ts_db = exPg, ts_buckets = Map.empty, ts_log = []\<rparr>"
  let ?req = "\<lparr>wr_Script = ''sudo id'', wr_TimeoutSec = 0, wr_Env = []\<rparr>"
  let ?t = "exTurn g"
  let ?run = "serve mem_server mem_pool (\<lambda>b. b) ?p (\<lambda>_. []) buf_write True ''/srv/vsock.sock'' ''sb-1'' None [?t] ?s"
  have m: "unmarshalWs (tu_msg ?t) = Inr ?req" unfolding exTurn_def by simp code_simp
  have p: "tp_gate ?p = g" "tp_transcripts ?p = False" "tp_sandboxes ?p = False" by (simp_all add: newTerminalProxy_def)
  have sub: "\<exists>r'. Submit mem_server g (tu_newID ?t) (tu_time ?t) ''sb-1'' ''sudo id'' reason (tu_redis ?t) = (Inr ''a1'', r')" for reason
    by (simp add: exTurn_def Submit_def mem_server_def Let_def)
  have "fst (approve mem_server mem_pool ?p ''sb-1'' ''sudo id'' reason ?t s) = Some True" for reason s
    using sub [of reason] by (auto simp: approve_def p exTurn_waits(1) Let_def state_defs)
  moreover have "executed (snd (approve mem_server mem_pool ?p ''sb-1'' ''sudo id'' reason ?t ?s)) = []" for reason
    unfolding executed_approve by (simp add: executed_def)
  ultimately obtain s3 where "approve mem_server mem_pool ?p ''sb-1'' ''sudo id'' (ap_Reason exApproval) ?t ?s = (Some True, s3)" "executed s3 = []"
    by (metis prod.collapse)
  then have run: "executed ?run = [execRequest ?req (newExecID (tu_rnd ?t))]"
    by (simp add: serve_def serve_turn_def m p g(2) recordLine_def)
  have ok: "\<forall>t \<in> set [?t]. turn_ok mem_server mem_view (tp_gate ?p) (\<lambda>_ _. [SubmitOf ''a1'', DecideOf ''a1'' DecisionApprove ''ann'']) t"
    using exTurn_waits(2) by (auto simp: turn_ok_def p exTurn_def mem_view_def mem_empty_def)
  have e: "executed ?s = []" "execRequest ?req (newExecID (tu_rnd ?t)) \<in> set (executed ?run)" by (simp add: executed_def, simp add: run)
  have sc: "er_Script (execRequest ?req (newExecID (tu_rnd ?t))) = ''sudo id''" by (simp add: execRequest_def)
  from sensitive_runs_only_approved [OF mem_server_laws ok e] g run sc show ?thesis
    unfolding p by fastforce
qed

section \<open>What is on record\<close>

text \<open>The lines handed to the transcript, the output sent to the client, and the output and the scripts among the lines.\<close>

definition transcript :: "'d session \<Rightarrow> (string \<times> string \<times> int option) list" where
  "transcript s = concat (map (\<lambda>e. case e of Line k x c \<Rightarrow> [(k, x, c)] | _ \<Rightarrow> []) (ts_log s))"

definition shown :: "'d session \<Rightarrow> string" where
  "shown s = concat (map (\<lambda>e. case e of Sent v \<Rightarrow> if we_Kind v = evtOutput then we_Data v else [] | _ \<Rightarrow> []) (ts_log s))"

definition lines_of :: "string \<Rightarrow> (string \<times> string \<times> int option) list \<Rightarrow> string list" where
  "lines_of k ls = map (\<lambda>(_, x, _). x) (filter (\<lambda>(k', _, _). k' = k) ls)"

definition record_all :: "'d pool \<Rightarrow> string \<Rightarrow> (string \<times> string \<times> int option) list \<Rightarrow> 'd \<Rightarrow> 'd" where
  "record_all P sid ls d = fold (\<lambda>(k, x, c) d. snd (TranscriptRepo_Append P sid k x c d)) ls d"

text \<open>The session between two turns, when it began with the database \<open>d\<close>.\<close>

definition on_record :: "'d pool \<Rightarrow> string \<Rightarrow> 'd \<Rightarrow> 'd session \<Rightarrow> bool" where
  "on_record P sid d s \<longleftrightarrow> ts_db s = record_all P sid (transcript s) d \<and> shown s = concat (lines_of KindOutput (transcript s)) \<and>
     subseq (map er_Script (executed s)) (lines_of KindInput (transcript s))"

lemma log_views:
  "transcript (s\<lparr>ts_log := ts_log s @ l\<rparr>) = transcript s @ transcript (s\<lparr>ts_log := l\<rparr>)"
  "shown (s\<lparr>ts_log := ts_log s @ l\<rparr>) = shown s @ shown (s\<lparr>ts_log := l\<rparr>)"
  by (simp_all add: transcript_def shown_def)

lemma kinds_differ [simp]:
  "KindOutput \<noteq> KindInput" "KindHITL \<noteq> KindInput" "KindHITL \<noteq> KindOutput" "KindExit \<noteq> KindInput" "KindExit \<noteq> KindOutput" "KindInput \<noteq> KindOutput"
  by (simp_all add: KindInput_def KindOutput_def KindHITL_def KindExit_def)

lemma send_record [simp]:
  "ts_db (send e s) = ts_db s" "transcript (send e s) = transcript s"
  "shown (send e s) = shown s @ (if we_Kind e = evtOutput then we_Data e else [])"
  by (simp_all add: send_def transcript_def shown_def)

lemma recordLine_record [simp]:
  assumes "tp_transcripts p"
  shows "ts_db (recordLine P p sid k x c s) = snd (TranscriptRepo_Append P sid k x c (ts_db s))"
    "transcript (recordLine P p sid k x c s) = transcript s @ [(k, x, c)]" "shown (recordLine P p sid k x c s) = shown s"
  using assms by (simp_all add: recordLine_def transcript_def shown_def)

lemma on_frames_record [simp]:
  "ts_db (on_frames fs s) = ts_db s" "transcript (on_frames fs s) = transcript s" "shown (on_frames fs s) = shown s @ outBuf fs"
  by (induction fs arbitrary: s) (auto simp: outBuf_def evt_def evt_defs FrameOutput_def FrameExit_def)

lemma record_all_simps [simp]:
  "record_all P sid [] d = d" "record_all P sid ((k, x, c) # ls) d = record_all P sid ls (snd (TranscriptRepo_Append P sid k x c d))"
  "record_all P sid (ls @ ms) d = record_all P sid ms (record_all P sid ls d)"
  by (simp_all add: record_all_def)

lemma lines_of_simps [simp]:
  "lines_of k [] = []" "lines_of k ((k', x, c) # ls) = (if k' = k then [x] else []) @ lines_of k ls"
  "lines_of k (ls @ ms) = lines_of k ls @ lines_of k ms"
  by (simp_all add: lines_of_def)

lemma executed_record [simp]:
  "ts_db (s\<lparr>ts_log := ts_log s @ [Executed r]\<rparr>) = ts_db s" "transcript (s\<lparr>ts_log := ts_log s @ [Executed r]\<rparr>) = transcript s"
  "shown (s\<lparr>ts_log := ts_log s @ [Executed r]\<rparr>) = shown s"
  "transcript (s\<lparr>ts_log := ts_log s @ [Submitted k x]\<rparr>) = transcript s" "shown (s\<lparr>ts_log := ts_log s @ [Submitted k x]\<rparr>) = shown s"
  by (simp_all add: transcript_def shown_def)

lemma execute_record:
  assumes "tp_transcripts p" "on_record P sid d s" "lines_of KindInput (transcript s) = ls @ [wr_Script req]"
    "subseq (map er_Script (executed s)) ls"
  shows "on_record P sid d (execute P p etext wr client sid req t s)"
proof -
  have "subseq (map er_Script (executed s) @ [wr_Script req]) (ls @ [wr_Script req])" using assms(4) by (intro list_emb_append_mono) auto
  moreover have "er_Script (execRequest req i) = wr_Script req" for i by (simp add: execRequest_def)
  ultimately show ?thesis using assms(1-3)
    by (auto simp: on_record_def execute_def Let_def evt_def evt_defs split: prod.split option.split)
qed

lemma approve_record:
  assumes "tp_transcripts p" "approve R P p sid script reason t s = (b, s')"
  shows "on_record P sid d s \<Longrightarrow> on_record P sid d s'" "lines_of KindInput (transcript s') = lines_of KindInput (transcript s)" "executed s' = executed s"
  using assms executed_approve [of R P p sid script reason t s]
  by (auto simp: approve_def on_record_def Let_def evt_def evt_defs split: prod.splits sum.splits option.splits if_splits)

lemma serve_turn_record:
  assumes "tp_transcripts p" "on_record P sid d s" "serve_turn R P ul p etext wr client sid rateAllow t s = (b, s')"
  shows "on_record P sid d s'"
proof (cases "unmarshalWs (tu_msg t)")
  case Inl
  with assms show ?thesis by (auto simp: serve_turn_def on_record_def evt_def evt_defs)
next
  case (Inr req)
  let ?c = "Classify ul (ga_rules (tp_gate p)) (wr_Script req)"
  obtain ok s1 where l: "(case rateAllow of None \<Rightarrow> (True, s)
      | Some f \<Rightarrow> (case f (tu_now t) (tu_down t) (''cmd:'' @ sid) (ts_buckets s) of
          (Inl e, bs) \<Rightarrow> (True, s\<lparr>ts_buckets := bs\<rparr>) | (Inr b, bs) \<Rightarrow> (b, s\<lparr>ts_buckets := bs\<rparr>))) = (ok, s1)"
    by fastforce
  have "transcript (s\<lparr>ts_buckets := bs\<rparr>) = transcript s" "shown (s\<lparr>ts_buckets := bs\<rparr>) = shown s" for bs
    by (simp_all add: transcript_def shown_def)
  with l assms(2) have s1: "on_record P sid d s1" by (auto simp: on_record_def split: option.splits prod.splits sum.splits)
  let ?s2 = "recordLine P p sid KindInput (wr_Script req) None s1"
  have s2: "on_record P sid d ?s2" using s1 assms(1) by (auto simp: on_record_def)
  have in2: "lines_of KindInput (transcript ?s2) = lines_of KindInput (transcript s1) @ [wr_Script req]"
    "subseq (map er_Script (executed ?s2)) (lines_of KindInput (transcript s1))"
    using assms(1) s1 by (auto simp: on_record_def)
  note run = execute_record [OF assms(1)]
  show ?thesis
  proof (cases "wr_Script req = [] \<or> \<not> ok")
    case True
    then show ?thesis using assms(2,3) Inr s1 unfolding serve_turn_def l
      by (cases "wr_Script req = []") (auto simp: Let_def on_record_def evt_def evt_defs)
  next
    case False
    then have r: "(b, s') = (case ?c of (ClassSensitive, reason) \<Rightarrow> (case approve R P p sid (wr_Script req) reason t ?s2 of
          (None, s3) \<Rightarrow> (False, s3) | (Some False, s3) \<Rightarrow> (True, s3)
        | (Some True, s3) \<Rightarrow> (True, execute P p etext wr client sid req t s3))
      | (ClassBenign, _) \<Rightarrow> (True, execute P p etext wr client sid req t ?s2))"
      using assms(3) Inr unfolding serve_turn_def l by (simp add: Let_def)
    show ?thesis
    proof (cases "fst ?c")
      case ClassBenign
      then show ?thesis using r run [OF s2 in2] by (cases ?c) auto
    next
      case ClassSensitive
      obtain a s3 where a: "approve R P p sid (wr_Script req) (snd ?c) t ?s2 = (a, s3)" by fastforce
      note ap = approve_record [OF assms(1) a]
      have "s' = s3 \<or> s' = execute P p etext wr client sid req t s3"
        using r a ClassSensitive by (cases ?c) (auto split: option.splits bool.splits)
      then show ?thesis using run [OF ap(1) [OF s2], of "lines_of KindInput (transcript s1)" req] ap(1) [OF s2] ap(2,3) in2 by auto
    qed
  qed
qed

lemma serve_loop_record:
  assumes "tp_transcripts p" "on_record P sid d s"
  shows "on_record P sid d (serve_loop R P ul p etext wr client sid rateAllow ts s)"
  using assms(2)
proof (induction ts arbitrary: s)
  case (Cons t ts)
  obtain b s' where "serve_turn R P ul p etext wr client sid rateAllow t s = (b, s')" by fastforce
  with Cons serve_turn_record [OF assms(1)] show ?case by (fastforce split: bool.splits)
qed simp



section \<open>The reader of a session\<close>

text \<open>
  The goroutine that reads the connection and the loop of \<open>serve\<close> meet at the unbuffered channel \<open>reads\<close>: \<open>rs_wire\<close> has arrived
  and is unread, \<open>rs_held\<close> is the message the reader offers on the channel, \<open>rs_done\<close> says that \<open>done\<close> is closed, and \<open>rs_busy\<close>
  that the loop is in a turn, where it waits for a decision or for the guest under contexts that end when \<open>done\<close> is closed. Only the
  reader closes \<open>done\<close>, when a read fails. A connection that breaks may lose what is unread.
\<close>

record reader_state =
  rs_wire :: "bytes list"
  rs_gone :: bool
  rs_held :: "bytes option"
  rs_done :: bool
  rs_busy :: bool

definition reader_start :: reader_state where
  "reader_start = \<lparr>rs_wire = [], rs_gone = False, rs_held = None, rs_done = False, rs_busy = False\<rparr>"

inductive reader_step :: "reader_state \<Rightarrow> reader_state \<Rightarrow> bool" where
  arrives: "\<not> rs_gone s \<Longrightarrow> reader_step s (s\<lparr>rs_wire := rs_wire s @ [m]\<rparr>)"
| breaks: "reader_step s (s\<lparr>rs_gone := True, rs_wire := take n (rs_wire s)\<rparr>)"
| reads: "\<not> rs_done s \<Longrightarrow> rs_held s = None \<Longrightarrow> rs_wire s = m # ms \<Longrightarrow> reader_step s (s\<lparr>rs_wire := ms, rs_held := Some m\<rparr>)"
| fails: "\<not> rs_done s \<Longrightarrow> rs_held s = None \<Longrightarrow> rs_wire s = [] \<Longrightarrow> rs_gone s \<Longrightarrow> reader_step s (s\<lparr>rs_done := True\<rparr>)"

inductive loop_step :: "reader_state \<Rightarrow> reader_state \<Rightarrow> bool" where
  receives: "\<not> rs_busy s \<Longrightarrow> rs_held s = Some m \<Longrightarrow> loop_step s (s\<lparr>rs_held := None, rs_busy := True\<rparr>)"
| ends: "rs_busy s \<Longrightarrow> loop_step s (s\<lparr>rs_busy := False\<rparr>)"

inductive reachable_reader :: "reader_state \<Rightarrow> bool" where
  "reachable_reader reader_start"
| "reachable_reader s \<Longrightarrow> reader_step s t \<Longrightarrow> reachable_reader t"
| "reachable_reader s \<Longrightarrow> loop_step s t \<Longrightarrow> reachable_reader t"

lemma held_stays:
  assumes "reader_step\<^sup>*\<^sup>* s t" "rs_held s = Some m" "\<not> rs_done s"
  shows "rs_held t = Some m \<and> \<not> rs_done t"
  using assms by (induction rule: rtranclp_induct) (auto elim!: reader_step.cases)

text \<open>
  C36: When a client's disconnection ends its turn. In every reachable state of a session whose loop is busy with a turn,
  some course of the connection leads to \<open>done\<close> being closed during this turn exactly when the reader is not holding a message. So an
  approval wait or an execution is cancelled by a disconnection as long as the client has sent nothing more;
  once the reader offers the next message, nothing that happens on the connection ends the turn, and a script approved afterwards
  runs for a client that has gone.
\<close>

theorem disconnection_noticed_iff:
  assumes "reachable_reader s" and "rs_busy s" and "\<not> rs_done s"
  shows "(\<exists>t. reader_step\<^sup>*\<^sup>* s t \<and> rs_done t) \<longleftrightarrow> rs_held s = None"
proof
  assume "\<exists>t. reader_step\<^sup>*\<^sup>* s t \<and> rs_done t"
  then show "rs_held s = None" using held_stays assms(3) by (cases "rs_held s") blast+
next
  assume none: "rs_held s = None"
  let ?b = "s\<lparr>rs_gone := True, rs_wire := take 0 (rs_wire s)\<rparr>"
  have "reader_step s ?b" by (rule reader_step.breaks)
  moreover have "reader_step ?b (?b\<lparr>rs_done := True\<rparr>)" by (rule reader_step.fails) (use none assms(3) in simp_all)
  ultimately have "reader_step\<^sup>*\<^sup>* s (?b\<lparr>rs_done := True\<rparr>)" by (meson converse_rtranclp_into_rtranclp r_into_rtranclp)
  moreover have "rs_done (?b\<lparr>rs_done := True\<rparr>)" by simp
  ultimately show "\<exists>t. reader_step\<^sup>*\<^sup>* s t \<and> rs_done t" by blast
qed

theorem disconnection_noticed_iff_witness:
  "\<exists>s. reachable_reader s \<and> rs_busy s \<and> rs_held s = Some ''b'' \<and> \<not> (\<exists>t. reader_step\<^sup>*\<^sup>* s t \<and> rs_done t)"
proof -
  note step = reachable_reader.intros(2,3)
  have "reachable_reader reader_start" by (rule reachable_reader.intros(1))
  then have "reachable_reader (reader_start\<lparr>rs_wire := [''a'']\<rparr>)"
    by (rule step(1)) (use arrives [of reader_start "''a''"] in \<open>simp add: reader_start_def\<close>)
  then have "reachable_reader (reader_start\<lparr>rs_wire := [], rs_held := Some ''a''\<rparr>)"
    by (rule step(1)) (use reads [of "reader_start\<lparr>rs_wire := [''a'']\<rparr>"] in \<open>simp add: reader_start_def\<close>)
  then have "reachable_reader (reader_start\<lparr>rs_busy := True\<rparr>)"
    by (rule step(2)) (use receives [of "reader_start\<lparr>rs_wire := [], rs_held := Some ''a''\<rparr>"] in \<open>simp add: reader_start_def\<close>)
  then have "reachable_reader (reader_start\<lparr>rs_busy := True, rs_wire := [''b'']\<rparr>)"
    by (rule step(1)) (use arrives [of "reader_start\<lparr>rs_busy := True\<rparr>" "''b''"] in \<open>simp add: reader_start_def\<close>)
  then have "reachable_reader (reader_start\<lparr>rs_busy := True, rs_held := Some ''b''\<rparr>)" (is "reachable_reader ?s")
    by (rule step(1)) (use reads [of "reader_start\<lparr>rs_busy := True, rs_wire := [''b'']\<rparr>"] in \<open>simp add: reader_start_def\<close>)
  moreover have "rs_busy ?s" "\<not> rs_done ?s" "rs_held ?s = Some ''b''" by (simp_all add: reader_start_def)
  ultimately show ?thesis using disconnection_noticed_iff [of ?s] by auto
qed

end
