(* ===== verification/Http.thy ===== *)
theory Http
  imports Auth
begin

text \<open>
  What the HTTP handlers use of \<open>net/http\<close>, \<open>encoding/json\<close> and \<open>strings\<close>: requests, responses, the request multiplexer,
  decoding a body and trimming white space.
\<close>

section \<open>Requests and responses\<close>

text \<open>
  A request after \<open>net/http\<close> has parsed it. \<open>rq_path\<close> has the unescaped segments of the cleaned path, with an empty last one
  for a trailing slash; a header or query parameter that is absent reads as the empty string.
\<close>

record Request =
  rq_method :: string
  rq_path :: "string list"
  rq_cookies :: "string \<Rightarrow> string option"
  rq_header :: "string \<Rightarrow> string"
  rq_query :: "string \<Rightarrow> string"
  rq_remoteAddr :: string
  rq_body :: bytes

record Response =
  hr_Status :: int
  hr_Cookie :: "Cookie option"
  hr_Body :: "json option"

definition writeJSON :: "int \<Rightarrow> json \<Rightarrow> Response" where
  "writeJSON status body = \<lparr>hr_Status = status, hr_Cookie = None, hr_Body = Some body\<rparr>"

definition statusOnly :: "int \<Rightarrow> Response" where
  "statusOnly status = \<lparr>hr_Status = status, hr_Cookie = None, hr_Body = None\<rparr>"

definition errBody :: "string \<Rightarrow> json" where
  "errBody msg = JObj [(''error'', JStr msg)]"

abbreviation refuse :: "int \<Rightarrow> string \<Rightarrow> Response" where
  "refuse status msg \<equiv> writeJSON status (errBody msg)"

section \<open>The multiplexer\<close>

text \<open>
  Patterns of \<open>http.ServeMux\<close>: a method and segments, of which a wild card matches one segment that is not empty. \<open>GET\<close> also
  serves \<open>HEAD\<close>. The patterns of this program do not overlap.
\<close>

datatype segment = Seg string | Wild

fun segs_match :: "segment list \<Rightarrow> string list \<Rightarrow> bool" where
  "segs_match [] [] \<longleftrightarrow> True"
| "segs_match (Seg l # ps) (s # ss) \<longleftrightarrow> s = l \<and> segs_match ps ss"
| "segs_match (Wild # ps) (s # ss) \<longleftrightarrow> s \<noteq> [] \<and> segs_match ps ss"
| "segs_match _ _ \<longleftrightarrow> False"

text \<open>\<open>r.PathValue("id")\<close>: the segment the wild card matched.\<close>

fun path_value :: "segment list \<Rightarrow> string list \<Rightarrow> string" where
  "path_value (Seg l # ps) (s # ss) = path_value ps ss"
| "path_value (Wild # ps) (s # ss) = s"
| "path_value _ _ = []"

definition method_match :: "string \<Rightarrow> string \<Rightarrow> bool" where
  "method_match pat m \<longleftrightarrow> m = pat \<or> (pat = ''GET'' \<and> m = ''HEAD'')"

datatype 'e found = Serve 'e string | MethodNotAllowed | NoRoute

definition mux_find :: "(string \<times> segment list \<times> 'e) list \<Rightarrow> Request \<Rightarrow> 'e found" where
  "mux_find routes rq = (case find (\<lambda>(m, ps, e). method_match m (rq_method rq) \<and> segs_match ps (rq_path rq)) routes of
      Some (m, ps, e) \<Rightarrow> Serve e (path_value ps (rq_path rq))
    | None \<Rightarrow> if list_ex (\<lambda>(m, ps, e). segs_match ps (rq_path rq)) routes then MethodNotAllowed else NoRoute)"

section \<open>Bodies\<close>

text \<open>\<open>json.NewDecoder(r.Body).Decode\<close>: the first value of the body; what follows it is not read. Errors stand for Go's texts.\<close>

definition Decode ::
  "'a \<Rightarrow> ('a \<Rightarrow> bytes \<Rightarrow> json \<Rightarrow> (string, 'a) result) \<Rightarrow> bytes \<Rightarrow> (string, 'a) result" where
  "Decode zero setf b = (case parse_val (Suc (2 * length b)) 0 b of
      None \<Rightarrow> Inl (if skip_ws b = [] then ''EOF'' else ''syntax'')
    | Some (JNull, r) \<Rightarrow> Inr zero
    | Some (JObj ms, r) \<Rightarrow> fill_members setf zero ms
    | Some _ \<Rightarrow> Inl ''type'')"

section \<open>White space\<close>

text \<open>\<open>unicode.IsSpace\<close> on one chunk; the runes beyond ASCII are given by their UTF-8 bytes.\<close>

fun is_space :: "chunk \<Rightarrow> bool" where
  "is_space (Ascii c) \<longleftrightarrow> (9 \<le> code c \<and> code c \<le> 13) \<or> code c = 32"
| "is_space (Rune b) \<longleftrightarrow> (let ns = map code b in
     ns = [194, 133] \<or> ns = [194, 160] \<or> ns = [225, 154, 128] \<or>
     (\<exists>x \<in> set ns. ns = [226, 128, x] \<and> ((128 \<le> x \<and> x \<le> 138) \<or> x = 168 \<or> x = 169 \<or> x = 175)) \<or>
     ns = [226, 129, 159] \<or> ns = [227, 128, 128])"
| "is_space (Bad c) \<longleftrightarrow> False"

fun raw_chunk :: "chunk \<Rightarrow> bytes" where
  "raw_chunk (Ascii c) = [c]" | "raw_chunk (Rune b) = b" | "raw_chunk (Bad c) = [c]"

definition TrimSpace :: "bytes \<Rightarrow> bytes" where
  "TrimSpace s = concat (map raw_chunk (rev (dropWhile is_space (rev (dropWhile is_space (utf8_chunks s))))))"

definition TrimPrefix :: "string \<Rightarrow> string \<Rightarrow> string" where
  "TrimPrefix s p = (if take (length p) s = p then drop (length p) s else s)"

fun Contains :: "string \<Rightarrow> string \<Rightarrow> bool" where
  "Contains [] x \<longleftrightarrow> x = []"
| "Contains (c # s) x \<longleftrightarrow> take (length x) (c # s) = x \<or> Contains s x"

lemma Contains_append: "Contains (s @ x) x"
proof (induction s)
  case Nil
  show ?case by (cases x) auto
qed simp

lemma utf8_chunks_raw: "concat (map raw_chunk (utf8_chunks s)) = s"
  by (induction s rule: utf8_chunks.induct) (auto simp: utf8_chunks.simps(2))

end
