(* ===== verification/Gateway.thy ===== *)
theory Gateway
  imports Http Terminal Snapshots
begin

text \<open>
  The HTTP API (\<open>internal/gateway/api.go\<close>, \<open>auth_api.go\<close>, \<open>sandbox_api.go\<close>): configuration and wiring, the routing table, the
  authentication middleware and every handler. A handler takes the world (supervisor, host, database, Redis,
  rate-limit buckets) to a response and the world after it; requests are handled one after another.
\<close>

section \<open>Configuration and wiring\<close>

record HandlerConfig =
  hc_Token :: string
  hc_Origins :: "string list"
  hc_VsockConfig :: VsockConfig
  hc_RateCapacity :: rat
  hc_RateRefill :: rat
  hc_CookieSecure :: bool

definition handlerDefaults :: "HandlerConfig \<Rightarrow> HandlerConfig" where
  "handlerDefaults c = c\<lparr>
     hc_RateCapacity := (if hc_RateCapacity c = 0 then 60 else hc_RateCapacity c),
     hc_RateRefill := (if hc_RateRefill c = 0 then 1 else hc_RateRefill c)\<rparr>"

text \<open>The pointers of \<open>Deps\<close> that may be nil are flags or options.\<close>

record Deps =
  dp_Supervisor :: bool
  dp_State :: bool
  dp_Gate :: Gate
  dp_DB :: bool
  dp_Sessions :: "Sessions option"
  dp_Snapshots :: "SnapshotEngine option"

record Handler =
  hd_sup :: bool
  hd_store :: bool
  hd_db :: bool
  hd_sessions :: "Sessions option"
  hd_snap :: "SnapshotEngine option"
  hd_proxy :: terminalProxy
  hd_cfg :: HandlerConfig

definition NewHandler :: "Deps \<Rightarrow> HandlerConfig \<Rightarrow> Handler" where
  "NewHandler d cfg0 = (let cfg = handlerDefaults cfg0 in
     \<lparr>hd_sup = dp_Supervisor d, hd_store = dp_State d, hd_db = dp_DB d, hd_sessions = dp_Sessions d, hd_snap = dp_Snapshots d,
      hd_proxy = newTerminalProxy (dp_Gate d) (hc_VsockConfig cfg) (hc_Origins cfg) (dp_DB d) (dp_DB d), hd_cfg = cfg\<rparr>)"

section \<open>The world and what is outside\<close>

record ('r, 'd) world =
  wo_sup :: Supervisor
  wo_trace :: trace
  wo_db :: 'd
  wo_redis :: 'r
  wo_buckets :: "string \<Rightarrow> bucket option"

text \<open>
  Code that is not part of the sources, or texts it produces: the host, the database, Redis, bcrypt, \<open>net.ParseIP\<close>,
  \<open>net.SplitHostPort\<close> (the host), \<open>strconv.Quote\<close>, how a time is written, lower case beyond ASCII, the errors of the vsock client as text,
  and writing to a guest connection.
\<close>

record ('r, 'd, 'w) extern =
  xt_host :: host
  xt_pool :: "'d pool"
  xt_redis :: "'r redis"
  xt_bcrypt :: bcrypt
  xt_parseIP :: "string \<Rightarrow> bool"
  xt_splitHost :: "string \<Rightarrow> string option"
  xt_quote :: "string \<Rightarrow> string"
  xt_fmtTime :: "pgtime \<Rightarrow> string"
  xt_lower :: "bytes \<Rightarrow> bytes"
  xt_execText :: "vsock_error \<Rightarrow> string"
  xt_writer :: "'w writer"

text \<open>
  What one request finds outside: readings of the clock (in nanoseconds, as text, and at the limiter), an error of the limiter, the UUID
  and the salt drawn, the error of the request's context, the sizes of files, and for a terminal whether the upgrade succeeds, the
  turns of the session and Redis at its end.
\<close>

record ('r, 'w) visit =
  vi_now :: int
  vi_time :: time
  vi_clock :: int
  vi_down :: "string option"
  vi_uuid :: string
  vi_salt :: string
  vi_ctxErr :: "string option"
  vi_size :: "string \<Rightarrow> int option"
  vi_upgraded :: bool
  vi_refusal :: int
  vi_turns :: "('r, 'w) turn list"
  vi_redis :: 'r

definition db_op :: "('d \<Rightarrow> 'a \<times> 'd) \<Rightarrow> ('r, 'd) world \<Rightarrow> 'a \<times> ('r, 'd) world" where
  "db_op f w = (case f (wo_db w) of (x, d) \<Rightarrow> (x, w\<lparr>wo_db := d\<rparr>))"

definition sup_op :: "(Supervisor \<Rightarrow> trace \<Rightarrow> 'a \<times> Supervisor \<times> trace) \<Rightarrow> ('r, 'd) world \<Rightarrow> 'a \<times> ('r, 'd) world" where
  "sup_op f w = (case f (wo_sup w) (wo_trace w) of (x, s, t) \<Rightarrow> (x, w\<lparr>wo_sup := s, wo_trace := t\<rparr>))"

definition limiter_op ::
  "string \<Rightarrow> rat \<Rightarrow> rat \<Rightarrow> rat \<Rightarrow> ('r, 'w) visit \<Rightarrow> ('r, 'd) world \<Rightarrow> (store_error, bool) result \<times> ('r, 'd) world" where
  "limiter_op name capacity refill needed vi w =
     (case Allow (vi_down vi) (vi_clock vi) name capacity refill needed (wo_buckets w) of (ok, bs) \<Rightarrow> (ok, w\<lparr>wo_buckets := bs\<rparr>))"

section \<open>Authentication\<close>

text \<open>\<open>requireAuth\<close>: the next handler gets the principal placed in the context, if any.\<close>

definition requireAuth ::
  "('r, 'd, 'w) extern \<Rightarrow> Handler \<Rightarrow> Request \<Rightarrow> (Principal option \<Rightarrow> ('r, 'd) world \<Rightarrow> Response option \<times> ('r, 'd) world) \<Rightarrow>
   ('r, 'd) world \<Rightarrow> Response option \<times> ('r, 'd) world" where
  "requireAuth X h rq nxt w =
     (let (who, w1) = (case hd_sessions h of
            None \<Rightarrow> (None, w)
          | Some _ \<Rightarrow> (let sid = CookieValue (rq_cookies rq) in
              if sid = [] then (None, w)
              else case db_op (Sessions_Resolve (xt_pool X) sid) w of
                (Inl e, w1) \<Rightarrow> (None, w1)
              | (Inr u, w1) \<Rightarrow> (Some \<lparr>pr_UserID = us_ID u, pr_Username = us_Username u, pr_Role = us_Role u, pr_Service = False\<rparr>, w1)))
      in case who of
        Some p \<Rightarrow> nxt (Some p) w1
      | None \<Rightarrow>
         (let token = hc_Token (hd_cfg h);
              bearer = TrimPrefix (rq_header rq ''Authorization'') ''Bearer '';
              tok = (if bearer = [] then rq_query rq ''token'' else bearer)
          in if token \<noteq> [] \<and> tok \<noteq> [] \<and> ConstantTimeEqual tok token
             then nxt (Some \<lparr>pr_UserID = [], pr_Username = ''service'', pr_Role = RoleAdmin, pr_Service = True\<rparr>) w1
             else if token = [] \<and> hd_sessions h = None then nxt None w1
             else (Some (refuse 401 ''unauthorized''), w1)))"

definition clientIP :: "('r, 'd, 'w) extern \<Rightarrow> Request \<Rightarrow> string" where
  "clientIP X rq =
     (let xff = rq_header rq ''X-Forwarded-For'';
          cand = (if xff \<noteq> []
                  then TrimSpace (let hop = takeWhile (\<lambda>c. c \<noteq> CHR '','') xff in if hop = [] then xff else hop)
                  else case xt_splitHost X (rq_remoteAddr rq) of Some host \<Rightarrow> host | None \<Rightarrow> rq_remoteAddr rq)
      in if xt_parseIP X cand then cand else [])"

definition audit ::
  "('r, 'd, 'w) extern \<Rightarrow> Handler \<Rightarrow> string \<Rightarrow> string \<Rightarrow> string \<Rightarrow> (string \<times> string) list \<Rightarrow> ('r, 'd) world \<Rightarrow> ('r, 'd) world" where
  "audit X h userID action target detail w =
     (if \<not> hd_db h then w else snd (db_op (AuditRepo_Log (xt_pool X) userID action target detail) w))"

section \<open>Accounts\<close>

record loginRequest =
  lr_Username :: string
  lr_Password :: string

definition set_login :: "loginRequest \<Rightarrow> bytes \<Rightarrow> json \<Rightarrow> (string, loginRequest) result" where
  "set_login r k j =
     (let n = fold_name k in
      if n = ''USERNAME'' then rbind (dec_string (lr_Username r) j) (\<lambda>v. Inr (r\<lparr>lr_Username := v\<rparr>))
      else if n = ''PASSWORD'' then rbind (dec_string (lr_Password r) j) (\<lambda>v. Inr (r\<lparr>lr_Password := v\<rparr>))
      else Inr r)"

definition userView :: "string \<Rightarrow> string \<Rightarrow> string \<Rightarrow> json" where
  "userView i name role = JObj [(''id'', JStr i), (''username'', JStr name), (''role'', JStr role)]"

definition loginKey :: "('r, 'd, 'w) extern \<Rightarrow> Request \<Rightarrow> string \<Rightarrow> string" where
  "loginKey X rq name = ''login:'' @ name @ '':'' @ clientIP X rq"

definition login ::
  "('r, 'd, 'w) extern \<Rightarrow> Handler \<Rightarrow> Request \<Rightarrow> ('r, 'w) visit \<Rightarrow> ('r, 'd) world \<Rightarrow> Response \<times> ('r, 'd) world" where
  "login X h rq vi w = (case hd_sessions h of
      None \<Rightarrow> (refuse 501 ''accounts not enabled'', w)
    | Some ss \<Rightarrow>
       if \<not> hd_db h then (refuse 501 ''accounts not enabled'', w)
       else case Decode \<lparr>lr_Username = [], lr_Password = []\<rparr> set_login (rq_body rq) of
         Inl e \<Rightarrow> (refuse 400 ''invalid JSON'', w)
       | Inr req \<Rightarrow>
          (let name = TrimSpace (lr_Username req) in
           if name = [] \<or> lr_Password req = [] then (refuse 400 ''username and password required'', w)
           else case (if hd_store h then limiter_op (loginKey X rq name) 5 (1 / 10) 1 vi w else (Inr True, w)) of
             (Inr False, w1) \<Rightarrow> (refuse 429 ''too many attempts; try again later'', w1)
           | (_, w1) \<Rightarrow> (case db_op (UserRepo_ByUsername (xt_pool X) name) w1 of
               (found, w2) \<Rightarrow>
                 (let bad = (refuse 401 ''invalid credentials'', audit X h [] ''login.failure'' name [] w2) in
                  case found of
                    Inl e \<Rightarrow> bad
                  | Inr u \<Rightarrow>
                     if us_Disabled u \<or> \<not> VerifyPassword (xt_bcrypt X) (us_PasswordHash u) (lr_Password req) then bad
                     else case db_op (Sessions_Create (xt_pool X) ss (vi_uuid vi) (vi_now vi) (us_ID u)
                            (rq_header rq ''User-Agent'') (clientIP X rq)) w2 of
                       (Inl e, w3) \<Rightarrow> (refuse 500 ''login failed'', w3)
                     | (Inr (sid, ex), w3) \<Rightarrow>
                         ((writeJSON 200 (userView (us_ID u) (us_Username u) (us_Role u)))
                            \<lparr>hr_Cookie := Some (SetSessionCookie (vi_now vi) sid ex (hc_CookieSecure (hd_cfg h)))\<rparr>,
                          audit X h (us_ID u) ''login.success'' (us_Username u) [] w3)))))"

definition logout :: "('r, 'd, 'w) extern \<Rightarrow> Handler \<Rightarrow> Request \<Rightarrow> ('r, 'd) world \<Rightarrow> Response \<times> ('r, 'd) world" where
  "logout X h rq w =
     (let sid = CookieValue (rq_cookies rq);
          w1 = (if hd_sessions h \<noteq> None \<and> sid \<noteq> [] then snd (db_op (Sessions_Revoke (xt_pool X) sid) w) else w)
      in ((statusOnly 204)\<lparr>hr_Cookie := Some (ClearSessionCookie (hc_CookieSecure (hd_cfg h)))\<rparr>, w1))"

definition me :: "Principal option \<Rightarrow> Response" where
  "me c = (case c of
      None \<Rightarrow> refuse 401 ''unauthorized''
    | Some p \<Rightarrow> writeJSON 200 (userView (pr_UserID p) (pr_Username p) (pr_Role p)))"

text \<open>A Go map is encoded with its keys sorted.\<close>

definition counted :: "string \<Rightarrow> json list \<Rightarrow> json" where
  "counted k vs = JObj (sort_key fst [(k, JArr vs), (''count'', JNum (itoa (int (length vs))))])"

definition listUsers :: "('r, 'd, 'w) extern \<Rightarrow> Handler \<Rightarrow> Principal option \<Rightarrow> ('r, 'd) world \<Rightarrow> Response \<times> ('r, 'd) world" where
  "listUsers X h c w =
     (if \<not> hd_db h then (refuse 501 ''accounts not enabled'', w)
      else if \<not> (case c of Some p \<Rightarrow> IsAdmin p | None \<Rightarrow> False) then (refuse 403 ''admin only'', w)
      else case db_op (UserRepo_List (xt_pool X)) w of
        (Inl e, w1) \<Rightarrow> (refuse 500 ''list failed'', w1)
      | (Inr us, w1) \<Rightarrow> (writeJSON 200 (counted ''users'' (map (\<lambda>u. userView (us_ID u) (us_Username u) (us_Role u)) us)), w1))"

record createUserRequest =
  cu_Username :: string
  cu_Password :: string
  cu_Role :: string

definition set_createUser :: "createUserRequest \<Rightarrow> bytes \<Rightarrow> json \<Rightarrow> (string, createUserRequest) result" where
  "set_createUser r k j =
     (let n = fold_name k in
      if n = ''USERNAME'' then rbind (dec_string (cu_Username r) j) (\<lambda>v. Inr (r\<lparr>cu_Username := v\<rparr>))
      else if n = ''PASSWORD'' then rbind (dec_string (cu_Password r) j) (\<lambda>v. Inr (r\<lparr>cu_Password := v\<rparr>))
      else if n = ''ROLE'' then rbind (dec_string (cu_Role r) j) (\<lambda>v. Inr (r\<lparr>cu_Role := v\<rparr>))
      else Inr r)"

definition createUser ::
  "('r, 'd, 'w) extern \<Rightarrow> Handler \<Rightarrow> Principal option \<Rightarrow> Request \<Rightarrow> ('r, 'w) visit \<Rightarrow> ('r, 'd) world \<Rightarrow> Response \<times> ('r, 'd) world" where
  "createUser X h c rq vi w =
     (if \<not> hd_db h then (refuse 501 ''accounts not enabled'', w)
      else if \<not> (case c of Some p \<Rightarrow> IsAdmin p | None \<Rightarrow> False) then (refuse 403 ''admin only'', w)
      else case Decode \<lparr>cu_Username = [], cu_Password = [], cu_Role = []\<rparr> set_createUser (rq_body rq) of
        Inl e \<Rightarrow> (refuse 400 ''invalid JSON'', w)
      | Inr req \<Rightarrow>
         (let name = TrimSpace (cu_Username req); role = (if cu_Role req = [] then RoleOperator else cu_Role req) in
          if length name < 3 \<or> length (cu_Password req) < 8
          then (refuse 400 ''username must be >= 3 chars and password >= 8 chars'', w)
          else case HashPassword (xt_bcrypt X) (vi_salt vi) (cu_Password req) of
            Inl e \<Rightarrow> (refuse 500 ''hash failed'', w)
          | Inr hash \<Rightarrow> (case db_op (UserRepo_Create (xt_pool X) name hash role) w of
              (Inl e, w1) \<Rightarrow> (refuse 409 ''could not create user (username taken?)'', w1)
            | (Inr u, w1) \<Rightarrow>
                (writeJSON 201 (userView (us_ID u) (us_Username u) (us_Role u)),
                 audit X h (pr_UserID (principal_or_zero c)) ''user.create'' (us_Username u) [(''role'', us_Role u)] w1))))"

section \<open>Virtual machines\<close>

definition jint :: "int \<Rightarrow> json" where "jint i = JNum (itoa i)"

definition instanceToView :: "Instance \<Rightarrow> json" where
  "instanceToView i = JObj [(''id'', JStr (in_ID i)), (''cid'', jint (uint (in_CID i))), (''pid'', jint (in_PID i)),
     (''vcpus'', jint (ls_VCPUs (in_Spec i))), (''mem_mib'', jint (ls_MemMiB (in_Spec i))), (''created_at'', JStr (in_CreatedAt i))]"

definition listVMs :: "Handler \<Rightarrow> ('r, 'd) world \<Rightarrow> Response" where
  "listVMs h w =
     (if \<not> hd_sup h then refuse 500 ''supervisor unavailable''
      else writeJSON 200 (counted ''vms'' (map instanceToView (List (wo_sup w)))))"

record launchRequest =
  la_ID :: string
  la_VCPUs :: int
  la_MemMiB :: int
  la_CPUPercent :: int
  la_PidsMax :: int

definition set_launch :: "launchRequest \<Rightarrow> bytes \<Rightarrow> json \<Rightarrow> (string, launchRequest) result" where
  "set_launch r k j =
     (let n = fold_name k in
      if n = ''ID'' then rbind (dec_string (la_ID r) j) (\<lambda>v. Inr (r\<lparr>la_ID := v\<rparr>))
      else if n = ''VCPUS'' then rbind (dec_int (la_VCPUs r) j) (\<lambda>v. Inr (r\<lparr>la_VCPUs := v\<rparr>))
      else if n = ''MEM_MIB'' then rbind (dec_int (la_MemMiB r) j) (\<lambda>v. Inr (r\<lparr>la_MemMiB := v\<rparr>))
      else if n = ''CPU_PERCENT'' then rbind (dec_int (la_CPUPercent r) j) (\<lambda>v. Inr (r\<lparr>la_CPUPercent := v\<rparr>))
      else if n = ''PIDS_MAX'' then rbind (dec_int (la_PidsMax r) j) (\<lambda>v. Inr (r\<lparr>la_PidsMax := v\<rparr>))
      else Inr r)"

text \<open>\<open>err.Error()\<close> of the errors whose text the handlers use; \<open>None\<close> for the others.\<close>

fun admissionText :: "sup_error \<Rightarrow> string option" where
  "admissionText (ErrAdmissionConcurrent n) =
     Some (''orchestrator: admission denied (host limits reached): max concurrent sandboxes ('' @ itoa n @ '') reached'')"
| "admissionText (ErrAdmissionMemory budget used req) =
     Some (''orchestrator: admission denied (host limits reached): memory budget '' @ itoa budget @ '' MiB exceeded (used '' @ itoa used @ '' + requested '' @ itoa req @ '')'')"
| "admissionText _ = None"

definition terminateText :: "('r, 'd, 'w) extern \<Rightarrow> string \<Rightarrow> string" where
  "terminateText X k = ''orchestrator: sandbox '' @ xt_quote X k @ '' not found''"

text \<open>A \<open>pg.Sandbox\<close> for \<open>Upsert\<close>; the fields it does not use are zero.\<close>

definition history_entry :: "string \<Rightarrow> string \<Rightarrow> string \<Rightarrow> int \<Rightarrow> int \<Rightarrow> int \<Rightarrow> int \<Rightarrow> int \<Rightarrow> pg_Sandbox" where
  "history_entry i owner name v m c p cid = \<lparr>sb_ID = i, sb_OwnerID = owner, sb_Name = name, sb_Status = SandboxRunning, sb_VCPUs = v,
     sb_MemMiB = m, sb_CPUPercent = c, sb_PidsMax = p, sb_CID = cid, sb_CreatedAt = 0, sb_StoppedAt = None, sb_LastUsedAt = 0\<rparr>"

definition launchVM ::
  "('r, 'd, 'w) extern \<Rightarrow> Handler \<Rightarrow> Principal option \<Rightarrow> Request \<Rightarrow> ('r, 'w) visit \<Rightarrow> ('r, 'd) world \<Rightarrow> Response \<times> ('r, 'd) world" where
  "launchVM X h c rq vi w =
     (if \<not> hd_sup h then (refuse 500 ''supervisor unavailable'', w)
      else case Decode \<lparr>la_ID = [], la_VCPUs = 0, la_MemMiB = 0, la_CPUPercent = 0, la_PidsMax = 0\<rparr> set_launch (rq_body rq) of
        Inl e \<Rightarrow> (refuse 400 (''invalid JSON: '' @ e), w)
      | Inr req \<Rightarrow>
         (let sp = \<lparr>ls_ID = la_ID req, ls_VCPUs = la_VCPUs req, ls_MemMiB = la_MemMiB req, ls_CPUPercent = la_CPUPercent req,
                    ls_PidsMax = la_PidsMax req\<rparr> in
          case sup_op (Launch (xt_host X) (vi_ctxErr vi) sp) w of
            (Inl e, w1) \<Rightarrow> (case admissionText e of
                Some msg \<Rightarrow> (refuse 429 msg, w1)
              | None \<Rightarrow> (refuse 500 ''launch failed'', w1))
          | (Inr i, w1) \<Rightarrow>
             (let uid = pr_UserID (principal_or_zero c);
                  entry = history_entry (in_ID i) uid [] (ls_VCPUs (in_Spec i)) (ls_MemMiB (in_Spec i)) (ls_CPUPercent (in_Spec i))
                    (ls_PidsMax (in_Spec i)) (uint (in_CID i));
                  w2 = (if hd_db h
                        then audit X h uid ''sandbox.launch'' (in_ID i) [] (snd (db_op (SandboxRepo_Upsert (xt_pool X) entry) w1))
                        else w1)
              in (writeJSON 201 (instanceToView i), w2))))"

definition terminateVM ::
  "('r, 'd, 'w) extern \<Rightarrow> Handler \<Rightarrow> string \<Rightarrow> ('r, 'd) world \<Rightarrow> Response \<times> ('r, 'd) world" where
  "terminateVM X h k w =
     (if \<not> hd_sup h then (refuse 500 ''supervisor unavailable'', w)
      else if k = [] then (refuse 400 ''missing id'', w)
      else case sup_op (Terminate (xt_host X) k) w of
        (Some e, w1) \<Rightarrow>
          (if Contains (terminateText X k) ''not found'' then refuse 404 ''sandbox not found'' else refuse 500 ''terminate failed'', w1)
      | (None, w1) \<Rightarrow>
          (statusOnly 204, if hd_db h then snd (db_op (SandboxRepo_MarkStopped (xt_pool X) k) w1) else w1))"

section \<open>Approvals\<close>

definition listApprovals :: "('r, 'd, 'w) extern \<Rightarrow> Handler \<Rightarrow> ('r, 'd) world \<Rightarrow> Response \<times> ('r, 'd) world" where
  "listApprovals X h w = (case Pending (xt_redis X) (wo_redis w) of
      (Inl e, r) \<Rightarrow> (refuse 500 ''list failed'', w\<lparr>wo_redis := r\<rparr>)
    | (Inr recs, r) \<Rightarrow> (writeJSON 200 (counted ''approvals'' (map approvalJSON recs)), w\<lparr>wo_redis := r\<rparr>))"

definition set_decide :: "string \<Rightarrow> bytes \<Rightarrow> json \<Rightarrow> (string, string) result" where
  "set_decide r k j = (if fold_name k = ''DECISION'' then dec_string r j else Inr r)"

definition decideApproval ::
  "('r, 'd, 'w) extern \<Rightarrow> Handler \<Rightarrow> Principal option \<Rightarrow> string \<Rightarrow> Request \<Rightarrow> ('r, 'w) visit \<Rightarrow> ('r, 'd) world \<Rightarrow> Response \<times> ('r, 'd) world" where
  "decideApproval X h c k rq vi w =
     (if k = [] then (refuse 400 ''missing id'', w)
      else let decidedBy = (case c of Some p \<Rightarrow> if pr_Username p \<noteq> [] then pr_Username p else ''anonymous'' | None \<Rightarrow> ''anonymous'') in
      case Decode [] set_decide (rq_body rq) of
        Inl e \<Rightarrow> (refuse 400 ''invalid JSON'', w)
      | Inr decision \<Rightarrow>
         (if decision \<noteq> DecisionApprove \<and> decision \<noteq> DecisionReject
          then (refuse 400 (''decision must be '' @ [CHR 0x22] @ ''approve'' @ [CHR 0x22] @ '' or '' @ [CHR 0x22] @ ''reject'' @ [CHR 0x22]), w)
          else case Decide (xt_redis X) (tp_gate (hd_proxy h)) (vi_time vi) k decision decidedBy (wo_redis w) of
            (res, r) \<Rightarrow>
              ((case res of
                  None \<Rightarrow> statusOnly 204
                | Some ErrNotFound \<Rightarrow> refuse 404 ''approval not found''
                | Some ErrAlreadyDecided \<Rightarrow> refuse 409 ''already decided''
                | Some _ \<Rightarrow> refuse 500 ''decision failed''), w\<lparr>wo_redis := r\<rparr>)))"

section \<open>The terminal\<close>

text \<open>
  \<open>None\<close> is a panic: of \<open>h.sup.Get\<close> on a nil supervisor, or of \<open>h.store.Allow\<close> on a nil store in the first turn with a
  script. The response of a refused upgrade is the WebSocket library's.
\<close>

definition has_script :: "('r, 'w) turn \<Rightarrow> bool" where
  "has_script t \<longleftrightarrow> (case unmarshalWs (tu_msg t) of Inl e \<Rightarrow> False | Inr req \<Rightarrow> wr_Script req \<noteq> [])"

definition terminal ::
  "('r, 'd, 'w) extern \<Rightarrow> Handler \<Rightarrow> Request \<Rightarrow> ('r, 'w) visit \<Rightarrow> ('r, 'd) world \<Rightarrow> Response option \<times> ('r, 'd) world" where
  "terminal X h rq vi w =
     (let k = rq_query rq ''sandbox'' in
      if k = [] then (Some (refuse 400 ''sandbox query parameter required''), w)
      else if \<not> hd_sup h then (None, w)
      else case Get (wo_sup w) k of
        None \<Rightarrow> (Some (refuse 404 ''sandbox not found''), w)
      | Some i \<Rightarrow>
         (let rateAllow = (\<lambda>now down name bs. Allow down now name (hc_RateCapacity (hd_cfg h)) (hc_RateRefill (hd_cfg h)) 1 bs);
              ts = (if hd_store h then vi_turns vi else takeWhile (\<lambda>t. \<not> has_script t) (vi_turns vi));
              s = serve (xt_redis X) (xt_pool X) (xt_lower X) (hd_proxy h) (xt_execText X) (xt_writer X) (vi_upgraded vi)
                    (in_VsockUDSPath i) k (Some rateAllow) ts \<lparr>ts_db = wo_db w, ts_buckets = wo_buckets w, ts_log = []\<rparr>
          in (if vi_upgraded vi \<and> length ts < length (vi_turns vi) then None
              else Some (statusOnly (if vi_upgraded vi then 101 else vi_refusal vi)),
              w\<lparr>wo_db := ts_db s, wo_buckets := ts_buckets s, wo_redis := (if vi_upgraded vi then vi_redis vi else wo_redis w)\<rparr>)))"

section \<open>Sandbox history\<close>

text \<open>\<open>Inl\<close> is the response already written.\<close>

definition authorizeSandbox ::
  "('r, 'd, 'w) extern \<Rightarrow> Principal option \<Rightarrow> string \<Rightarrow> ('r, 'd) world \<Rightarrow> (Response, pg_Sandbox) result \<times> ('r, 'd) world" where
  "authorizeSandbox X c k w = (case db_op (SandboxRepo_ByID (xt_pool X) k) w of
      (Inl PgNotFound, w1) \<Rightarrow> (Inl (refuse 404 ''sandbox not found''), w1)
    | (Inl _, w1) \<Rightarrow> (Inl (refuse 500 ''lookup failed''), w1)
    | (Inr sb, w1) \<Rightarrow>
       (let p = principal_or_zero c in
        if \<not> IsAdmin p \<and> sb_OwnerID sb \<noteq> [] \<and> sb_OwnerID sb \<noteq> pr_UserID p
        then (Inl (refuse 403 ''not your sandbox''), w1)
        else (Inr sb, w1)))"

definition sandboxJSON :: "('r, 'd, 'w) extern \<Rightarrow> pg_Sandbox \<Rightarrow> json" where
  "sandboxJSON X b = JObj ([(''id'', JStr (sb_ID b)), (''owner_id'', JStr (sb_OwnerID b)), (''name'', JStr (sb_Name b)),
     (''status'', JStr (sb_Status b)), (''vcpus'', jint (sb_VCPUs b)), (''mem_mib'', jint (sb_MemMiB b)),
     (''cpu_percent'', jint (sb_CPUPercent b)), (''pids_max'', jint (sb_PidsMax b)), (''cid'', jint (sb_CID b)),
     (''created_at'', JStr (xt_fmtTime X (sb_CreatedAt b)))]
     @ (case sb_StoppedAt b of None \<Rightarrow> [] | Some t \<Rightarrow> [(''stopped_at'', JStr (xt_fmtTime X t))])
     @ [(''last_used_at'', JStr (xt_fmtTime X (sb_LastUsedAt b)))])"

definition listSandboxes ::
  "('r, 'd, 'w) extern \<Rightarrow> Handler \<Rightarrow> Principal option \<Rightarrow> ('r, 'd) world \<Rightarrow> Response \<times> ('r, 'd) world" where
  "listSandboxes X h c w =
     (if \<not> hd_db h then (refuse 501 ''history not enabled'', w)
      else let p = principal_or_zero c; owner = (if IsAdmin p then [] else pr_UserID p) in
      case db_op (SandboxRepo_ListByOwner (xt_pool X) owner) w of
        (Inl e, w1) \<Rightarrow> (refuse 500 ''list failed'', w1)
      | (Inr bs, w1) \<Rightarrow> (writeJSON 200 (counted ''sandboxes'' (map (sandboxJSON X) bs)), w1))"

definition total_size :: "('r, 'w) visit \<Rightarrow> string list \<Rightarrow> int" where
  "total_size vi ps = fold (\<lambda>p size. case vi_size vi p of None \<Rightarrow> size | Some n \<Rightarrow> wrap64 (size + n)) ps 0"

definition stopSandbox ::
  "('r, 'd, 'w) extern \<Rightarrow> Handler \<Rightarrow> Principal option \<Rightarrow> string \<Rightarrow> ('r, 'w) visit \<Rightarrow> ('r, 'd) world \<Rightarrow> Response \<times> ('r, 'd) world" where
  "stopSandbox X h c k vi w = (case hd_snap h of
      None \<Rightarrow> (refuse 501 ''snapshots not enabled'', w)
    | Some eng \<Rightarrow>
       if \<not> hd_db h \<or> \<not> hd_sup h then (refuse 501 ''snapshots not enabled'', w)
       else case authorizeSandbox X c k w of
         (Inl resp, w1) \<Rightarrow> (resp, w1)
       | (Inr sb, w1) \<Rightarrow>
          (if Get (wo_sup w1) k = None then (refuse 409 ''sandbox is not running'', w1)
           else case sup_op (StopWithSnapshot (xt_host X) eng k) w1 of
             (Inl e, w2) \<Rightarrow> (refuse 500 ''stop failed'', w2)
           | (Inr snap, w2) \<Rightarrow>
              (let paths = ss_Paths snap;
                   row = \<lparr>sn_ID = [], sn_SandboxID = k, pg_Snapshot.sn_MemFilePath = sf_MemFile paths, sn_StateFilePath = sf_StateFile paths,
                     sn_DiskFilePath = sf_DiskFile paths,
                     sn_SizeBytes = total_size vi [sf_MemFile paths, sf_StateFile paths, sf_DiskFile paths],
                     sn_GuestVCPUs = ss_GuestVCPUs snap, sn_GuestMemMiB = ss_GuestMemMiB snap, sn_Label = [], sn_CreatedAt = 0\<rparr>;
                   w3 = snd (db_op (SnapshotRepo_Create (xt_pool X) row) w2);
                   w4 = snd (db_op (SandboxRepo_MarkStopped (xt_pool X) k) w3)
               in (writeJSON 200 (JObj [(''id'', JStr k), (''snapshot'', JStr (ss_ID snap)), (''status'', JStr ''stopped'')]),
                   audit X h (pr_UserID (principal_or_zero c)) ''sandbox.stop'' k [(''snapshot'', ss_ID snap)] w4))))"

definition resumeSandbox ::
  "('r, 'd, 'w) extern \<Rightarrow> Handler \<Rightarrow> Principal option \<Rightarrow> string \<Rightarrow> ('r, 'd) world \<Rightarrow> Response \<times> ('r, 'd) world" where
  "resumeSandbox X h c k w =
     (if \<not> hd_db h \<or> hd_snap h = None \<or> \<not> hd_sup h then (refuse 501 ''resume not enabled'', w)
      else case authorizeSandbox X c k w of
        (Inl resp, w1) \<Rightarrow> (resp, w1)
      | (Inr sb, w1) \<Rightarrow>
         (if Get (wo_sup w1) k \<noteq> None then (refuse 409 ''sandbox already running'', w1)
          else case db_op (SnapshotRepo_Latest (xt_pool X) k) w1 of
            (Inl PgNotFound, w2) \<Rightarrow> (refuse 409 ''no snapshot to resume'', w2)
          | (Inl _, w2) \<Rightarrow> (refuse 500 ''lookup failed'', w2)
          | (Inr snap, w2) \<Rightarrow>
             (let orchSnap = \<lparr>ss_ID = sn_ID snap, ss_SandboxID = k,
                    ss_Paths = \<lparr>sf_MemFile = pg_Snapshot.sn_MemFilePath snap, sf_StateFile = sn_StateFilePath snap, sf_DiskFile = sn_DiskFilePath snap\<rparr>,
                    ss_CreatedAt = ''0001-01-01T00:00:00Z'', ss_GuestMemMiB = sn_GuestMemMiB snap, ss_GuestVCPUs = sn_GuestVCPUs snap\<rparr>;
                  sp = \<lparr>ls_ID = k, ls_VCPUs = sb_VCPUs sb, ls_MemMiB = sb_MemMiB sb, ls_CPUPercent = sb_CPUPercent sb, ls_PidsMax = sb_PidsMax sb\<rparr>
              in case sup_op (LoadSnapshot (xt_host X) orchSnap sp) w2 of
                (Inl e, w3) \<Rightarrow> (refuse 500 ''resume failed'', w3)
              | (Inr i, w3) \<Rightarrow>
                 (let entry = history_entry k (sb_OwnerID sb) (sb_Name sb) (sb_VCPUs sb) (sb_MemMiB sb) (sb_CPUPercent sb) (sb_PidsMax sb) (uint (in_CID i));
                      w4 = snd (db_op (SandboxRepo_Upsert (xt_pool X) entry) w3)
                  in (writeJSON 200 (instanceToView i),
                      audit X h (pr_UserID (principal_or_zero c)) ''sandbox.resume'' k [(''snapshot'', sn_ID snap)] w4)))))"

definition set_name :: "string \<Rightarrow> bytes \<Rightarrow> json \<Rightarrow> (string, string) result" where
  "set_name r k j = (if fold_name k = ''NAME'' then dec_string r j else Inr r)"

definition renameSandbox ::
  "('r, 'd, 'w) extern \<Rightarrow> Handler \<Rightarrow> Principal option \<Rightarrow> string \<Rightarrow> Request \<Rightarrow> ('r, 'd) world \<Rightarrow> Response \<times> ('r, 'd) world" where
  "renameSandbox X h c k rq w =
     (if \<not> hd_db h then (refuse 501 ''history not enabled'', w)
      else case authorizeSandbox X c k w of
        (Inl resp, w1) \<Rightarrow> (resp, w1)
      | (Inr sb, w1) \<Rightarrow> (case Decode [] set_name (rq_body rq) of
          Inl e \<Rightarrow> (refuse 400 ''invalid JSON'', w1)
        | Inr name0 \<Rightarrow>
           (let name = TrimSpace name0 in
            if name = [] then (refuse 400 ''name required'', w1)
            else case db_op (SandboxRepo_Rename (xt_pool X) k name) w1 of
              (Inl e, w2) \<Rightarrow> (refuse 500 ''rename failed'', w2)
            | (Inr _, w2) \<Rightarrow> (statusOnly 204, w2))))"

text \<open>The loop over the snapshots of a deleted sandbox: the files first, then the row; errors are ignored.\<close>

fun drop_snapshots :: "('r, 'd, 'w) extern \<Rightarrow> pg_Snapshot list \<Rightarrow> ('r, 'd) world \<Rightarrow> ('r, 'd) world" where
  "drop_snapshots X [] w = w"
| "drop_snapshots X (s # ss) w =
     (let w1 = w\<lparr>wo_trace := ask_all (xt_host X) [RemoveAll (Dir (pg_Snapshot.sn_MemFilePath s))] (wo_trace w)\<rparr>
      in drop_snapshots X ss (snd (db_op (SnapshotRepo_Delete (xt_pool X) (sn_ID s)) w1)))"

definition deleteSandbox ::
  "('r, 'd, 'w) extern \<Rightarrow> Handler \<Rightarrow> Principal option \<Rightarrow> string \<Rightarrow> ('r, 'd) world \<Rightarrow> Response \<times> ('r, 'd) world" where
  "deleteSandbox X h c k w =
     (if \<not> hd_db h then (refuse 501 ''history not enabled'', w)
      else case authorizeSandbox X c k w of
        (Inl resp, w1) \<Rightarrow> (resp, w1)
      | (Inr sb, w1) \<Rightarrow>
         (let w2 = (if hd_sup h \<and> Get (wo_sup w1) k \<noteq> None then snd (sup_op (Terminate (xt_host X) k) w1) else w1) in
          case db_op (SnapshotRepo_ListBySandbox (xt_pool X) k) w2 of
            (snaps, w3) \<Rightarrow>
              (let w4 = (case snaps of Inl e \<Rightarrow> w3 | Inr ss \<Rightarrow> drop_snapshots X ss w3) in
               case db_op (SandboxRepo_Archive (xt_pool X) k) w4 of
                 (Inl e, w5) \<Rightarrow> (refuse 500 ''delete failed'', w5)
               | (Inr _, w5) \<Rightarrow>
                   (statusOnly 204, audit X h (pr_UserID (principal_or_zero c)) ''sandbox.delete'' k [] w5))))"

definition lineJSON :: "('r, 'd, 'w) extern \<Rightarrow> TranscriptLine \<Rightarrow> json" where
  "lineJSON X l = JObj ([(''seq'', jint (tl_Seq l)), (''ts'', JStr (xt_fmtTime X (tl_TS l))), (''kind'', JStr (tl_Kind l))]
     @ omit_str ''data'' (tl_Data l) @ (case tl_ExitCode l of None \<Rightarrow> [] | Some n \<Rightarrow> [(''exit_code'', jint n)]))"

definition getTranscript ::
  "('r, 'd, 'w) extern \<Rightarrow> Handler \<Rightarrow> Principal option \<Rightarrow> string \<Rightarrow> Request \<Rightarrow> ('r, 'd) world \<Rightarrow> Response \<times> ('r, 'd) world" where
  "getTranscript X h c k rq w =
     (if \<not> hd_db h then (refuse 501 ''transcripts not enabled'', w)
      else case authorizeSandbox X c k w of
        (Inl resp, w1) \<Rightarrow> (resp, w1)
      | (Inr sb, w1) \<Rightarrow>
         (let after = (case atoi (rq_query rq ''after'') of None \<Rightarrow> 0 | Some n \<Rightarrow> n) in
          case db_op (TranscriptRepo_List (xt_pool X) k after 5000) w1 of
            (Inl e, w2) \<Rightarrow> (refuse 500 ''transcript failed'', w2)
          | (Inr ls, w2) \<Rightarrow> (writeJSON 200 (counted ''lines'' (map (lineJSON X) ls)), w2)))"

section \<open>Routes\<close>

datatype endpoint =
    EpLogin | EpLogout | EpMe | EpListUsers | EpCreateUser
  | EpListVMs | EpLaunchVM | EpTerminateVM
  | EpListSandboxes | EpStop | EpResume | EpRename | EpDelete | EpTranscript
  | EpListApprovals | EpDecide | EpTerminal

text \<open>\<open>Register\<close>.\<close>

definition Register :: "(string \<times> segment list \<times> endpoint) list" where
  "Register =
     [(''POST'', [Seg ''api'', Seg ''login''], EpLogin),
      (''POST'', [Seg ''api'', Seg ''logout''], EpLogout),
      (''GET'', [Seg ''api'', Seg ''me''], EpMe),
      (''GET'', [Seg ''api'', Seg ''users''], EpListUsers),
      (''POST'', [Seg ''api'', Seg ''users''], EpCreateUser),
      (''GET'', [Seg ''api'', Seg ''vms''], EpListVMs),
      (''POST'', [Seg ''api'', Seg ''vms''], EpLaunchVM),
      (''DELETE'', [Seg ''api'', Seg ''vms'', Wild], EpTerminateVM),
      (''GET'', [Seg ''api'', Seg ''sandboxes''], EpListSandboxes),
      (''POST'', [Seg ''api'', Seg ''sandboxes'', Wild, Seg ''stop''], EpStop),
      (''POST'', [Seg ''api'', Seg ''sandboxes'', Wild, Seg ''resume''], EpResume),
      (''PATCH'', [Seg ''api'', Seg ''sandboxes'', Wild], EpRename),
      (''DELETE'', [Seg ''api'', Seg ''sandboxes'', Wild], EpDelete),
      (''GET'', [Seg ''api'', Seg ''sandboxes'', Wild, Seg ''transcript''], EpTranscript),
      (''GET'', [Seg ''api'', Seg ''approvals''], EpListApprovals),
      (''POST'', [Seg ''api'', Seg ''approvals'', Wild], EpDecide),
      (''GET'', [Seg ''terminal''], EpTerminal)]"

definition answered :: "Response \<times> ('r, 'd) world \<Rightarrow> Response option \<times> ('r, 'd) world" where
  "answered x = (Some (fst x), snd x)"

fun handler ::
  "('r, 'd, 'w) extern \<Rightarrow> Handler \<Rightarrow> endpoint \<Rightarrow> string \<Rightarrow> Request \<Rightarrow> ('r, 'w) visit \<Rightarrow> Principal option \<Rightarrow> ('r, 'd) world \<Rightarrow>
   Response option \<times> ('r, 'd) world" where
  "handler X h EpLogin k rq vi c w = answered (login X h rq vi w)"
| "handler X h EpLogout k rq vi c w = answered (logout X h rq w)"
| "handler X h EpMe k rq vi c w = answered (me c, w)"
| "handler X h EpListUsers k rq vi c w = answered (listUsers X h c w)"
| "handler X h EpCreateUser k rq vi c w = answered (createUser X h c rq vi w)"
| "handler X h EpListVMs k rq vi c w = answered (listVMs h w, w)"
| "handler X h EpLaunchVM k rq vi c w = answered (launchVM X h c rq vi w)"
| "handler X h EpTerminateVM k rq vi c w = answered (terminateVM X h k w)"
| "handler X h EpListSandboxes k rq vi c w = answered (listSandboxes X h c w)"
| "handler X h EpStop k rq vi c w = answered (stopSandbox X h c k vi w)"
| "handler X h EpResume k rq vi c w = answered (resumeSandbox X h c k w)"
| "handler X h EpRename k rq vi c w = answered (renameSandbox X h c k rq w)"
| "handler X h EpDelete k rq vi c w = answered (deleteSandbox X h c k w)"
| "handler X h EpTranscript k rq vi c w = answered (getTranscript X h c k rq w)"
| "handler X h EpListApprovals k rq vi c w = answered (listApprovals X h w)"
| "handler X h EpDecide k rq vi c w = answered (decideApproval X h c k rq vi w)"
| "handler X h EpTerminal k rq vi c w = terminal X h rq vi w"

text \<open>Every endpoint but the login is wrapped in \<open>requireAuth\<close>; one request through the multiplexer.\<close>

definition route ::
  "('r, 'd, 'w) extern \<Rightarrow> Handler \<Rightarrow> endpoint \<Rightarrow> string \<Rightarrow> Request \<Rightarrow> ('r, 'w) visit \<Rightarrow> ('r, 'd) world \<Rightarrow> Response option \<times> ('r, 'd) world" where
  "route X h e k rq vi w =
     (if e = EpLogin then handler X h e k rq vi None w else requireAuth X h rq (handler X h e k rq vi) w)"

definition ServeHTTP ::
  "('r, 'd, 'w) extern \<Rightarrow> Handler \<Rightarrow> Request \<Rightarrow> ('r, 'w) visit \<Rightarrow> ('r, 'd) world \<Rightarrow> Response option \<times> ('r, 'd) world" where
  "ServeHTTP X h rq vi w = (case mux_find Register rq of
      Serve e k \<Rightarrow> route X h e k rq vi w
    | MethodNotAllowed \<Rightarrow> (Some (statusOnly 405), w)
    | NoRoute \<Rightarrow> (Some (statusOnly 404), w))"

end
