(* ===== verification/Requests.thy ===== *)
theory Requests
  imports Gateway
begin

text \<open>
  What holds of every request to the HTTP API: the invariants it keeps, the authentication it needs, and the ownership
  it respects.
\<close>

section \<open>Statements of the repositories\<close>

lemma snd_exec: "snd (exec P q what d) = snd (pq_run P q d)"
  by (simp add: exec_def split: prod.splits sum.splits)

lemma snd_query_row: "snd (query_row P scan q d) = snd (pq_run P q d)"
  by (simp add: query_row_def split: prod.splits sum.splits list.splits)

lemma snd_query_rows: "snd (query_rows P scan q w1 w2 d) = snd (pq_run P q d)"
  by (simp add: query_rows_def split: prod.splits sum.splits option.splits)

lemmas snd_stmt = snd_exec snd_query_row snd_query_rows

lemmas all_keep = keeps_users keeps_sessions keeps_sandboxes keeps_rest reading_statements [THEN reads_keeps]

section \<open>What every request keeps\<close>

text \<open>
  A predicate on worlds that every statement on the database, every operation of the supervisor and every change of the
  host, of Redis and of the buckets keeps is kept by every request.
\<close>

locale world_invariant =
  fixes X :: "('r, 'd, 'w) extern" and I :: "('r, 'd) world \<Rightarrow> bool"
  assumes db_law: "keeps q \<Longrightarrow> I w \<Longrightarrow> I (w\<lparr>wo_db := snd (pq_run (xt_pool X) q (wo_db w))\<rparr>)"
    and launch_law: "I w \<Longrightarrow> I (snd (sup_op (Launch (xt_host X) ctxErr sp) w))"
    and terminate_law: "I w \<Longrightarrow> I (snd (sup_op (Terminate (xt_host X) k) w))"
    and stop_law: "I w \<Longrightarrow> I (snd (sup_op (StopWithSnapshot (xt_host X) eng k) w))"
    and load_law: "I w \<Longrightarrow> I (snd (sup_op (LoadSnapshot (xt_host X) snap sp) w))"
    and trace_law: "I w \<Longrightarrow> I (w\<lparr>wo_trace := t\<rparr>)"
    and redis_law: "I w \<Longrightarrow> I (w\<lparr>wo_redis := r\<rparr>)"
    and buckets_law: "I w \<Longrightarrow> I (w\<lparr>wo_buckets := bs\<rparr>)"
begin

definition kept_by :: "('d \<Rightarrow> 'a \<times> 'd) \<Rightarrow> bool" where
  "kept_by f \<longleftrightarrow> (\<forall>w. I w \<longrightarrow> I (w\<lparr>wo_db := snd (f (wo_db w))\<rparr>))"

lemma run_kept: "keeps q \<Longrightarrow> I (w\<lparr>wo_db := d\<rparr>) \<Longrightarrow> I (w\<lparr>wo_db := snd (pq_run (xt_pool X) q d)\<rparr>)"
  using db_law [of q "w\<lparr>wo_db := d\<rparr>"] by simp

lemma kept_exec: "keeps q \<Longrightarrow> kept_by (exec (xt_pool X) q what)"
  and kept_query_row: "keeps q \<Longrightarrow> kept_by (query_row (xt_pool X) scan q)"
  and kept_query_rows: "keeps q \<Longrightarrow> kept_by (query_rows (xt_pool X) scan2 q w1 w2)"
  by (simp_all add: kept_by_def snd_stmt db_law)

lemma kept_not_found: "kept_by f \<Longrightarrow> kept_by (\<lambda>d. or_not_found what (f d))"
  and kept_or_error: "kept_by f \<Longrightarrow> kept_by (\<lambda>d. or_error what (f d))"
  by (simp_all add: kept_by_def)

lemma kept_users:
  "kept_by (UserRepo_ByUsername (xt_pool X) name)" "kept_by (UserRepo_List (xt_pool X))" "kept_by (UserRepo_Create (xt_pool X) name hash role)"
  by (auto simp: UserRepo_ByUsername_def [abs_def] UserRepo_List_def [abs_def] UserRepo_Create_def [abs_def] Let_def
      intro!: kept_not_found kept_or_error kept_query_row kept_query_rows all_keep)

lemma kept_then:
  assumes "kept_by f" "\<And>x. kept_by (g x)"
  shows "kept_by (\<lambda>d. case f d of (x, d') \<Rightarrow> g x d')"
proof -
  have "I (w\<lparr>wo_db := snd (case f (wo_db w) of (x, d') \<Rightarrow> g x d')\<rparr>)" if "I w" for w
  proof (cases "f (wo_db w)")
    case (Pair x d')
    have "I (w\<lparr>wo_db := d'\<rparr>)" using assms(1) that Pair unfolding kept_by_def by fastforce
    then have "I ((w\<lparr>wo_db := d'\<rparr>)\<lparr>wo_db := snd (g x (wo_db (w\<lparr>wo_db := d'\<rparr>)))\<rparr>)" using assms(2) unfolding kept_by_def by blast
    then show ?thesis using Pair by simp
  qed
  then show ?thesis by (simp add: kept_by_def)
qed

lemma kept_return: "kept_by (\<lambda>d. (x, d))"
  by (simp add: kept_by_def)

lemma kept_sessions:
  "kept_by (Sessions_Resolve (xt_pool X) sid)" "kept_by (Sessions_Revoke (xt_pool X) sid)"
  "kept_by (Sessions_Create (xt_pool X) ss i now uid agent ip)"
proof -
  have "Sessions_Resolve (xt_pool X) sid =
      (\<lambda>d. case or_not_found ''pg: resolve session'' (query_row (xt_pool X) scanText (sql_touch_session sid) d) of
         (x, d1) \<Rightarrow> (case x of Inl e \<Rightarrow> (\<lambda>d. (Inl e, d))
           | Inr uid \<Rightarrow> (\<lambda>d. or_not_found ''pg: resolve session user'' (query_row (xt_pool X) scanUser (sql_enabled_user uid) d))) d1)"
    by (auto simp: Sessions_Resolve_def SessionRepo_Resolve_def fun_eq_iff split: prod.splits sum.splits)
  moreover have "kept_by \<dots>"
    by (intro kept_then kept_not_found kept_query_row all_keep) (auto split: sum.split intro!: kept_not_found kept_query_row kept_return all_keep)
  ultimately show "kept_by (Sessions_Resolve (xt_pool X) sid)" by simp
  show "kept_by (Sessions_Revoke (xt_pool X) sid)"
    by (auto simp: Sessions_Revoke_def [abs_def] SessionRepo_Revoke_def [abs_def] intro!: kept_exec all_keep)
  have "snd (Sessions_Create (xt_pool X) ss i now uid agent ip d) =
      snd (SessionRepo_Create (xt_pool X) i uid ((now + sm_ttl ss) div 1000) agent ip d)" for d
    by (auto simp: Sessions_Create_def Let_def split: prod.splits sum.splits)
  moreover have "kept_by (SessionRepo_Create (xt_pool X) i uid ((now + sm_ttl ss) div 1000) agent ip)"
    by (auto simp: SessionRepo_Create_def [abs_def] Let_def intro!: kept_exec all_keep)
  ultimately show "kept_by (Sessions_Create (xt_pool X) ss i now uid agent ip)" by (simp add: kept_by_def)
qed

lemma kept_sandboxes:
  "kept_by (SandboxRepo_Upsert (xt_pool X) s)" "kept_by (SandboxRepo_MarkStopped (xt_pool X) k)" "kept_by (SandboxRepo_ByID (xt_pool X) k)"
  "kept_by (SandboxRepo_ListByOwner (xt_pool X) k)" "kept_by (SandboxRepo_Rename (xt_pool X) k name)" "kept_by (SandboxRepo_Archive (xt_pool X) k)"
  "kept_by (SandboxRepo_Touch (xt_pool X) k)"
  by (auto simp: SandboxRepo_Upsert_def [abs_def] SandboxRepo_MarkStopped_def [abs_def] SandboxRepo_ByID_def [abs_def]
      SandboxRepo_ListByOwner_def [abs_def] SandboxRepo_Rename_def [abs_def] SandboxRepo_Archive_def [abs_def]
      SandboxRepo_SetStatus_def [abs_def] SandboxRepo_Touch_def [abs_def] Let_def
      intro!: kept_not_found kept_or_error kept_query_row kept_query_rows kept_exec all_keep)

lemma kept_rest:
  "kept_by (SnapshotRepo_Create (xt_pool X) s)" "kept_by (SnapshotRepo_Latest (xt_pool X) k)" "kept_by (SnapshotRepo_ListBySandbox (xt_pool X) k)"
  "kept_by (SnapshotRepo_Delete (xt_pool X) k)" "kept_by (TranscriptRepo_List (xt_pool X) k after limit)"
  "kept_by (TranscriptRepo_Append (xt_pool X) k kind dat ec)" "kept_by (AuditRepo_Log (xt_pool X) uid action target detail)"
  by (auto simp: SnapshotRepo_Create_def [abs_def] SnapshotRepo_Latest_def [abs_def] SnapshotRepo_ListBySandbox_def [abs_def]
      SnapshotRepo_Delete_def [abs_def] TranscriptRepo_List_def [abs_def] TranscriptRepo_Append_def [abs_def] AuditRepo_Log_def [abs_def] Let_def
      intro!: kept_not_found kept_or_error kept_query_row kept_query_rows kept_exec all_keep)

lemmas kept_ops = kept_users kept_sessions kept_sandboxes kept_rest

lemma db_op_keeps: "kept_by f \<Longrightarrow> I w \<Longrightarrow> I (snd (db_op f w))"
  by (simp add: kept_by_def db_op_def split: prod.splits) (metis snd_conv)

lemma audit_keeps: "I w \<Longrightarrow> I (audit X h uid action target detail w)"
  by (simp add: audit_def db_op_keeps kept_rest)

lemma then_keeps:
  "kept_by f \<Longrightarrow> I w \<Longrightarrow> (\<And>x w'. I w' \<Longrightarrow> I (snd (g x w'))) \<Longrightarrow> I (snd (case db_op f w of (x, w') \<Rightarrow> g x w'))"
  "I w \<Longrightarrow> (\<And>x w'. I w' \<Longrightarrow> I (snd (g1 x w'))) \<Longrightarrow> I (snd (case sup_op (Launch (xt_host X) ce sp) w of (x, w') \<Rightarrow> g1 x w'))"
  "I w \<Longrightarrow> (\<And>x w'. I w' \<Longrightarrow> I (snd (g2 x w'))) \<Longrightarrow> I (snd (case sup_op (Terminate (xt_host X) k) w of (x, w') \<Rightarrow> g2 x w'))"
  "I w \<Longrightarrow> (\<And>x w'. I w' \<Longrightarrow> I (snd (g3 x w'))) \<Longrightarrow> I (snd (case sup_op (StopWithSnapshot (xt_host X) eng k) w of (x, w') \<Rightarrow> g3 x w'))"
  "I w \<Longrightarrow> (\<And>x w'. I w' \<Longrightarrow> I (snd (g4 x w'))) \<Longrightarrow> I (snd (case sup_op (LoadSnapshot (xt_host X) snap sp) w of (x, w') \<Rightarrow> g4 x w'))"
  using db_op_keeps [of f w] launch_law [of w ce sp] terminate_law [of w k] stop_law [of w eng k] load_law [of w snap sp]
  by (simp_all add: case_prod_beta)

lemma limiter_keeps:
  "I w \<Longrightarrow> (\<And>x w'. I w' \<Longrightarrow> I (snd (g x w'))) \<Longrightarrow>
   I (snd (case limiter_op name c r n vi w of (x, w') \<Rightarrow> g x w'))"
  using buckets_law by (auto simp: limiter_op_def split: prod.splits)

lemmas step_keeps = then_keeps audit_keeps db_op_keeps limiter_keeps terminate_law kept_ops

lemma account_keeps:
  assumes "I w"
  shows "I (snd (login X h rq vi w))" "I (snd (logout X h rq w))" "I (snd (listUsers X h c w))" "I (snd (createUser X h c rq vi w))"
  using assms
  by (auto simp: login_def logout_def listUsers_def createUser_def Let_def intro!: step_keeps split: option.split sum.split if_split bool.split)

lemma vm_keeps:
  assumes "I w"
  shows "I (snd (launchVM X h c rq vi w))" "I (snd (terminateVM X h k w))"
  using assms by (auto simp: launchVM_def terminateVM_def Let_def intro!: step_keeps split: option.split sum.split if_split)

lemma approval_keeps:
  assumes "I w"
  shows "I (snd (listApprovals X h w))" "I (snd (decideApproval X h c k rq vi w))"
  using assms redis_law by (auto simp: listApprovals_def decideApproval_def Let_def split: prod.split sum.split if_split)

lemma authorize_keeps: "I w \<Longrightarrow> (\<And>x w'. I w' \<Longrightarrow> I (snd (g x w'))) \<Longrightarrow> I (snd (case authorizeSandbox X c k w of (x, w') \<Rightarrow> g x w'))"
proof -
  assume "I w" and g: "\<And>x w'. I w' \<Longrightarrow> I (snd (g x w'))"
  then have "I (snd (authorizeSandbox X c k w))"
    by (auto simp: authorizeSandbox_def Let_def intro!: step_keeps split: option.split sum.split if_split pg_error.split)
  with g show ?thesis by (simp add: case_prod_beta)
qed

lemma drop_snapshots_keeps: "I w \<Longrightarrow> I (drop_snapshots X ss w)"
  by (induction ss arbitrary: w) (auto simp: Let_def db_op_keeps kept_rest(4) trace_law)

lemma sandbox_keeps:
  assumes "I w"
  shows "I (snd (listSandboxes X h c w))" "I (snd (stopSandbox X h c k vi w))" "I (snd (resumeSandbox X h c k w))"
    "I (snd (renameSandbox X h c k rq w))" "I (snd (deleteSandbox X h c k w))" "I (snd (getTranscript X h c k rq w))"
  using assms
  by (auto simp: listSandboxes_def stopSandbox_def resumeSandbox_def renameSandbox_def deleteSandbox_def getTranscript_def Let_def
      intro!: step_keeps authorize_keeps drop_snapshots_keeps split: option.split sum.split if_split pg_error.split)

text \<open>The terminal: the database of a session changes by touching the sandbox and appending lines.\<close>

lemma recordLine_keeps: "I (w\<lparr>wo_db := ts_db s\<rparr>) \<Longrightarrow> I (w\<lparr>wo_db := ts_db (recordLine (xt_pool X) p sid k x c s)\<rparr>)"
  using kept_rest(6) [of sid k x c] unfolding kept_by_def
  by (auto simp: recordLine_def dest!: spec [of _ "w\<lparr>wo_db := ts_db s\<rparr>"])

lemma execute_keeps:
  "I (w\<lparr>wo_db := ts_db s\<rparr>) \<Longrightarrow> I (w\<lparr>wo_db := ts_db (execute (xt_pool X) p et wr cl sid req t s)\<rparr>)"
  by (auto simp: execute_def Let_def intro!: recordLine_keeps split: prod.split option.split)

lemma approve_keeps:
  assumes "I (w\<lparr>wo_db := ts_db s\<rparr>)"
  shows "I (w\<lparr>wo_db := ts_db (snd (approve R (xt_pool X) p sid script reason t s))\<rparr>)"
  using assms by (auto simp: approve_def Let_def intro!: recordLine_keeps split: prod.split sum.split option.split)

lemma serve_turn_keeps:
  assumes "I (w\<lparr>wo_db := ts_db s\<rparr>)"
  shows "I (w\<lparr>wo_db := ts_db (snd (serve_turn R (xt_pool X) ul p et wr cl sid ra t s))\<rparr>)"
proof (cases "unmarshalWs (tu_msg t)")
  case Inl
  with assms show ?thesis by (simp add: serve_turn_def)
next
  case (Inr req)
  let ?c = "Classify ul (ga_rules (tp_gate p)) (wr_Script req)"
  obtain ok s1 where l: "(case ra of None \<Rightarrow> (True, s)
      | Some f \<Rightarrow> (case f (tu_now t) (tu_down t) (''cmd:'' @ sid) (ts_buckets s) of
          (Inl e, bs) \<Rightarrow> (True, s\<lparr>ts_buckets := bs\<rparr>) | (Inr b, bs) \<Rightarrow> (b, s\<lparr>ts_buckets := bs\<rparr>))) = (ok, s1)"
    by fastforce
  then have s1: "I (w\<lparr>wo_db := ts_db s1\<rparr>)" using assms by (auto split: option.splits prod.splits sum.splits)
  let ?s2 = "recordLine (xt_pool X) p sid KindInput (wr_Script req) None s1"
  have s2: "I (w\<lparr>wo_db := ts_db ?s2\<rparr>)" using s1 by (rule recordLine_keeps)
  then have "I (w\<lparr>wo_db := ts_db s3\<rparr>)" if "approve R (xt_pool X) p sid (wr_Script req) (snd ?c) t ?s2 = (b, s3)" for b s3
    using approve_keeps that by (metis snd_conv)
  with s1 s2 show ?thesis using assms Inr unfolding serve_turn_def l
    by (cases ?c) (auto simp: Let_def intro: execute_keeps split: Classification.split prod.split option.split bool.split)
qed

lemma serve_keeps:
  assumes "I (w\<lparr>wo_db := ts_db s\<rparr>)"
  shows "I (w\<lparr>wo_db := ts_db (serve R (xt_pool X) ul p et wr up path sid ra ts s)\<rparr>)"
proof -
  have loop: "I (w\<lparr>wo_db := ts_db s\<rparr>) \<Longrightarrow> I (w\<lparr>wo_db := ts_db (serve_loop R (xt_pool X) ul p et wr cl sid ra ts s)\<rparr>)" for cl s
  proof (induction ts arbitrary: s)
    case (Cons t ts)
    from serve_turn_keeps [OF Cons.prems, of R ul p et wr cl sid ra t] Cons.IH show ?case by (auto split: prod.split bool.split)
  qed simp
  have "I (w\<lparr>wo_db := snd (SandboxRepo_Touch (xt_pool X) sid (ts_db s))\<rparr>)"
    using kept_sandboxes(7) [of sid] assms unfolding kept_by_def by (auto dest!: spec [of _ "w\<lparr>wo_db := ts_db s\<rparr>"])
  with assms loop show ?thesis by (auto simp: serve_def Let_def)
qed

lemma terminal_keeps: "I w \<Longrightarrow> I (snd (terminal X h rq vi w))"
  by (auto simp: terminal_def Let_def intro!: redis_law buckets_law serve_keeps split: option.split if_split)

lemma handler_keeps: "I w \<Longrightarrow> I (snd (handler X h e k rq vi c w))"
  by (cases e) (simp_all add: answered_def account_keeps vm_keeps approval_keeps sandbox_keeps terminal_keeps)

lemma requireAuth_keeps:
  assumes "I w" "\<And>c w. I w \<Longrightarrow> I (snd (nxt c w))"
  shows "I (snd (requireAuth X h rq nxt w))"
proof -
  obtain who w1 where l: "(case hd_sessions h of
            None \<Rightarrow> (None, w)
          | Some _ \<Rightarrow> (let sid = CookieValue (rq_cookies rq) in
              if sid = [] then (None, w)
              else case db_op (Sessions_Resolve (xt_pool X) sid) w of
                (Inl e, w1) \<Rightarrow> (None, w1)
              | (Inr u, w1) \<Rightarrow> (Some \<lparr>pr_UserID = us_ID u, pr_Username = us_Username u, pr_Role = us_Role u, pr_Service = False\<rparr>, w1))) = (who, w1)"
    by fastforce
  have "I w1" using assms(1) db_op_keeps [OF kept_sessions(1) assms(1), of "CookieValue (rq_cookies rq)"] l
    by (auto simp: Let_def split: option.splits if_splits prod.splits sum.splits)
  with assms(2) show ?thesis unfolding requireAuth_def l by (auto simp: Let_def split: option.split)
qed

lemma route_keeps: "I w \<Longrightarrow> I (snd (route X h e k rq vi w))"
  using handler_keeps by (auto simp: route_def simp del: handler.simps intro: requireAuth_keeps)

lemma ServeHTTP_keeps: "I w \<Longrightarrow> I (snd (ServeHTTP X h rq vi w))"
  by (auto simp: ServeHTTP_def route_keeps split: found.split)

end

text \<open>Requests one after another.\<close>

fun serve_all :: "('r, 'd, 'w) extern \<Rightarrow> Handler \<Rightarrow> (Request \<times> ('r, 'w) visit) list \<Rightarrow> ('r, 'd) world \<Rightarrow> ('r, 'd) world" where
  "serve_all X h [] w = w"
| "serve_all X h ((rq, vi) # rs) w = serve_all X h rs (snd (ServeHTTP X h rq vi w))"

lemma pq_run_keeps: "pg_laws P view \<Longrightarrow> pg_ok (view d) \<Longrightarrow> keeps q \<Longrightarrow> pg_ok (view (snd (pq_run P q d)))"
  by (metis pg_run_any keeps_effect prod.collapse)

lemma stop_sup_ok: "sup_ok s \<Longrightarrow> StopWithSnapshot h eng k s t = (r, s', t') \<Longrightarrow> sup_ok s'"
  using Terminate_sup_ok by (fastforce simp: StopWithSnapshot_def split: option.splits prod.splits sum.splits)

lemma load_sup_ok: "sup_ok s \<Longrightarrow> LoadSnapshot h snap sp s t = (r, s', t') \<Longrightarrow> sup_ok s'"
  unfolding LoadSnapshot_launchWith by (rule restore_launch.launch_sup_ok)

lemma launched_sup_ok: "sup_ok s \<Longrightarrow> Launch h ce sp s t = (r, s', t') \<Longrightarrow> sup_ok s'"
  unfolding Launch_launchWith by (rule fresh_launch.launch_sup_ok)

interpretation consistent: world_invariant X
  "\<lambda>w. sup_ok (wo_sup w) \<and> (pg_laws (xt_pool X) view \<longrightarrow> pg_ok (view (wo_db w)))" for X view
  by unfold_locales (auto simp: sup_op_def pq_run_keeps split: prod.splits dest: Terminate_sup_ok stop_sup_ok load_sup_ok launched_sup_ok)

text \<open>
  Every request keeps the platform consistent. After any sequence of requests to the HTTP API, whatever they ask for, whoever
  sends them and whatever the database, Redis and the host answer, the tracked sandboxes are filed under their own ids with distinct CIDs that are
  exactly those in use, and the rows of the database satisfy their keys, references and canonical forms.
\<close>

theorem requests_keep_consistent:
  assumes "pg_laws (xt_pool X) view" and "sup_ok (wo_sup w)" and "pg_ok (view (wo_db w))"
  shows "sup_ok (wo_sup (serve_all X h rs w)) \<and> pg_ok (view (wo_db (serve_all X h rs w)))"
  using assms(2,3)
proof (induction rs arbitrary: w)
  case (Cons r rs)
  obtain rq vi where r: "r = (rq, vi)" by (cases r)
  from consistent.ServeHTTP_keeps [of w X view h rq vi] assms(1) Cons.prems Cons.IH show ?case by (simp add: r)
qed simp

section \<open>Who may ask\<close>

text \<open>Looking up a session changes at most when sessions were last seen.\<close>

definition unseen :: "Session \<Rightarrow> Session" where
  "unseen s = s\<lparr>se_LastSeenAt := 0\<rparr>"

definition seen_only :: "tables \<Rightarrow> tables \<Rightarrow> bool" where
  "seen_only T T' \<longleftrightarrow> same_rows (T\<lparr>tb_sessions := map unseen (tb_sessions T)\<rparr>) (T'\<lparr>tb_sessions := map unseen (tb_sessions T')\<rparr>)"

lemma seen_only_refl [simp]: "seen_only T T"
  by (simp add: seen_only_def)

lemma seen_only_trans: "seen_only T T' \<Longrightarrow> seen_only T' T'' \<Longrightarrow> seen_only T T''"
  unfolding seen_only_def by (rule same_rows_trans)

lemma same_rows_seen: "same_rows T T' \<Longrightarrow> seen_only T T'"
  by (simp add: seen_only_def same_rows_def)

lemma touch_seen:
  assumes "sql_touch_session i ev T = Some (r, T')"
  shows "seen_only T T'"
proof -
  have "map unseen (map (\<lambda>s. if Q s then s\<lparr>se_LastSeenAt := n\<rparr> else s) xs) = map unseen xs" for Q n xs by (simp add: unseen_def)
  with assms show ?thesis by (auto simp: sql_touch_session_def done_defs seen_only_def split: option.splits simp del: map_map)
qed

lemma resolve_seen:
  assumes "pg_laws P view" "SessionRepo_Resolve P sid d = (x, d')"
  shows "seen_only (view d) (view d')"
proof -
  obtain y d1 where 1: "query_row P scanText (sql_touch_session sid) d = (y, d1)" by fastforce
  have s1: "seen_only (view d) (view d1)" using query_row_any [OF assms(1) 1]
    by (rule took_effectE) (auto intro: same_rows_seen touch_seen seen_only_trans)
  show ?thesis
  proof (cases y)
    case (Inl e)
    then have "d' = d1" using assms(2) 1 by (cases e) (auto simp: SessionRepo_Resolve_def or_not_found_def)
    with s1 show ?thesis by simp
  next
    case (Inr uid)
    then have "SessionRepo_Resolve P sid d = or_not_found ''pg: resolve session user'' (query_row P scanUser (sql_enabled_user uid) d1)"
      using 1 by (simp add: SessionRepo_Resolve_def or_not_found_def)
    then have "d' = snd (query_row P scanUser (sql_enabled_user uid) d1)"
      using assms(2) or_not_found_iff(3) by (metis snd_conv)
    then have "same_rows (view d1) (view d')"
      using query_row_reads [OF assms(1) reading_statements(5)] by (metis prod.collapse)
    with s1 show ?thesis by (meson same_rows_seen seen_only_trans)
  qed
qed

text \<open>The token a request presents, and the principals its credentials stand for.\<close>

definition presented :: "Request \<Rightarrow> string" where
  "presented rq = (let b = TrimPrefix (rq_header rq ''Authorization'') ''Bearer '' in if b = [] then rq_query rq ''token'' else b)"

definition service :: Principal where
  "service = \<lparr>pr_UserID = [], pr_Username = ''service'', pr_Role = RoleAdmin, pr_Service = True\<rparr>"

definition principal_of :: "User \<Rightarrow> Principal" where
  "principal_of u = \<lparr>pr_UserID = us_ID u, pr_Username = us_Username u, pr_Role = us_Role u, pr_Service = False\<rparr>"

lemma requireAuth_cases:
  assumes "pg_laws (xt_pool X) view" "pg_ok (view (wo_db w))"
  obtains (refused) w1 where "requireAuth X h rq nxt w = (Some (refuse 401 ''unauthorized''), w1)" "w1\<lparr>wo_db := wo_db w\<rparr> = w"
      "seen_only (view (wo_db w)) (view (wo_db w1))" "hc_Token (hd_cfg h) = [] \<or> presented rq \<noteq> hc_Token (hd_cfg h)"
      "hc_Token (hd_cfg h) \<noteq> [] \<or> hd_sessions h \<noteq> None"
  | (token) w1 where "requireAuth X h rq nxt w = nxt (Some service) w1" "w1\<lparr>wo_db := wo_db w\<rparr> = w"
      "seen_only (view (wo_db w)) (view (wo_db w1))" "hc_Token (hd_cfg h) \<noteq> []" "presented rq = hc_Token (hd_cfg h)"
  | (session) w1 sid u where "requireAuth X h rq nxt w = nxt (Some (principal_of u)) w1" "w1\<lparr>wo_db := wo_db w\<rparr> = w"
      "seen_only (view (wo_db w)) (view (wo_db w1))" "hd_sessions h \<noteq> None" "rq_cookies rq CookieName = Some sid"
      "valid_login (view (wo_db w)) (ev_now (pq_env (xt_pool X) (wo_db w))) sid u"
  | (dev) "requireAuth X h rq nxt w = nxt None w" "hc_Token (hd_cfg h) = []" "hd_sessions h = None"
proof -
  define r where "r = (case hd_sessions h of
            None \<Rightarrow> (None, w)
          | Some _ \<Rightarrow> (let sid = CookieValue (rq_cookies rq) in
              if sid = [] then (None, w)
              else case db_op (Sessions_Resolve (xt_pool X) sid) w of
                (Inl e, w1) \<Rightarrow> (None, w1)
              | (Inr u, w1) \<Rightarrow> (Some \<lparr>pr_UserID = us_ID u, pr_Username = us_Username u, pr_Role = us_Role u, pr_Service = False\<rparr>, w1)))"
  obtain who w1 where l: "r = (who, w1)" by fastforce
  have w1: "w1\<lparr>wo_db := wo_db w\<rparr> = w" "seen_only (view (wo_db w)) (view (wo_db w1))"
    using l resolve_seen [OF assms(1)] unfolding r_def
    by (auto simp: Let_def db_op_def Sessions_Resolve_def split: option.splits if_splits prod.splits sum.splits)
  let ?tok = "hc_Token (hd_cfg h)"
  have run: "requireAuth X h rq nxt w = (case who of Some p \<Rightarrow> nxt (Some p) w1
      | None \<Rightarrow> if ?tok \<noteq> [] \<and> presented rq = ?tok then nxt (Some service) w1
                else if ?tok = [] \<and> hd_sessions h = None then nxt None w1 else (Some (refuse 401 ''unauthorized''), w1))"
    unfolding requireAuth_def r_def [symmetric] l by (auto simp: Let_def presented_def service_def ConstantTimeEqual_iff split: option.split)
  show thesis
  proof (cases who)
    case None
    show thesis
    proof (cases "?tok = [] \<and> hd_sessions h = None")
      case True
      then have "w1 = w" using l r_def by simp
      with True run None dev show thesis by simp
    next
      case False
      then show thesis using run None w1 refused [of w1] token [of w1] by (cases "?tok \<noteq> [] \<and> presented rq = ?tok") auto
    qed
  next
    case (Some p)
    then obtain sid u where u: "hd_sessions h \<noteq> None" "sid \<noteq> []" "CookieValue (rq_cookies rq) = sid"
      "SessionRepo_Resolve (xt_pool X) sid (wo_db w) = (Inr u, wo_db w1)" "p = principal_of u"
      using l unfolding r_def
      by (auto simp: Let_def db_op_def Sessions_Resolve_def principal_of_def split: option.splits if_splits prod.splits sum.splits)
    have "valid_login (view (wo_db w)) (ev_now (pq_env (xt_pool X) (wo_db w))) sid u"
      using resolve_valid_login [OF assms u(4)] by blast
    moreover have "rq_cookies rq CookieName = Some sid" using u(2,3) by (auto simp: CookieValue_def split: option.splits)
    ultimately show thesis using session [of u w1 sid] run Some w1 u by simp
  qed
qed

text \<open>
  C5: No endpoint but the login is open to strangers. When accounts or an API token are configured, a request to any other route
  is answered with 401, or its handler runs for a principal whose credentials the request carries: the service, if the
  configured token was presented, or the enabled user of an unexpired session whose id is in the cookie. A refused request has no effect but the
  time at which a session was last seen; and so has everything before the handler runs.
\<close>

theorem access_needs_credentials:
  assumes "pg_laws (xt_pool X) view" and "pg_ok (view (wo_db w))"
    and "mux_find Register rq = Serve e k" and "e \<noteq> EpLogin" and "hd_sessions h \<noteq> None \<or> hc_Token (hd_cfg h) \<noteq> []"
  shows "\<exists>w1. w1\<lparr>wo_db := wo_db w\<rparr> = w \<and> seen_only (view (wo_db w)) (view (wo_db w1)) \<and>
    (ServeHTTP X h rq vi w = (Some (refuse 401 ''unauthorized''), w1) \<and> (hc_Token (hd_cfg h) = [] \<or> presented rq \<noteq> hc_Token (hd_cfg h)) \<or>
     (\<exists>p. ServeHTTP X h rq vi w = handler X h e k rq vi (Some p) w1 \<and>
       (p = service \<and> hc_Token (hd_cfg h) \<noteq> [] \<and> presented rq = hc_Token (hd_cfg h) \<or>
        (\<exists>sid u. rq_cookies rq CookieName = Some sid \<and> p = principal_of u \<and>
          valid_login (view (wo_db w)) (ev_now (pq_env (xt_pool X) (wo_db w))) sid u))))"
proof -
  have s: "ServeHTTP X h rq vi w = requireAuth X h rq (handler X h e k rq vi) w" using assms(3,4) by (simp add: ServeHTTP_def route_def)
  show ?thesis
    using assms(1,2) by (cases rule: requireAuth_cases [where h = h and rq = rq and nxt = "handler X h e k rq vi"])
      (use s assms(5) in \<open>simp_all, blast+\<close>)
qed

text \<open>The example: a handler with accounts and a token, over the in-memory servers.\<close>

definition exExtern :: "(mem_redis, mem_pg, bytes) extern" where
  "exExtern = \<lparr>xt_host = exHost, xt_pool = mem_pool, xt_redis = mem_server,
     xt_bcrypt = \<lparr>bc_generate = \<lambda>_ p _. Inr p, bc_compare = \<lambda>hash p. if hash = p then None else Some ''mismatch''\<rparr>,
     xt_parseIP = \<lambda>s. s = ''10.0.0.1'', xt_splitHost = \<lambda>_. Some ''10.0.0.1'', xt_quote = \<lambda>s. s, xt_fmtTime = \<lambda>_. ''2024-02-29T12:00:00Z'',
     xt_lower = \<lambda>b. b, xt_execText = \<lambda>_. [], xt_writer = buf_write\<rparr>"

definition exAPI :: Handler where
  "exAPI = NewHandler \<lparr>dp_Supervisor = True, dp_State = True, dp_Gate = exGate, dp_DB = True, dp_Sessions = Some (NewSessions 0),
     dp_Snapshots = Some exEngine\<rparr> \<lparr>hc_Token = ''t0ken'', hc_Origins = [], hc_VsockConfig = cl_cfg exClient, hc_RateCapacity = 0,
     hc_RateRefill = 0, hc_CookieSecure = True\<rparr>"

definition exWorld :: "(mem_redis, mem_pg) world" where
  "exWorld = \<lparr>wo_sup = exSup, wo_trace = [], wo_db = exPg, wo_redis = mem_empty, wo_buckets = Map.empty\<rparr>"

definition exVisit :: "(mem_redis, bytes) visit" where
  "exVisit = \<lparr>vi_now = 0, vi_time = ''2024-02-29T12:00:00Z'', vi_clock = 0, vi_down = None, vi_uuid = exId, vi_salt = [], vi_ctxErr = None,
     vi_size = \<lambda>_. None, vi_upgraded = True, vi_refusal = 400, vi_turns = [], vi_redis = mem_empty\<rparr>"

definition exAsk :: "string \<Rightarrow> string list \<Rightarrow> Request" where
  "exAsk m ps = \<lparr>rq_method = m, rq_path = ps, rq_cookies = Map.empty, rq_header = \<lambda>_. [], rq_query = \<lambda>_. [], rq_remoteAddr = [], rq_body = []\<rparr>"

lemma ex_fields [simp]:
  "xt_pool exExtern = mem_pool" "wo_db exWorld = exPg" "hc_Token (hd_cfg exAPI) = ''t0ken''" "hd_db exAPI" "wo_sup exWorld = exSup"
  "hd_sup exAPI" "hd_snap exAPI = Some exEngine"
  by (simp_all add: exExtern_def exWorld_def exAPI_def NewHandler_def handlerDefaults_def)

theorem access_needs_credentials_witness:
  "\<exists>w1. ServeHTTP exExtern exAPI (exAsk ''DELETE'' [''api'', ''vms'', ''sb-1'']) exVisit exWorld = (Some (refuse 401 ''unauthorized''), w1) \<and>
     w1\<lparr>wo_db := exPg\<rparr> = exWorld"
proof -
  let ?rq = "exAsk ''DELETE'' [''api'', ''vms'', ''sb-1'']"
  have m: "mux_find Register ?rq = Serve EpTerminateVM ''sb-1''"
    by (simp add: mux_find_def Register_def exAsk_def method_match_def)
  have p: "presented ?rq = []" "rq_cookies ?rq CookieName = None" by (simp_all add: presented_def exAsk_def TrimPrefix_def)
  have l: "pg_laws (xt_pool exExtern) mp_tables" "pg_ok (mp_tables (wo_db exWorld))" using mem_pool_laws exPg_ok by simp_all
  have t: "hd_sessions exAPI \<noteq> None \<or> hc_Token (hd_cfg exAPI) \<noteq> []" by simp
  have e: "EpTerminateVM \<noteq> EpLogin" by simp
  from access_needs_credentials [OF l m e t, of exVisit] p show ?thesis by auto
qed

theorem requests_keep_consistent_witness:
  "sup_ok (wo_sup (serve_all exExtern exAPI [(exAsk ''POST'' [''api'', ''login''], exVisit)] exWorld)) \<and>
   pg_ok (mp_tables (wo_db (serve_all exExtern exAPI [(exAsk ''POST'' [''api'', ''login''], exVisit)] exWorld)))"
proof -
  have "pg_laws (xt_pool exExtern) mp_tables" "sup_ok (wo_sup exWorld)" "pg_ok (mp_tables (wo_db exWorld))"
    using mem_pool_laws exPg_ok exSup_ok by simp_all
  then show ?thesis by (rule requests_keep_consistent)
qed

section \<open>Other people's sandboxes\<close>

lemma authorize_other:
  assumes "pg_laws (xt_pool X) view" "pg_ok (view (wo_db w))" "row_of (view (wo_db w)) k = Some r" "sr_owner r = Some owner"
    "\<not> IsAdmin p" "owner \<noteq> pr_UserID p"
  obtains resp w1 where "authorizeSandbox X (Some p) k w = (Inl resp, w1)" "hr_Status resp \<in> {403, 500}" "w1\<lparr>wo_db := wo_db w\<rparr> = w"
    "same_rows (view (wo_db w)) (view (wo_db w1))"
proof -
  obtain x d1 where b: "SandboxRepo_ByID (xt_pool X) k (wo_db w) = (x, d1)" by fastforce
  have same: "same_rows (view (wo_db w)) (view d1)"
    using b query_row_reads [OF assms(1) reading_statements(6)] unfolding SandboxRepo_ByID_def by (metis or_not_found_iff(3) snd_conv prod.collapse)
  have "r \<in> set (tb_sandboxes (view (wo_db w)))" using assms(2,3) by (simp add: row_of_Some)
  then have "uuid_in owner = Some owner" using assms(2,4) by (fastforce simp: pg_ok_def list_all_iff pred_option_def)
  moreover have "uuid_in [] = None" by code_simp
  ultimately have ne: "owner \<noteq> []" by auto
  have "x \<noteq> Inl PgNotFound" using ByID_none [OF assms(1)] b assms(3) by auto
  moreover have "sb_OwnerID sb = owner" if "x = Inr sb" for sb
    using ByID_row [OF assms(1)] b that assms(3,4) by (fastforce simp: to_Sandbox_def)
  ultimately consider (err) a b where "x = Inl (PgErr a b)" | (row) sb where "x = Inr sb" "sb_OwnerID sb = owner"
    by (metis pg_error.exhaust sum.exhaust)
  then show thesis
  proof cases
    case err
    then show thesis using b same by (intro that [of "refuse 500 ''lookup failed''" "w\<lparr>wo_db := d1\<rparr>"])
        (simp_all add: authorizeSandbox_def db_op_def writeJSON_def)
  next
    case row
    then show thesis using b same ne assms(5,6) by (intro that [of "refuse 403 ''not your sandbox''" "w\<lparr>wo_db := d1\<rparr>"])
        (simp_all add: authorizeSandbox_def db_op_def principal_or_zero_def writeJSON_def)
  qed
qed


definition exOther :: Principal where
  "exOther = \<lparr>pr_UserID = ''someone'', pr_Username = ''bob'', pr_Role = RoleOperator, pr_Service = False\<rparr>"


text \<open>
  Terminating a virtual machine, deciding an approval and opening a terminal do not ask for the owner: for a tracked sandbox of somebody
  else any principal's request terminates it.
\<close>

theorem anyone_terminates:
  assumes "hd_sup h" and "k \<noteq> []" and "Get (wo_sup w) k \<noteq> None"
  shows "\<exists>w1. handler X h EpTerminateVM k rq vi c w = (Some (statusOnly 204), w1) \<and> Get (wo_sup w1) k = None"
proof -
  obtain i where i: "map_of (sv_inst (wo_sup w)) k = Some i" using assms(3) by (auto simp: Get_def)
  define w1 where "w1 = snd (sup_op (Terminate (xt_host X) k) w)"
  have t: "sup_op (Terminate (xt_host X) k) w = (None, w1)" "Get (wo_sup w1) k = None"
    using i by (simp_all add: sup_op_def Terminate_def w1_def Get_def map_of_inst_delete)
  then show ?thesis using assms(1,2) by (auto simp: answered_def terminateVM_def db_op_def split: prod.split)
qed

end
