(* ===== verification/ControlPlane.thy ===== *)
theory ControlPlane
  imports Requests
begin

text \<open>
  The daemon (\<open>cmd/controlplane/main.go\<close>): its configuration from the environment, the start-up sequence, the first
  account, the health and maintenance loops, the routing table of the process and the shutdown.
\<close>

section \<open>Configuration\<close>

definition mainEnvStr :: "(string \<Rightarrow> string option) \<Rightarrow> string \<Rightarrow> string \<Rightarrow> string" where
  "mainEnvStr env key def = (case env key of Some v \<Rightarrow> v | None \<Rightarrow> def)"

definition mainEnvInt :: "(string \<Rightarrow> string option) \<Rightarrow> string \<Rightarrow> int \<Rightarrow> int" where
  "mainEnvInt env key def = (case env key of
      Some v \<Rightarrow> (case atoi v of Some n \<Rightarrow> n | None \<Rightarrow> def)
    | None \<Rightarrow> def)"

text \<open>\<open>strconv.ParseBool\<close>.\<close>

definition ParseBool :: "string \<Rightarrow> bool option" where
  "ParseBool s = (if s \<in> set [''1'', ''t'', ''T'', ''TRUE'', ''true'', ''True''] then Some True
     else if s \<in> set [''0'', ''f'', ''F'', ''FALSE'', ''false'', ''False''] then Some False else None)"

definition mainEnvBool :: "(string \<Rightarrow> string option) \<Rightarrow> string \<Rightarrow> bool \<Rightarrow> bool" where
  "mainEnvBool env key def = (case env key of
      Some v \<Rightarrow> (case ParseBool v of Some b \<Rightarrow> b | None \<Rightarrow> def)
    | None \<Rightarrow> def)"

record appConfig =
  ap_orch :: Config
  ap_redisAddr :: string
  ap_redisPassword :: string
  ap_redisDB :: int
  ap_httpAddr :: string
  ap_heartbeatTTL :: int
  ap_healthInterval :: int
  ap_shutdownTerminatesAll :: bool
  ap_apiToken :: string
  ap_allowedOrigins :: "string list"
  ap_hitlTTL :: int
  ap_vsockRetryMax :: int
  ap_pgCfg :: PgConfig
  ap_sessionTTL :: int
  ap_cookieSecure :: bool
  ap_adminUser :: string
  ap_adminPassword :: string
  ap_transcriptRetentionDays :: int

text \<open>Durations are products in 64-bit arithmetic.\<close>

definition mainLoadConfig :: "(string \<Rightarrow> string option) \<Rightarrow> appConfig" where
  "mainLoadConfig env =
     (let str = mainEnvStr env; num = mainEnvInt env; flag = mainEnvBool env;
          origins = filter (\<lambda>s. s \<noteq> []) (map TrimSpace (split_on (CHR '','') (str ''ALLOWED_ORIGINS'' []))) in
      \<lparr>ap_orch = \<lparr>oc_FirecrackerBin = str ''FC_BIN'' ''firecracker'', oc_JailerBin = str ''JAILER_BIN'' ''jailer'',
         oc_KernelImagePath = str ''KERNEL_IMAGE'' ''/var/lib/sandbox/vmlinux-6.1'', oc_RootfsPath = str ''ROOTFS_IMAGE'' ''/var/lib/sandbox/rootfs.ext4'',
         oc_UseJailer = flag ''USE_JAILER'' True, oc_ChrootBaseDir = str ''CHROOT_BASE'' ''/srv/jailer'',
         oc_JailerUID = num ''JAILER_UID'' 10001, oc_JailerGID = num ''JAILER_GID'' 10001, oc_StateDir = str ''STATE_DIR'' ''/srv/sandbox-state'',
         oc_CgroupRoot = str ''CGROUP_ROOT'' ''/sys/fs/cgroup'', oc_CgroupBase = str ''CGROUP_BASE'' ''sandboxes'', oc_KernelArgs = [],
         oc_SeccompFilterPath = [], oc_CIDMin = 0, oc_CIDMax = 0,
         oc_MaxConcurrent = num ''MAX_CONCURRENT'' 0, oc_MemoryBudgetMiB = num ''MEMORY_BUDGET_MIB'' 0\<rparr>,
       ap_redisAddr = str ''REDIS_ADDR'' ''127.0.0.1:6379'', ap_redisPassword = str ''REDIS_PASSWORD'' [], ap_redisDB = num ''REDIS_DB'' 0,
       ap_httpAddr = str ''HTTP_ADDR'' '':8080'',
       ap_heartbeatTTL = wrap64 (num ''HEARTBEAT_TTL_SEC'' 15 * Second), ap_healthInterval = wrap64 (num ''HEALTH_INTERVAL_SEC'' 5 * Second),
       ap_shutdownTerminatesAll = flag ''SHUTDOWN_TERMINATES_ALL'' True, ap_apiToken = str ''API_TOKEN'' [], ap_allowedOrigins = origins,
       ap_hitlTTL = wrap64 (num ''HITL_TTL_SEC'' 3600 * Second), ap_vsockRetryMax = num ''VSOCK_RETRY_MAX'' 10,
       ap_pgCfg = \<lparr>pc_Host = str ''PG_HOST'' [], pc_Port = str ''PG_PORT'' ''5432'', pc_User = str ''PG_USER'' ''postgres'',
         pc_Password = str ''PG_PASSWORD'' [], pc_DB = str ''PG_DB'' ''sandbox'', pc_SSLMode = str ''PG_SSLMODE'' ''disable''\<rparr>,
       ap_sessionTTL = wrap64 (num ''SESSION_TTL_HOURS'' 24 * Hour), ap_cookieSecure = flag ''COOKIE_SECURE'' False,
       ap_adminUser = str ''ADMIN_USER'' [], ap_adminPassword = str ''ADMIN_PASSWORD'' [],
       ap_transcriptRetentionDays = num ''TRANSCRIPT_RETENTION_DAYS'' 30\<rparr>)"

section \<open>The first account\<close>

datatype boot_error = BootPg pg_error | BootHash string

definition bootstrapAdmin :: "'d pool \<Rightarrow> bcrypt \<Rightarrow> string \<Rightarrow> string \<Rightarrow> string \<Rightarrow> 'd \<Rightarrow> boot_error option \<times> 'd" where
  "bootstrapAdmin P B salt user pass d = (case UserRepo_Count P d of
      (Inl e, d1) \<Rightarrow> (Some (BootPg e), d1)
    | (Inr n, d1) \<Rightarrow>
       (if n > 0 then (None, d1)
        else if user = [] \<or> pass = [] then (None, d1)
        else case HashPassword B salt pass of
          Inl e \<Rightarrow> (Some (BootHash e), d1)
        | Inr hash \<Rightarrow> (case UserRepo_Create P user hash RoleAdmin d1 of
            (Inl e, d2) \<Rightarrow> (Some (BootPg e), d2)
          | (Inr _, d2) \<Rightarrow> (None, d2))))"

section \<open>Start-up\<close>

text \<open>What start-up finds outside: the answers of Redis's \<open>Ping\<close>, of opening and pinging the pool, the embedded migrations, and a salt.\<close>

record 'd outside =
  ou_redisPing :: "string option"
  ou_openPool :: "string \<Rightarrow> (string, 'd) result"
  ou_pgPing :: "'d \<Rightarrow> string option"
  ou_migrations :: "(string, dirEntry list) result"
  ou_salt :: string

text \<open>The optional data layer: \<open>Inl\<close> is the message logged before \<open>os.Exit(1)\<close>.\<close>

definition startPg ::
  "('r, 'd, 'w) extern \<Rightarrow> 'd outside \<Rightarrow> appConfig \<Rightarrow> trace \<Rightarrow>
   (string, (Sessions \<times> SnapshotEngine) option) result \<times> 'd option \<times> trace" where
  "startPg X Q cfg t =
     (if pc_Host (ap_pgCfg cfg) = [] then (Inr None, None, t)
      else case NewPg (ou_openPool Q) (ou_pgPing Q) (ap_pgCfg cfg) of
        Inl e \<Rightarrow> (Inl ''postgres connect'', None, t)
      | Inr d \<Rightarrow> (case Migrate (xt_pool X) (ou_migrations Q) d of
          (Some e, d1) \<Rightarrow> (Inl ''postgres migrate'', Some d1, t)
        | (None, d1) \<Rightarrow> (case bootstrapAdmin (xt_pool X) (xt_bcrypt X) (ou_salt Q) (ap_adminUser cfg) (ap_adminPassword cfg) d1 of
            (Some e, d2) \<Rightarrow> (Inl ''bootstrap admin'', Some d2, t)
          | (None, d2) \<Rightarrow> (case NewSnapshotEngine (xt_host X) (Join [oc_StateDir (ap_orch cfg), ''snapshots'']) t of
              (Inl e, t1) \<Rightarrow> (Inl ''snapshot engine'', Some d2, t1)
            | (Inr eng, t1) \<Rightarrow> (Inr (Some (NewSessions (ap_sessionTTL cfg), eng)), Some d2, t1)))))"

datatype boot = BootExit string | BootPanic | BootUp Handler Supervisor

definition handlerOf :: "appConfig \<Rightarrow> Gate \<Rightarrow> (Sessions \<times> SnapshotEngine) option \<Rightarrow> Handler" where
  "handlerOf cfg gate pg = NewHandler
     \<lparr>dp_Supervisor = True, dp_State = True, dp_Gate = gate, dp_DB = (pg \<noteq> None), dp_Sessions = map_option fst pg, dp_Snapshots = map_option snd pg\<rparr>
     \<lparr>hc_Token = ap_apiToken cfg, hc_Origins = ap_allowedOrigins cfg,
      hc_VsockConfig = \<lparr>vc_Port = 0, vc_DialTimeout = 0, vc_RetryMax = ap_vsockRetryMax cfg, vc_RetryBase = 0, vc_RetryCap = 0, vc_PingDeadline = 0\<rparr>,
      hc_RateCapacity = 0, hc_RateRefill = 0, hc_CookieSecure = ap_cookieSecure cfg\<rparr>"

definition start ::
  "('r, 'd, 'w) extern \<Rightarrow> 'd outside \<Rightarrow> appConfig \<Rightarrow> 'r \<Rightarrow> trace \<Rightarrow> boot \<times> 'd option \<times> 'r \<times> trace" where
  "start X Q cfg r t =
     (if ou_redisPing Q \<noteq> None then (BootExit ''redis unreachable'', None, r, t)
      else case NewGate (ap_hitlTTL cfg) of
        None \<Rightarrow> (BootPanic, None, r, t)
      | Some gate \<Rightarrow> (case startPg X Q cfg t of
          (Inl msg, d, t1) \<Rightarrow> (BootExit msg, d, r, t1)
        | (Inr pg, d, t1) \<Rightarrow> (case NewSupervisor (xt_host X) (ap_orch cfg) True t1 of
            (Inl e, t2) \<Rightarrow> (BootExit ''init supervisor'', d, r, t2)
          | (Inr sv, t2) \<Rightarrow> (case All (xt_redis X) r of
              (recs, r1) \<Rightarrow> (case Reconcile (xt_host X) (case recs of Inl e \<Rightarrow> Inl ''list records'' | Inr rs \<Rightarrow> Inr rs) sv t2 of
                  (Some e, t3) \<Rightarrow> (BootExit ''reconcile'', d, r1, t3)
                | (None, t3) \<Rightarrow> (BootUp (handlerOf cfg gate pg) sv, d, r1, t3))))))"

section \<open>Loops\<close>

text \<open>One tick of \<open>healthLoop\<close>: the dead are reaped, the others' heartbeats refreshed; \<open>clock\<close> is what each heartbeat reads.\<close>

fun beat_all :: "'r redis \<Rightarrow> (string \<Rightarrow> int) \<Rightarrow> int \<Rightarrow> Instance list \<Rightarrow> 'r \<Rightarrow> 'r" where
  "beat_all R clock ttl [] r = r"
| "beat_all R clock ttl (i # is) r = beat_all R clock ttl is (snd (Heartbeat R (clock (in_ID i)) (in_ID i) ttl r))"

definition health_tick :: "('r, 'd, 'w) extern \<Rightarrow> (string \<Rightarrow> int) \<Rightarrow> int \<Rightarrow> ('r, 'd) world \<Rightarrow> ('r, 'd) world" where
  "health_tick X clock ttl w =
     (let w1 = snd (sup_op (ReapDead (xt_host X)) w)
      in w1\<lparr>wo_redis := beat_all (xt_redis X) clock ttl (List (wo_sup w1)) (wo_redis w1)\<rparr>)"

text \<open>\<open>time.NewTicker\<close> panics for an interval that is not positive: \<open>None\<close>.\<close>

definition healthLoop :: "('r, 'd, 'w) extern \<Rightarrow> int \<Rightarrow> int \<Rightarrow> (string \<Rightarrow> int) list \<Rightarrow> ('r, 'd) world \<Rightarrow> ('r, 'd) world option" where
  "healthLoop X ttl interval ticks w =
     (if interval \<le> 0 then None else Some (fold (\<lambda>clock. health_tick X clock ttl) ticks w))"

definition maintenance_tick :: "('r, 'd, 'w) extern \<Rightarrow> int \<Rightarrow> ('r, 'd) world \<Rightarrow> ('r, 'd) world" where
  "maintenance_tick X retentionDays w =
     (let w1 = snd (db_op (SessionRepo_DeleteExpired (xt_pool X)) w)
      in if retentionDays > 0 then snd (db_op (TranscriptRepo_PruneOlderThanDays (xt_pool X) retentionDays) w1) else w1)"

section \<open>Shutdown\<close>

fun terminate_each :: "host \<Rightarrow> Instance list \<Rightarrow> Supervisor \<Rightarrow> trace \<Rightarrow> Supervisor \<times> trace" where
  "terminate_each h [] s t = (s, t)"
| "terminate_each h (i # is) s t = (case Terminate h (in_ID i) s t of (_, s1, t1) \<Rightarrow> terminate_each h is s1 t1)"

definition shutdown :: "host \<Rightarrow> bool \<Rightarrow> Supervisor \<Rightarrow> trace \<Rightarrow> Supervisor \<times> trace" where
  "shutdown h terminatesAll s t = (if terminatesAll then terminate_each h (List s) s t else (s, t))"

section \<open>The routes of the process\<close>

datatype page = Text int string | Api "Response option"

datatype main_entry = Healthz | Readyz | ApiEntry endpoint

definition mainRoutes :: "(string \<times> segment list \<times> main_entry) list" where
  "mainRoutes = [(''GET'', [Seg ''healthz''], Healthz), (''GET'', [Seg ''readyz''], Readyz)] @ map (\<lambda>(m, ps, e). (m, ps, ApiEntry e)) Register"

definition buildMux ::
  "('r, 'd, 'w) extern \<Rightarrow> Handler \<Rightarrow> Request \<Rightarrow> ('r, 'w) visit \<Rightarrow> ('r, 'd) world \<Rightarrow> page \<times> ('r, 'd) world" where
  "buildMux X h rq vi w = (case mux_find mainRoutes rq of
      Serve Healthz _ \<Rightarrow> (Text 200 (''ok'' @ [CHR 0x0A]), w)
    | Serve Readyz _ \<Rightarrow> (Text 200 (''{'' @ [CHR 0x22] @ ''active'' @ [CHR 0x22] @ '':'' @ itoa (Count (wo_sup w)) @ ''}'' @ [CHR 0x0A]), w)
    | Serve (ApiEntry e) k \<Rightarrow> (case route X h e k rq vi w of (resp, w1) \<Rightarrow> (Api resp, w1))
    | MethodNotAllowed \<Rightarrow> (Api (Some (statusOnly 405)), w)
    | NoRoute \<Rightarrow> (Api (Some (statusOnly 404)), w))"

section \<open>Start-up and the database\<close>

lemma keeps_migration: "keeps (sql_script body)" "keeps (sql_insert_version v)"
  by (intro keepsI, auto simp: sql_script_def sql_insert_version_def done_defs pg_ok_def split: if_splits)+

lemma tx_run_keeps:
  assumes "\<forall>q \<in> set qs. keeps q" "pg_ok T" "uuid_in (ev_uuid ev) = Some (ev_uuid ev)" "tx_run qs ev T = Some T'"
  shows "pg_ok T'"
  using assms(1,2,4)
proof (induction qs arbitrary: T)
  case (Cons q qs)
  obtain r T1 where q: "q ev T = Some (r, T1)" using Cons.prems(3) by (cases "q ev T") auto
  have "keeps q" using Cons.prems(1) by simp
  then have "pg_ok T1" using q Cons.prems(2) assms(3) unfolding keeps_def by blast
  then show ?case using Cons.IH Cons.prems(1,3) q by simp
qed simp

lemma migration_tx_ok:
  assumes "pg_laws P view" "pg_ok (view d)"
  shows "pg_ok (view (snd (migration_tx P v body d)))"
proof -
  have same: "pg_ok (view d') = pg_ok (view d)" if "same_rows (view d) (view d')" for d d' using pg_ok_same_rows [OF that] by simp
  have b: "pg_ok (view d1)" if "pq_begin P d = (x, d1)" for x d1 using same [OF pg_begin [OF assms(1) that]] assms(2) by simp
  have e: "pg_ok (view d2) = pg_ok (view d1)" if "pq_tx_exec P qs q d1 = (x, d2)" for qs q d1 x d2
    by (rule same [OF pg_tx_exec [OF assms(1) that]])
  have r: "pg_ok (view (pq_rollback P d1)) = pg_ok (view d1)" for d1 by (rule same [OF pg_rollback [OF assms(1)]])
  have c: "pg_ok (view d2)" if "pq_commit P [sql_script body, sql_insert_version v] d1 = (x, d2)" "pg_ok (view d1)" for x d1 d2
  proof -
    have tx: "pg_ok T" if "tx_run [sql_script body, sql_insert_version v] (pq_env P d1) (view d1) = Some T" for T
      using tx_run_keeps [OF _ \<open>pg_ok (view d1)\<close> pg_uuid [OF assms(1)] that] keeps_migration by simp
    show ?thesis
    proof (cases x)
      case None
      then show ?thesis using pg_commit [OF assms(1)] that(1) tx pg_ok_same_rows by blast
    next
      case (Some e)
      then show ?thesis using pg_commit_err [OF assms(1)] that tx pg_ok_same_rows by blast
    qed
  qed
  show ?thesis using b e r c by (auto simp: migration_tx_def split: prod.splits option.splits)
qed

lemma migrate_loop_ok:
  assumes "pg_laws P view"
  shows "pg_ok (view d) \<Longrightarrow> pg_ok (view (snd (migrate_loop P fs d)))"
proof (induction fs arbitrary: d)
  case (Cons f fs)
  obtain x d1 where q: "or_error (''pg: check migration '' @ version_of f) (query_row P scanBool (sql_is_applied (version_of f)) d) = (x, d1)"
    by fastforce
  then have 1: "pg_ok (view d1)"
    using keeps_query_row [OF assms Cons.prems reads_keeps [OF reading_statements(13)]] or_error_iff(2) by (metis snd_conv)
  obtain y d2 where a: "apply_migration P f d1 = (y, d2)" by fastforce
  then have "pg_ok (view d2)"
    using migration_tx_ok [OF assms 1] 1 by (auto simp: apply_migration_def split: sum.splits) (metis snd_conv)
  with Cons.IH q a 1 show ?case by (auto split: sum.splits bool.splits option.splits)
qed simp

lemma Migrate_ok:
  assumes "pg_laws P view" "pg_ok (view d)"
  shows "pg_ok (view (snd (Migrate P entries d)))"
proof -
  obtain x d1 where e: "exec P sql_ensure_migrations ''pg: ensure schema_migrations'' d = (x, d1)" by fastforce
  then have "pg_ok (view d1)"
    using keeps_exec [OF assms reads_keeps [OF reading_statements(14)]] by (metis snd_conv)
  with migrate_loop_ok [OF assms(1)] e show ?thesis by (auto simp: Migrate_def split: sum.splits)
qed

lemma snd_UserRepo: "snd (UserRepo_Count P d) = snd (pq_run P sql_count_users d)"
  "snd (UserRepo_Create P name hash role d) = snd (pq_run P (sql_insert_user name hash (if role = [] then RoleOperator else role)) d)"
  by (simp_all add: UserRepo_Count_def UserRepo_Create_def Let_def snd_stmt)

lemma bootstrap_ok:
  assumes "pg_laws P view" "pg_ok (view d)"
  shows "pg_ok (view (snd (bootstrapAdmin P B salt user pass d)))"
proof -
  obtain x d1 where c: "UserRepo_Count P d = (x, d1)" by fastforce
  then have 1: "pg_ok (view d1)" using pq_run_keeps [OF assms reads_keeps [OF reading_statements(3)]] snd_UserRepo(1) by (metis snd_conv)
  have "pg_ok (view d2)" if "UserRepo_Create P user hash RoleAdmin d1 = (y, d2)" for hash y d2
    using pq_run_keeps [OF assms(1) 1 keeps_users(1)] snd_UserRepo(2) that by (metis snd_conv)
  with c 1 show ?thesis by (auto simp: bootstrapAdmin_def split: sum.splits prod.splits)
qed

section \<open>The running platform\<close>

text \<open>
  The steps of the process after start-up, in any order: requests, ticks of the health loop, ticks of the maintenance loop if there is a
  database, and whatever other clients and the passing of time do to Redis.
\<close>

inductive platform :: "('r, 'd, 'w) extern \<Rightarrow> Handler \<Rightarrow> appConfig \<Rightarrow> ('r, 'd) world \<Rightarrow> ('r, 'd) world \<Rightarrow> bool" for X h cfg w0 where
  begins: "platform X h cfg w0 w0"
| request: "platform X h cfg w0 w \<Longrightarrow> platform X h cfg w0 (snd (buildMux X h rq vi w))"
| health: "platform X h cfg w0 w \<Longrightarrow> platform X h cfg w0 (health_tick X clock (ap_heartbeatTTL cfg) w)"
| maintenance: "hd_db h \<Longrightarrow> platform X h cfg w0 w \<Longrightarrow> platform X h cfg w0 (maintenance_tick X (ap_transcriptRetentionDays cfg) w)"
| outside: "platform X h cfg w0 w \<Longrightarrow> platform X h cfg w0 (w\<lparr>wo_redis := r, wo_buckets := bs\<rparr>)"

definition consistent_world :: "('r, 'd, 'w) extern \<Rightarrow> ('d \<Rightarrow> tables) \<Rightarrow> ('r, 'd) world \<Rightarrow> bool" where
  "consistent_world X view w \<longleftrightarrow> sup_ok (wo_sup w) \<and> (pg_laws (xt_pool X) view \<longrightarrow> pg_ok (view (wo_db w)))"

lemma buildMux_keeps: "consistent_world X view w \<Longrightarrow> consistent_world X view (snd (buildMux X h rq vi w))"
  using consistent.route_keeps [of w X view] unfolding consistent_world_def
  by (auto simp: buildMux_def split: found.split main_entry.split prod.split) (metis snd_conv)+

lemma health_keeps: "consistent_world X view w \<Longrightarrow> consistent_world X view (health_tick X clock ttl w)"
  using reap_sup_ok [of "wo_sup w" "xt_host X" "List (wo_sup w)" "wo_trace w"]
  by (auto simp: consistent_world_def health_tick_def Let_def sup_op_def ReapDead_def split: prod.splits)

lemma maintenance_keeps: "consistent_world X view w \<Longrightarrow> consistent_world X view (maintenance_tick X days w)"
proof -
  assume w: "consistent_world X view w"
  have run: "consistent_world X view (w\<lparr>wo_db := snd (exec (xt_pool X) q what d)\<rparr>)" if "keeps q" "consistent_world X view (w\<lparr>wo_db := d\<rparr>)" for q what d
    using that pq_run_keeps by (auto simp: consistent_world_def snd_stmt)
  from run [OF keeps_sessions(4), of "wo_db w"] w run [OF keeps_rest(4)] show ?thesis
    by (simp add: maintenance_tick_def Let_def db_op_def SessionRepo_DeleteExpired_def TranscriptRepo_PruneOlderThanDays_def case_prod_beta)
qed

lemma platform_keeps:
  assumes "platform X h cfg w0 w" "consistent_world X view w0"
  shows "consistent_world X view w"
  using assms
proof (induction rule: platform.induct)
  case (outside w r bs)
  then show ?case by (simp add: consistent_world_def)
qed (simp_all add: buildMux_keeps health_keeps maintenance_keeps)

text \<open>What start-up leaves.\<close>

lemma startPg_Inr:
  assumes "startPg X Q cfg t = (Inr pg, d, t1)"
  shows "(pg = None \<longleftrightarrow> pc_Host (ap_pgCfg cfg) = []) \<and> (d = None \<longleftrightarrow> pg = None)"
    "pg_laws (xt_pool X) view \<Longrightarrow> (\<And>d0. ou_openPool Q (DSN (ap_pgCfg cfg)) = Inr d0 \<Longrightarrow> pg_ok (view d0)) \<Longrightarrow> d = Some x \<Longrightarrow> pg_ok (view x)"
proof -
  show "(pg = None \<longleftrightarrow> pc_Host (ap_pgCfg cfg) = []) \<and> (d = None \<longleftrightarrow> pg = None)"
    using assms by (auto simp: startPg_def split: if_splits sum.splits prod.splits option.splits)
  assume laws: "pg_laws (xt_pool X) view" and opened: "\<And>d0. ou_openPool Q (DSN (ap_pgCfg cfg)) = Inr d0 \<Longrightarrow> pg_ok (view d0)" and d: "d = Some x"
  obtain d0 d1 where "NewPg (ou_openPool Q) (ou_pgPing Q) (ap_pgCfg cfg) = Inr d0" "Migrate (xt_pool X) (ou_migrations Q) d0 = (None, d1)"
    "bootstrapAdmin (xt_pool X) (xt_bcrypt X) (ou_salt Q) (ap_adminUser cfg) (ap_adminPassword cfg) d1 = (None, x)"
    using assms d by (auto simp: startPg_def split: if_splits sum.splits prod.splits option.splits)
  moreover from this(1) have "ou_openPool Q (DSN (ap_pgCfg cfg)) = Inr d0" by (auto simp: NewPg_def split: sum.splits option.splits)
  ultimately show "pg_ok (view x)" using Migrate_ok [OF laws] bootstrap_ok [OF laws] opened by (metis snd_conv)
qed

lemma start_BootUp:
  assumes "start X Q cfg r t = (BootUp h sv, d, r1, t1)"
  obtains gate pg t2 t3 where "NewGate (ap_hitlTTL cfg) = Some gate" "startPg X Q cfg t = (Inr pg, d, t2)"
    "NewSupervisor (xt_host X) (ap_orch cfg) True t2 = (Inr sv, t3)" "h = handlerOf cfg gate pg" "ou_redisPing Q = None"
  using assms by (auto simp: start_def split: if_splits sum.splits prod.splits option.splits)

lemma platform_sup_ok:
  assumes "start X Q (mainLoadConfig env) r t = (BootUp h sv, d, r1, t1)"
    and "platform X h (mainLoadConfig env) \<lparr>wo_sup = sv, wo_trace = t1, wo_db = db, wo_redis = r1, wo_buckets = bs\<rparr> w"
  shows "sup_ok sv" "sup_ok (wo_sup w)"
proof -
  let ?cfg = "mainLoadConfig env"
  obtain t2 t3 where s: "NewSupervisor (xt_host X) (ap_orch ?cfg) True t2 = (Inr sv, t3)" using start_BootUp [OF assms(1)] by metis
  have "oc_CIDMin (configDefaults (ap_orch ?cfg)) \<le> oc_CIDMax (configDefaults (ap_orch ?cfg))"
    by (simp add: mainLoadConfig_def configDefaults_def Let_def)
  then show sv: "sup_ok sv" using NewSupervisor_sup_ok [OF s] by blast
  then have "consistent_world X (\<lambda>_. no_rows) \<lparr>wo_sup = sv, wo_trace = t1, wo_db = db, wo_redis = r1, wo_buckets = bs\<rparr>"
    by (simp add: consistent_world_def pg_ok_def no_rows_def)
  from platform_keeps [OF assms(2) this] show "sup_ok (wo_sup w)" by (simp add: consistent_world_def)
qed

text \<open>
  C3: The platform stays consistent from start to stop. Once the daemon is up, on a database whose rows satisfied their
  constraints, after any sequence of requests, health ticks, maintenance ticks and changes of Redis from outside, whatever the host, the
  database and Redis answer: the tracked sandboxes are filed under their own ids with distinct CIDs that are exactly those in use,
  and with accounts enabled the rows still satisfy their keys and references.
\<close>

theorem platform_consistent:
  assumes "pg_laws (xt_pool X) view" and "cfg = mainLoadConfig env" and "start X Q cfg r t = (BootUp h sv, d, r1, t1)"
    and "\<And>d0. ou_openPool Q (DSN (ap_pgCfg cfg)) = Inr d0 \<Longrightarrow> pg_ok (view d0)" and "\<And>x. d = Some x \<Longrightarrow> x = db"
    and "platform X h cfg \<lparr>wo_sup = sv, wo_trace = t1, wo_db = db, wo_redis = r1, wo_buckets = bs\<rparr> w"
  shows "sup_ok (wo_sup w) \<and> (pc_Host (ap_pgCfg cfg) \<noteq> [] \<longrightarrow> pg_ok (view (wo_db w)))"
proof -
  obtain pg t2 where s: "startPg X Q cfg t = (Inr pg, d, t2)" using start_BootUp [OF assms(3)] by metis
  let ?w0 = "\<lparr>wo_sup = sv, wo_trace = t1, wo_db = db, wo_redis = r1, wo_buckets = bs\<rparr>"
  note ok = platform_sup_ok [OF assms(3) [unfolded assms(2)] assms(6) [unfolded assms(2)]]
  have "sup_ok (wo_sup w)" by (rule ok(2))
  moreover have "pg_ok (view (wo_db w))" if "pc_Host (ap_pgCfg cfg) \<noteq> []"
  proof -
    have "d = Some db" using startPg_Inr(1) [OF s] that assms(5) by (cases d) auto
    then have "consistent_world X view ?w0" using startPg_Inr(2) [OF s assms(1,4)] ok(1) by (simp add: consistent_world_def)
    from platform_keeps [OF assms(6) this] assms(1) show ?thesis by (simp add: consistent_world_def)
  qed
  ultimately show ?thesis by blast
qed

text \<open>The example: accounts are enabled and everything outside answers.\<close>

definition exEnv :: "string \<Rightarrow> string option" where
  "exEnv = [''PG_HOST'' \<mapsto> ''db'']"

definition exOutside :: "mem_pg outside" where
  "exOutside = \<lparr>ou_redisPing = None, ou_openPool = \<lambda>_. Inr exPg, ou_pgPing = \<lambda>_. None, ou_migrations = Inr [], ou_salt = []\<rparr>"

lemma exStart:
  "\<exists>h sv d r1 t1. start exExtern exOutside (mainLoadConfig exEnv) mem_empty [] = (BootUp h sv, Some d, r1, t1)"
proof -
  obtain rules where rules: "defaultRules = Some rules" using rules_compile by blast
  let ?cfg = "mainLoadConfig exEnv"
  have c: "pc_Host (ap_pgCfg ?cfg) = ''db''" "oc_KernelImagePath (ap_orch ?cfg) \<noteq> []" "oc_RootfsPath (ap_orch ?cfg) \<noteq> []"
    by (simp_all add: mainLoadConfig_def mainEnvStr_def exEnv_def Let_def)
  obtain d1 where m: "Migrate mem_pool (Inr []) exPg = (None, d1)" "mp_tables d1 = mp_tables exPg"
    by (auto simp: Migrate_def exec_def mem_pool_def sql_ensure_migrations_def done_defs migrationFiles_def split: prod.splits)
  obtain d2 where b: "bootstrapAdmin mem_pool B salt user pass d1 = (None, d2)" for B salt user pass
    by (auto simp: bootstrapAdmin_def UserRepo_Count_def query_row_def mem_pool_def sql_count_users_def done_defs or_error_def scanInt_def m(2) exPg_def no_rows_def)
  have ask: "ask exHost op t = (None, t @ [(op, None)])" for op t by (simp add: ask_def exHost_def)
  obtain t1 pg where pg: "startPg exExtern exOutside ?cfg [] = (Inr pg, Some d2, t1)"
    using m b c(1) by (auto simp: startPg_def exOutside_def NewPg_def exExtern_def NewSnapshotEngine_def ask)
  obtain sv t2 where sv: "NewSupervisor exHost (ap_orch ?cfg) True t1 = (Inr sv, t2)" "sv_recorder sv"
    using c(2,3) by (cases "oc_UseJailer (configDefaults (ap_orch ?cfg))") (auto simp: NewSupervisor_def Let_def ask_seq.simps ask)
  have all: "All mem_server mem_empty = (Inr [], mem_empty)" by (simp add: All_def mem_server_def mem_members_def mem_empty_def)
  have x: "xt_host exExtern = exHost" "xt_redis exExtern = mem_server" by (simp_all add: exExtern_def)
  obtain gate where g: "NewGate (ap_hitlTTL ?cfg) = Some gate" using rules by (auto simp: NewGate_def)
  have ping: "ou_redisPing exOutside = None" by (simp add: exOutside_def)
  show ?thesis by (simp add: start_def ping g pg x sv all Reconcile_def)
qed

theorem platform_consistent_witness:
  "\<exists>h sv d r1 t1 w. start exExtern exOutside (mainLoadConfig exEnv) mem_empty [] = (BootUp h sv, Some d, r1, t1) \<and>
     w = snd (buildMux exExtern h (exAsk ''POST'' [''api'', ''login'']) exVisit \<lparr>wo_sup = sv, wo_trace = t1, wo_db = d, wo_redis = r1, wo_buckets = Map.empty\<rparr>) \<and>
     sup_ok (wo_sup w) \<and> pg_ok (mp_tables (wo_db w))"
proof -
  obtain h sv d r1 t1 where s: "start exExtern exOutside (mainLoadConfig exEnv) mem_empty [] = (BootUp h sv, Some d, r1, t1)" using exStart by blast
  let ?w0 = "\<lparr>wo_sup = sv, wo_trace = t1, wo_db = d, wo_redis = r1, wo_buckets = Map.empty\<rparr>"
  have run: "platform exExtern h (mainLoadConfig exEnv) ?w0 (snd (buildMux exExtern h (exAsk ''POST'' [''api'', ''login'']) exVisit ?w0))"
    by (intro platform.request platform.begins)
  have laws: "pg_laws (xt_pool exExtern) mp_tables" using mem_pool_laws by simp
  have "pg_ok (mp_tables d0)" if "ou_openPool exOutside (DSN (ap_pgCfg (mainLoadConfig exEnv))) = Inr d0" for d0
    using that exPg_ok by (simp add: exOutside_def)
  from platform_consistent [OF laws refl s this _ run] have
    "sup_ok (wo_sup (snd (buildMux exExtern h (exAsk ''POST'' [''api'', ''login'']) exVisit ?w0))) \<and>
     (pc_Host (ap_pgCfg (mainLoadConfig exEnv)) \<noteq> [] \<longrightarrow> pg_ok (mp_tables (wo_db (snd (buildMux exExtern h (exAsk ''POST'' [''api'', ''login'']) exVisit ?w0)))))"
    by blast
  moreover have "pc_Host (ap_pgCfg (mainLoadConfig exEnv)) \<noteq> []" by (simp add: mainLoadConfig_def mainEnvStr_def exEnv_def Let_def)
  ultimately show ?thesis using s by blast
qed

section \<open>Wiring\<close>

lemma handler_replies:
  assumes "hd_sup h" "hd_store h"
  shows "fst (handler X h e k rq vi c w) \<noteq> None"
  using assms by (cases e) (auto simp: answered_def terminal_def Let_def split: option.split)

lemma requireAuth_replies: "(\<And>c w. fst (nxt c w) \<noteq> None) \<Longrightarrow> fst (requireAuth X h rq nxt w) \<noteq> None"
  by (auto simp: requireAuth_def Let_def split: prod.split option.split)

text \<open>
  C4: What start-up wires. A daemon that is up has a supervisor without sandboxes, a store and a gate with the compiled rules; accounts, the
  database, history and snapshots are there together or not at all, as \<open>PG_HOST\<close> says; requests are let through without credentials
  exactly when neither \<open>PG_HOST\<close> nor \<open>API_TOKEN\<close> is set; and no request, whatever it finds, makes a handler panic.
\<close>

theorem startup_wiring:
  assumes "start X Q (mainLoadConfig env) r t = (BootUp h sv, d, r1, t1)"
  shows "sv_inst sv = [] \<and> (\<exists>rules. defaultRules = Some rules \<and> ga_rules (tp_gate (hd_proxy h)) = rules) \<and>
    (hd_db h \<longleftrightarrow> env ''PG_HOST'' \<notin> {None, Some []}) \<and> (hd_sessions h \<noteq> None \<longleftrightarrow> hd_db h) \<and> (hd_snap h \<noteq> None \<longleftrightarrow> hd_db h) \<and> (d \<noteq> None \<longleftrightarrow> hd_db h) \<and>
    (hd_sessions h = None \<and> hc_Token (hd_cfg h) = [] \<longleftrightarrow> env ''PG_HOST'' \<in> {None, Some []} \<and> env ''API_TOKEN'' \<in> {None, Some []}) \<and>
    (\<forall>rq vi w. fst (buildMux X h rq vi w) \<noteq> Api None)"
proof -
  let ?cfg = "mainLoadConfig env"
  obtain gate pg t2 t3 where s: "NewGate (ap_hitlTTL ?cfg) = Some gate" "startPg X Q ?cfg t = (Inr pg, d, t2)"
    "NewSupervisor (xt_host X) (ap_orch ?cfg) True t2 = (Inr sv, t3)" "h = handlerOf ?cfg gate pg"
    using start_BootUp [OF assms] by metis
  have pg: "pg = None \<longleftrightarrow> env ''PG_HOST'' \<in> {None, Some []}" "d = None \<longleftrightarrow> pg = None"
    using startPg_Inr(1) [OF s(2)] by (auto simp: mainLoadConfig_def mainEnvStr_def Let_def split: option.splits)
  have h: "hd_sup h" "hd_store h" "hd_db h \<longleftrightarrow> pg \<noteq> None" "hd_sessions h = map_option fst pg" "hd_snap h = map_option snd pg"
    "hc_Token (hd_cfg h) = ap_apiToken ?cfg" "tp_gate (hd_proxy h) = gate"
    by (simp_all add: s(4) handlerOf_def NewHandler_def handlerDefaults_def newTerminalProxy_def Let_def)
  have tok: "ap_apiToken ?cfg = [] \<longleftrightarrow> env ''API_TOKEN'' \<in> {None, Some []}"
    by (auto simp: mainLoadConfig_def mainEnvStr_def Let_def split: option.splits)
  have inst: "sv_inst sv = []" using s(3) by (auto simp: NewSupervisor_def Let_def split: if_splits option.splits prod.splits)
  have rules: "\<exists>rules. defaultRules = Some rules \<and> ga_rules gate = rules" using s(1) by (auto simp: NewGate_def)
  have "fst (route X h e k rq vi w) \<noteq> None" for e k rq vi w
    unfolding route_def by (split if_split, intro conjI impI requireAuth_replies handler_replies h)
  then have panic: "fst (buildMux X h rq vi w) \<noteq> Api None" for rq vi w
    by (auto simp: buildMux_def split: found.split main_entry.split prod.split) (metis fst_conv)+
  show ?thesis using pg h tok inst rules panic by auto
qed

theorem startup_wiring_witness:
  "\<exists>h sv d r1 t1. start exExtern exOutside (mainLoadConfig exEnv) mem_empty [] = (BootUp h sv, d, r1, t1) \<and> hd_db h \<and> hd_sessions h \<noteq> None"
proof -
  obtain h sv d r1 t1 where s: "start exExtern exOutside (mainLoadConfig exEnv) mem_empty [] = (BootUp h sv, Some d, r1, t1)" using exStart by blast
  from startup_wiring [OF s] s show ?thesis by (auto simp: exEnv_def)
qed

section \<open>The first administrator\<close>

lemma count_users:
  assumes "pg_laws P view" "UserRepo_Count P d = (Inr n, d')"
  shows "n = int (length (tb_users (view d)))" "same_rows (view d) (view d')"
proof -
  have q: "query_row P scanInt sql_count_users d = (Inr n, d')" using assms(2) by (simp add: UserRepo_Count_def)
  obtain r T row rows where r: "sql_count_users (pq_env P d) (view d) = Some (r, T)" "q_rows r = row # rows" "scanInt row = Inr n" "same_rows T (view d')"
    by (rule query_row_ok [OF assms(1) q])
  then show "n = int (length (tb_users (view d)))" by (auto simp: sql_count_users_def done_defs scanInt_def)
  show "same_rows (view d) (view d')" using query_row_reads [OF assms(1) reading_statements(3) q] .
qed

lemma bootstrap_counts:
  assumes "bootstrapAdmin P B salt user pass d = (None, d')"
  obtains n d1 where "UserRepo_Count P d = (Inr n, d1)"
proof -
  obtain x d1 where "UserRepo_Count P d = (x, d1)" by fastforce
  with assms show thesis by (cases x) (auto simp: bootstrapAdmin_def that)
qed

lemma bootstrap_noop:
  assumes "pg_laws P view" "bootstrapAdmin P B salt user pass d = (None, d')" "tb_users (view d) \<noteq> []"
  shows "same_rows (view d) (view d')"
proof -
  obtain n d1 where c: "UserRepo_Count P d = (Inr n, d1)" by (rule bootstrap_counts [OF assms(2)])
  from count_users [OF assms(1) c] assms(2,3) c show ?thesis by (simp add: bootstrapAdmin_def)
qed

lemma create_first_user:
  assumes "pg_laws P view" "tb_users (view d) = []" "UserRepo_Create P user hash RoleAdmin d = (Inr u, d')"
  shows "\<exists>u. set (tb_users (view d')) = {u} \<and> us_Username u = user \<and> us_PasswordHash u = hash \<and> us_Role u = RoleAdmin \<and> \<not> us_Disabled u"
proof -
  have q: "query_row P scanUser (sql_insert_user user hash RoleAdmin) d = (Inr u, d')" using assms(3) by (simp add: UserRepo_Create_def)
  obtain r T row rows where r: "sql_insert_user user hash RoleAdmin (pq_env P d) (view d) = Some (r, T)" "q_rows r = row # rows" "scanUser row = Inr u" "same_rows T (view d')"
    by (rule query_row_ok [OF assms(1) q])
  then have "set (tb_users T) = {\<lparr>us_ID = ev_uuid (pq_env P d), us_Username = user, us_PasswordHash = hash, us_Role = RoleAdmin, us_Disabled = False,
      us_CreatedAt = ev_now (pq_env P d)\<rparr>}"
    using assms(2) by (auto simp: sql_insert_user_def done_defs Let_def split: if_splits)
  then show ?thesis using same_rows_sets(1) [OF r(4)] by auto
qed

text \<open>
  C37: The first administrator is created once. \<open>bootstrapAdmin\<close> that reports no error leaves the accounts as they are when there is
  any, or when no name or password is configured; on an empty table it leaves exactly one account: enabled, an admin, with the
  configured name and a hash of the configured password. Calling it again, with any name and password, then changes nothing.
\<close>

theorem bootstrap_once:
  assumes "pg_laws P view" and "bootstrapAdmin P B salt user pass d = (None, d')"
  shows "if tb_users (view d) \<noteq> [] \<or> user = [] \<or> pass = [] then same_rows (view d) (view d')
    else (\<exists>u. set (tb_users (view d')) = {u} \<and> us_Username u = user \<and> HashPassword B salt pass = Inr (us_PasswordHash u) \<and>
        us_Role u = RoleAdmin \<and> \<not> us_Disabled u) \<and>
      (\<forall>salt2 user2 pass2 d''. bootstrapAdmin P B salt2 user2 pass2 d' = (None, d'') \<longrightarrow> same_rows (view d') (view d''))"
proof -
  obtain n d1 where c: "UserRepo_Count P d = (Inr n, d1)" by (rule bootstrap_counts [OF assms(2)])
  note n = count_users [OF assms(1) c]
  note again = bootstrap_noop [OF assms(1)]
  show ?thesis
  proof (cases "tb_users (view d) \<noteq> [] \<or> user = [] \<or> pass = []")
    case True
    show ?thesis
    proof (cases "tb_users (view d) = []")
      case nil: True
      then have "d' = d1" using True assms(2) c n(1) by (auto simp: bootstrapAdmin_def)
      then show ?thesis using True n(2) by simp
    qed (simp add: again [OF assms(2)])
  next
    case False
    then have e: "tb_users (view d) = []" by simp
    then have e1: "tb_users (view d1) = []" using same_rows_sets(1) [OF n(2)] by simp
    obtain hash u where u: "HashPassword B salt pass = Inr hash" "UserRepo_Create P user hash RoleAdmin d1 = (Inr u, d')"
      using assms(2) False c n(1) by (auto simp: bootstrapAdmin_def split: sum.splits prod.splits)
    have one: "\<exists>u. set (tb_users (view d')) = {u} \<and> us_Username u = user \<and> HashPassword B salt pass = Inr (us_PasswordHash u) \<and>
        us_Role u = RoleAdmin \<and> \<not> us_Disabled u"
      using create_first_user [OF assms(1) e1 u(2)] u(1) by auto
    then have "tb_users (view d') \<noteq> []" by auto
    with one again False show ?thesis by simp
  qed
qed

definition exFresh :: mem_pg where
  "exFresh = exPg\<lparr>mp_tables := no_rows\<rparr>"

theorem bootstrap_once_witness:
  "\<exists>d' u. bootstrapAdmin mem_pool (xt_bcrypt exExtern) [] ''root'' ''pw'' exFresh = (None, d') \<and>
     set (tb_users (mp_tables d')) = {u} \<and> us_Username u = ''root'' \<and> us_Role u = RoleAdmin"
proof -
  have ok: "text_ok ''root''" "text_ok ''pw''" "text_ok RoleAdmin" by code_simp+
  obtain d' where b: "bootstrapAdmin mem_pool (xt_bcrypt exExtern) [] ''root'' ''pw'' exFresh = (None, d')"
    by (auto simp: bootstrapAdmin_def UserRepo_Count_def UserRepo_Create_def query_row_def mem_pool_def sql_count_users_def sql_insert_user_def
      done_defs or_error_def scanInt_def scanUser_def exFresh_def exPg_def no_rows_def HashPassword_def exExtern_def Let_def user_cells_def ok)
  from bootstrap_once [OF mem_pool_laws b] b show ?thesis by (auto simp: exFresh_def no_rows_def)
qed

section \<open>Health and shutdown\<close>

lemma beat_all_view:
  assumes "redis_laws R view"
  shows "rv_set (view (beat_all R clock ttl is r)) = rv_set (view r)"
    "k \<notin> (\<lambda>i. prefixBeat @ in_ID i) ` set is \<Longrightarrow> rv_str (view (beat_all R clock ttl is r)) k = rv_str (view r) k"
    "i \<in> set is \<Longrightarrow> (\<And>r. fst (rd_exec R [RSet (prefixBeat @ in_ID i) (itoa (clock (in_ID i))) ttl] r) = None) \<Longrightarrow>
      rv_str (view (beat_all R clock ttl is r)) (prefixBeat @ in_ID i) = Some (itoa (clock (in_ID i)))"
proof -
  define beat where "beat i r = snd (Heartbeat R (clock (in_ID i)) (in_ID i) ttl r)" for i :: Instance and r
  have one: "view (beat i r) \<in> {view r, rapply (RSet (prefixBeat @ in_ID i) (itoa (clock (in_ID i))) ttl) (view r)}" for i r
  proof -
    obtain e r' where x: "rd_exec R [RSet (prefixBeat @ in_ID i) (itoa (clock (in_ID i))) ttl] r = (e, r')" by fastforce
    then have "beat i r = r'" by (cases e) (simp_all add: beat_def Heartbeat_def run_cmds_def)
    with rd_exec_one [OF assms x] show ?thesis by simp
  qed
  have beat: "beat_all R clock ttl (i # is) r = beat_all R clock ttl is (beat i r)" for i "is" r by (simp add: beat_def)
  show "rv_set (view (beat_all R clock ttl is r)) = rv_set (view r)"
  proof (induction "is" arbitrary: r)
    case (Cons i "is")
    show ?case unfolding beat Cons.IH using one [of i r] by auto
  qed simp
  show "rv_str (view (beat_all R clock ttl is r)) k = rv_str (view r) k" if "k \<notin> (\<lambda>i. prefixBeat @ in_ID i) ` set is" for k
    using that
  proof (induction "is" arbitrary: r)
    case (Cons i "is")
    then have "rv_str (view (beat_all R clock ttl is (beat i r))) k = rv_str (view (beat i r)) k" by simp
    then show ?case unfolding beat using one [of i r] Cons.prems by auto
  qed simp
  show "rv_str (view (beat_all R clock ttl is r)) (prefixBeat @ in_ID i) = Some (itoa (clock (in_ID i)))"
    if "i \<in> set is" "\<And>r. fst (rd_exec R [RSet (prefixBeat @ in_ID i) (itoa (clock (in_ID i))) ttl] r) = None" for i
  proof -
    let ?v = "\<lambda>r. rv_str (view r) (prefixBeat @ in_ID i) = Some (itoa (clock (in_ID i)))"
    have done1: "?v (beat i r)" for r
      using that(2) [of r] redis_lawsD(3) [OF assms] by (cases "rd_exec R [RSet (prefixBeat @ in_ID i) (itoa (clock (in_ID i))) ttl] r") (auto simp: beat_def Heartbeat_def run_cmds_def)
    have keep: "?v (beat j r)" if "?v r" for j r using one [of j r] that by auto
    have kept: "?v (beat_all R clock ttl js r)" if "?v r" for js r
      using that by (induction js arbitrary: r) (simp, metis beat keep)
    show ?thesis using that(1)
      by (induction "is" arbitrary: r) (simp, metis beat done1 kept set_ConsD)
  qed
qed


text \<open>The example: of two sandboxes, the process of the second is gone.\<close>

definition exVM :: "string \<Rightarrow> u32 \<Rightarrow> int \<Rightarrow> Instance" where
  "exVM k cid p = \<lparr>in_ID = k, in_CID = cid, in_PID = p, in_ChrootDir = bp_ChrootRoot (bootPathsOf (sv_cfg exSup) k), in_SocketPath = [],
     in_VsockUDSPath = [], in_CgroupPath = cgroupLeaf (sv_cfg exSup) k, in_CreatedAt = [], in_Spec = exSpec\<lparr>ls_ID := k\<rparr>, in_machine = True,
     in_cancel = True\<rparr>"

definition exTwo :: Supervisor where
  "exTwo = exSup\<lparr>sv_inst := [(''a'', exVM ''a'' 3 71), (''b'', exVM ''b'' 4 72)], sv_cids := (newCIDAllocator 3 9)\<lparr>ca_used := {3, 4}\<rparr>\<rparr>"

lemma exTwo_ok: "sup_ok exTwo"
  by (auto simp: sup_ok_def exTwo_def inst_ok_def exVM_def exSup_def cid_ok_def newCIDAllocator_def)


lemma terminate_each_all:
  assumes "sv_inst s = map (\<lambda>i. (in_ID i, i)) is" "distinct (map in_ID is)" "terminate_each h is s t = (s', t')"
  shows "sv_inst s' = [] \<and> ca_used (sv_cids s') = ca_used (sv_cids s) - in_CID ` set is \<and>
    map fst t' = map fst t @ concat (map (terminateOps s) is)"
  using assms
proof (induction "is" arbitrary: s t)
  case (Cons i "is")
  let ?s = "s\<lparr>sv_inst := map (\<lambda>i. (in_ID i, i)) is, sv_cids := cid_free (in_CID i) (sv_cids s)\<rparr>"
  have del: "inst_delete (in_ID i) (sv_inst s) = map (\<lambda>i. (in_ID i, i)) is"
  proof -
    have "filter (\<lambda>j. in_ID j \<noteq> in_ID i) is = is" using Cons.prems(2) by (auto intro!: filter_True) (metis image_eqI)
    then show ?thesis using Cons.prems(1) by (simp add: inst_delete_def filter_map comp_def)
  qed
  then have "Terminate h (in_ID i) s t = (None, ?s, ask_all h (terminateOps s i) t)"
    using Cons.prems(1) by (simp add: Terminate_def)
  then have rec: "terminate_each h is ?s (ask_all h (terminateOps s i) t) = (s', t')" using Cons.prems(3) by simp
  have "terminateOps ?s = terminateOps s" by (simp add: terminateOps_def fun_eq_iff)
  with Cons.IH [OF _ _ rec] Cons.prems(2) show ?case by (auto simp: cid_free_def)
qed auto

lemma shutdown_all:
  assumes "sup_ok s" "shutdown h True s t = (s', t')"
  shows "sv_inst s' = [] \<and> ca_used (sv_cids s') = {} \<and> map fst t' = map fst t @ concat (map (terminateOps s) (List s))"
proof -
  have ids: "k = in_ID i" if "(k, i) \<in> set (sv_inst s)" for k i using assms(1) that by (auto simp: sup_ok_def inst_ok_def)
  then have inst: "sv_inst s = map (\<lambda>i. (in_ID i, i)) (List s)" by (auto simp: List_def comp_def intro!: map_idI [symmetric])
  have "map fst (sv_inst s) = map in_ID (List s)" by (subst inst) (simp add: comp_def)
  then have "distinct (map in_ID (List s))" using assms(1) by (simp add: sup_ok_def)
  moreover have "ca_used (sv_cids s) = in_CID ` set (List s)"
    using assms(1) by (force simp: sup_ok_def List_def)
  ultimately show ?thesis using terminate_each_all [OF inst] assms(2) by (simp add: shutdown_def)
qed

text \<open>
  C39: Shutdown. After any run of the platform, unless \<open>SHUTDOWN_TERMINATES_ALL\<close> says no, the shutdown leaves no sandbox tracked and no CID
  in use, and has asked the host, for every sandbox that was tracked, for exactly what terminating it takes, whatever the host answered; if it says no,
  every sandbox is left as it is.
\<close>

theorem shutdown_leaves_nothing:
  assumes "start X Q (mainLoadConfig env) r t = (BootUp h sv, d, r1, t1)"
    and "platform X h (mainLoadConfig env) \<lparr>wo_sup = sv, wo_trace = t1, wo_db = db, wo_redis = r1, wo_buckets = bs\<rparr> w"
    and "shutdown (xt_host X) (ap_shutdownTerminatesAll (mainLoadConfig env)) (wo_sup w) (wo_trace w) = (s', t')"
  shows "if Option.bind (env ''SHUTDOWN_TERMINATES_ALL'') ParseBool = Some False then s' = wo_sup w \<and> t' = wo_trace w
    else sv_inst s' = [] \<and> ca_used (sv_cids s') = {} \<and>
      map fst t' = map fst (wo_trace w) @ concat (map (terminateOps (wo_sup w)) (List (wo_sup w)))"
proof -
  have "ap_shutdownTerminatesAll (mainLoadConfig env) \<longleftrightarrow> Option.bind (env ''SHUTDOWN_TERMINATES_ALL'') ParseBool \<noteq> Some False"
    by (auto simp: mainLoadConfig_def mainEnvBool_def Let_def split: option.splits)
  then show ?thesis
    using assms(3) shutdown_all [OF platform_sup_ok(2) [OF assms(1,2)]] by (auto simp: shutdown_def)
qed

theorem shutdown_leaves_nothing_witness:
  "\<exists>h sv d r1 t1 s' t'. start exExtern exOutside (mainLoadConfig exEnv) mem_empty [] = (BootUp h sv, Some d, r1, t1) \<and>
     shutdown exHost (ap_shutdownTerminatesAll (mainLoadConfig exEnv)) sv t1 = (s', t') \<and> sv_inst s' = [] \<and> ca_used (sv_cids s') = {}"
proof -
  obtain h sv d r1 t1 where s: "start exExtern exOutside (mainLoadConfig exEnv) mem_empty [] = (BootUp h sv, Some d, r1, t1)" using exStart by blast
  let ?w0 = "\<lparr>wo_sup = sv, wo_trace = t1, wo_db = d, wo_redis = r1, wo_buckets = Map.empty\<rparr>"
  obtain s' t' where e: "shutdown exHost (ap_shutdownTerminatesAll (mainLoadConfig exEnv)) sv t1 = (s', t')" by fastforce
  moreover have "xt_host exExtern = exHost" by (simp add: exExtern_def)
  ultimately show ?thesis
    using shutdown_leaves_nothing [OF s platform.begins [of exExtern h "mainLoadConfig exEnv" ?w0], of s' t'] s by (simp add: exEnv_def)
qed

section \<open>A directory with two owners\<close>

text \<open>
  The snapshots of all sandboxes live in the directory that is also the state directory of a sandbox called \<open>snapshots\<close>: terminating
  such a sandbox asks the host to remove them all.
\<close>

theorem snapshots_directory_shared:
  assumes "start X Q (mainLoadConfig env) r t = (BootUp h sv, d, r1, t1)" "hd_snap h = Some eng" "env ''STATE_DIR'' \<noteq> Some []"
    and "sv_cfg s = sv_cfg sv" "map_of (sv_inst s) ''snapshots'' = Some i" "in_ID i = ''snapshots''"
  shows "RemoveAll (se_snapshotDir eng) \<in> fst ` set (snd (snd (Terminate (xt_host X) ''snapshots'' s t2)))"
proof -
  let ?cfg = "mainLoadConfig env"
  obtain gate pg t3 t4 where st: "startPg X Q ?cfg t = (Inr pg, d, t3)" "NewSupervisor (xt_host X) (ap_orch ?cfg) True t3 = (Inr sv, t4)" "h = handlerOf ?cfg gate pg"
    using start_BootUp [OF assms(1)] by metis
  obtain ss where "pg = Some (ss, eng)" using st(3) assms(2) by (cases pg) (auto simp: handlerOf_def NewHandler_def Let_def)
  then have "se_snapshotDir eng = Join [oc_StateDir (ap_orch ?cfg), ''snapshots'']"
    using st(1) by (auto simp: startPg_def NewSnapshotEngine_def split: if_splits sum.splits prod.splits option.splits)
  moreover have sv: "sv_cfg sv = configDefaults (ap_orch ?cfg)"
    using st(2) by (auto simp: NewSupervisor_def Let_def simp del: ask_seq.simps split: if_splits option.splits prod.splits)
  moreover have dir: "oc_StateDir (ap_orch ?cfg) \<noteq> []" using assms(3) by (auto simp: mainLoadConfig_def mainEnvStr_def Let_def split: option.splits)
  then have "oc_StateDir (sv_cfg sv) = oc_StateDir (ap_orch ?cfg)" by (simp add: sv configDefaults_def defaultStr_def)
  ultimately have "RemoveAll (se_snapshotDir eng) \<in> set (terminateOps s i)" using assms(4,6) by (simp add: terminateOps_def)
  moreover have "map fst (snd (snd (Terminate (xt_host X) ''snapshots'' s t2))) = map fst t2 @ terminateOps s i"
    using assms(5) by (simp add: Terminate_def)
  then have "fst ` set (snd (snd (Terminate (xt_host X) ''snapshots'' s t2))) = set (map fst t2 @ terminateOps s i)" by (metis list.set_map)
  ultimately show ?thesis by simp
qed

end
