(* ===== verification/Accounts.thy ===== *)
theory Accounts
  imports Requests
begin

text \<open>
  Logging in, in and out (\<open>internal/gateway/auth_api.go\<close>): what a login needs and leaves, and who may manage accounts.
\<close>

section \<open>What the statements leave of accounts and sessions\<close>

definition logins :: "tables \<Rightarrow> User set \<times> Session set" where
  "logins T = (set (tb_users T), set (tb_sessions T))"

lemma logins_same_rows: "same_rows T T' \<Longrightarrow> logins T' = logins T"
  using same_rows_sets(1,2) by (metis logins_def)

text \<open>The audit log is written whatever else happened; nothing but its own table changes.\<close>

lemma audit_rows:
  assumes "pg_laws (xt_pool X) view"
  shows "same_rows ((view (wo_db w))\<lparr>tb_audit := []\<rparr>) ((view (wo_db (audit X h uid action target detail w)))\<lparr>tb_audit := []\<rparr>)"
proof -
  have cut: "same_rows (T\<lparr>tb_audit := []\<rparr>) (T'\<lparr>tb_audit := []\<rparr>)" if "same_rows T T'" for T T' using that by (simp add: same_rows_def)
  have stmt: "T'\<lparr>tb_audit := []\<rparr> = T\<lparr>tb_audit := []\<rparr>" if "sql_insert_audit u a t dt ev T = Some (r, T')" for u a t dt ev T r T'
    using that by (auto simp: sql_insert_audit_def done_defs split: option.splits if_splits)
  have "same_rows ((view d)\<lparr>tb_audit := []\<rparr>) ((view (snd (exec (xt_pool X) (sql_insert_audit u a t dt) what d)))\<lparr>tb_audit := []\<rparr>)" for u a t dt what d
  proof -
    obtain x d' where e: "exec (xt_pool X) (sql_insert_audit u a t dt) what d = (x, d')" by fastforce
    then show ?thesis using exec_any [OF assms e] cut stmt unfolding took_effect_def by (metis snd_conv)
  qed
  moreover have "same_rows T T" for T by (simp add: same_rows_def)
  ultimately show ?thesis by (simp add: audit_def db_op_def AuditRepo_Log_def Let_def case_prod_beta)
qed

lemma audit_logins:
  assumes "pg_laws (xt_pool X) view"
  shows "logins (view (wo_db (audit X h uid action target detail w))) = logins (view (wo_db w))"
  using logins_same_rows [OF audit_rows [OF assms]] by (simp add: logins_def)

lemma audit_rest [simp]:
  "wo_sup (audit X h uid action target detail w) = wo_sup w" "wo_trace (audit X h uid action target detail w) = wo_trace w"
  "wo_redis (audit X h uid action target detail w) = wo_redis w"
  by (simp_all add: audit_def db_op_def case_prod_beta)

lemma ByUsername_reads:
  assumes "pg_laws P view" "UserRepo_ByUsername P name d = (x, d')"
  shows "same_rows (view d) (view d')" "x = Inr u \<Longrightarrow> u \<in> set (tb_users (view d)) \<and> us_Username u = name"
proof -
  obtain y where q: "query_row P scanUser (sql_user_by_name name) d = (y, d')"
    using assms(2) or_not_found_iff(3) [of "''pg: user by username''" "query_row P scanUser (sql_user_by_name name) d"]
    by (metis UserRepo_ByUsername_def prod.collapse snd_conv)
  show "same_rows (view d) (view d')" by (rule query_row_reads [OF assms(1) reading_statements(1) q])
  assume "x = Inr u"
  then have q: "query_row P scanUser (sql_user_by_name name) d = (Inr u, d')" using assms(2) by (simp add: UserRepo_ByUsername_def)
  obtain r T row rows where "sql_user_by_name name (pq_env P d) (view d) = Some (r, T)" "q_rows r = row # rows" "scanUser row = Inr u" "same_rows T (view d')"
    by (rule query_row_ok [OF assms(1) q])
  then have "map user_cells (filter (\<lambda>u. us_Username u = name) (tb_users (view d))) = row # rows" "scanUser row = Inr u"
    by (auto simp: sql_user_by_name_def done_defs split: if_splits)
  with map_filter_Cons [OF this(1)] show "u \<in> set (tb_users (view d)) \<and> us_Username u = name" by auto
qed

lemma Sessions_Create_row:
  assumes "pg_laws P view" "Sessions_Create P ss i now uid agent ip d = (Inr (sid, ex), d')" "uuid_in uid = Some uid"
  shows "sid = i" "ex = now + sm_ttl ss" "set (tb_users (view d')) = set (tb_users (view d))"
    "\<exists>s k. set (tb_sessions (view d')) = insert s (set (tb_sessions (view d))) \<and> uuid_in i = Some k \<and> se_ID s = k \<and> se_UserID s = uid \<and>
       se_ExpiresAt s = (now + sm_ttl ss) div 1000"
proof -
  let ?q = "sql_insert_session i uid ((now + sm_ttl ss) div 1000) agent (if ip \<noteq> [] then Some ip else None)"
  obtain n where e: "exec P ?q ''pg: create session'' d = (Inr n, d')"
    using assms(2) by (auto simp: Sessions_Create_def SessionRepo_Create_def Let_def split: prod.splits sum.splits if_splits)
  obtain r T where T: "?q (pq_env P d) (view d) = Some (r, T)" "same_rows T (view d')" by (rule exec_ok [OF assms(1) e])
  show "sid = i" "ex = now + sm_ttl ss" using assms(2) by (auto simp: Sessions_Create_def Let_def split: prod.splits sum.splits)
  from T(1) obtain k s where k: "uuid_in i = Some k" "T = (view d)\<lparr>tb_sessions := tb_sessions (view d) @ [s]\<rparr>" "se_ID s = k" "se_UserID s = uid"
    "se_ExpiresAt s = (now + sm_ttl ss) div 1000"
    using assms(3) by (auto simp: sql_insert_session_def done_defs split: option.splits if_splits)
  then have l: "logins (view d') = (set (tb_users (view d)), insert s (set (tb_sessions (view d))))"
    using logins_same_rows [OF T(2)] by (simp add: logins_def)
  then show "set (tb_users (view d')) = set (tb_users (view d))" by (simp add: logins_def)
  show "\<exists>s k. set (tb_sessions (view d')) = insert s (set (tb_sessions (view d))) \<and> uuid_in i = Some k \<and> se_ID s = k \<and> se_UserID s = uid \<and>
       se_ExpiresAt s = (now + sm_ttl ss) div 1000"
    using l k by (auto simp: logins_def)
qed

section \<open>Logging in\<close>

abbreviation bad_login :: Response where
  "bad_login \<equiv> refuse 401 ''invalid credentials''"

text \<open>The ways a login ends: before the database was asked, refused, failed while the session was stored, or granted.\<close>

lemma login_cases:
  assumes "login X h rq vi w = (resp, w')"
  obtains (early) "wo_db w' = wo_db w" "hr_Cookie resp = None" "hr_Status resp \<noteq> 401"
  | (bad) name found d1 w2 where "UserRepo_ByUsername (xt_pool X) name (wo_db w) = (found, d1)" "wo_db w2 = d1"
      "w' = audit X h [] ''login.failure'' name [] w2" "resp = bad_login"
  | (failed) "hr_Status resp = 500" "hr_Cookie resp = None"
  | (granted) ss req u d1 sid ex d2 w3 where "hd_sessions h = Some ss" "Decode \<lparr>lr_Username = [], lr_Password = []\<rparr> set_login (rq_body rq) = Inr req"
      "UserRepo_ByUsername (xt_pool X) (TrimSpace (lr_Username req)) (wo_db w) = (Inr u, d1)" "\<not> us_Disabled u"
      "VerifyPassword (xt_bcrypt X) (us_PasswordHash u) (lr_Password req)"
      "Sessions_Create (xt_pool X) ss (vi_uuid vi) (vi_now vi) (us_ID u) (rq_header rq ''User-Agent'') (clientIP X rq) d1 = (Inr (sid, ex), d2)"
      "wo_db w3 = d2" "w' = audit X h (us_ID u) ''login.success'' (us_Username u) [] w3"
      "hr_Cookie resp = Some (SetSessionCookie (vi_now vi) sid ex (hc_CookieSecure (hd_cfg h)))" "hr_Status resp = 200"
proof -
  show thesis
  proof (cases "hd_sessions h")
    case None
    with assms early show ?thesis by (auto simp: login_def writeJSON_def)
  next
    case (Some ss)
    show ?thesis
    proof (cases "Decode \<lparr>lr_Username = [], lr_Password = []\<rparr> set_login (rq_body rq)")
      case (Inl e)
      with assms Some early show ?thesis by (auto simp: login_def writeJSON_def split: if_splits)
    next
      case (Inr req)
      let ?name = "TrimSpace (lr_Username req)"
      define lim where "lim = (if hd_store h then limiter_op (loginKey X rq ?name) 5 (1 / 10) 1 vi w else (Inr True, w))"
      obtain a w1 where l: "lim = (a, w1)" by fastforce
      then have w1: "wo_db w1 = wo_db w" by (auto simp: lim_def limiter_op_def split: if_splits prod.splits)
      show ?thesis
      proof (cases "\<not> hd_db h \<or> ?name = [] \<or> lr_Password req = [] \<or> a = Inr False")
        case True
        with assms Some Inr l w1 early show ?thesis by (auto simp: login_def writeJSON_def lim_def [symmetric] Let_def split: if_splits)
      next
        case False
        obtain found d1 where f: "UserRepo_ByUsername (xt_pool X) ?name (wo_db w) = (found, d1)" by fastforce
        define w2 where "w2 = w1\<lparr>wo_db := d1\<rparr>"
        have run: "login X h rq vi w = (case found of Inl e \<Rightarrow> (bad_login, audit X h [] ''login.failure'' ?name [] w2) | Inr u \<Rightarrow>
            if us_Disabled u \<or> \<not> VerifyPassword (xt_bcrypt X) (us_PasswordHash u) (lr_Password req) then (bad_login, audit X h [] ''login.failure'' ?name [] w2)
            else case db_op (Sessions_Create (xt_pool X) ss (vi_uuid vi) (vi_now vi) (us_ID u) (rq_header rq ''User-Agent'') (clientIP X rq)) w2 of
              (Inl e, w3) \<Rightarrow> (refuse 500 ''login failed'', w3)
            | (Inr (sid, ex), w3) \<Rightarrow> ((writeJSON 200 (userView (us_ID u) (us_Username u) (us_Role u)))
                \<lparr>hr_Cookie := Some (SetSessionCookie (vi_now vi) sid ex (hc_CookieSecure (hd_cfg h)))\<rparr>, audit X h (us_ID u) ''login.success'' (us_Username u) [] w3))"
          using False Some Inr l f w1 by (auto simp: login_def lim_def [symmetric] Let_def db_op_def w2_def split: sum.split bool.split)
        have w2: "wo_db w2 = d1" by (simp add: w2_def)
        show ?thesis
        proof (cases "\<exists>u. found = Inr u \<and> \<not> us_Disabled u \<and> VerifyPassword (xt_bcrypt X) (us_PasswordHash u) (lr_Password req)")
          case True
          then obtain u where u: "found = Inr u" "\<not> us_Disabled u" "VerifyPassword (xt_bcrypt X) (us_PasswordHash u) (lr_Password req)" by blast
          obtain y d2 where c: "Sessions_Create (xt_pool X) ss (vi_uuid vi) (vi_now vi) (us_ID u) (rq_header rq ''User-Agent'') (clientIP X rq) d1 = (y, d2)" by fastforce
          show ?thesis
          proof (cases y)
            case (Inl e)
            with assms run u c w2 failed show ?thesis by (auto simp: db_op_def writeJSON_def)
          next
            case y: (Inr p)
            obtain sid ex where p: "p = (sid, ex)" by fastforce
            show ?thesis
              by (rule granted [of ss req u d1 sid ex d2 "w2\<lparr>wo_db := d2\<rparr>"])
                (use assms run u c w2 y p Some Inr f in \<open>auto simp: db_op_def writeJSON_def\<close>)
          qed
        next
          case False
          then have "login X h rq vi w = (bad_login, audit X h [] ''login.failure'' ?name [] w2)" unfolding run by (auto split: sum.split)
          with assms f w2 bad show ?thesis by simp
        qed
      qed
    qed
  qed
qed

definition only_db :: "('r, 'd) world \<Rightarrow> ('r, 'd) world \<Rightarrow> bool" where
  "only_db w w' \<longleftrightarrow> wo_sup w' = wo_sup w \<and> wo_trace w' = wo_trace w \<and> wo_redis w' = wo_redis w"

lemma only_db_steps:
  "only_db w w"
  "only_db w w1 \<Longrightarrow> only_db w (audit X h uid action target detail w1)"
  "only_db w w1 \<Longrightarrow> only_db w (snd (db_op f w1))"
  "only_db w w1 \<Longrightarrow> only_db w (snd (limiter_op k cap rate n vi w1))"
  "only_db w (snd p) \<Longrightarrow> (\<And>x w1. only_db w w1 \<Longrightarrow> only_db w (snd (g x w1))) \<Longrightarrow> only_db w (snd (case p of (x, w1) \<Rightarrow> g x w1))"
  by (auto simp: only_db_def db_op_def limiter_op_def case_prod_beta)

lemma login_frame: "only_db w (snd (login X h rq vi w))"
  by (auto simp: login_def Let_def intro!: only_db_steps split: option.split sum.split if_split bool.split)

lemma audit_pg_ok: "pg_laws (xt_pool X) view \<Longrightarrow> pg_ok (view (wo_db w)) \<Longrightarrow> pg_ok (view (wo_db (audit X h uid action target detail w)))"
  using keeps_exec [OF _ _ keeps_rest(5)] by (auto simp: audit_def db_op_def AuditRepo_Log_def Let_def case_prod_beta)


text \<open>The example: \<open>ann\<close> logs in while Redis does not answer.\<close>

definition exFreshId :: string where "exFreshId = uuid_text (replicate 32 CHR ''b'')"

definition exLogin :: Request where
  "exLogin = (exAsk ''POST'' [''api'', ''login''])\<lparr>rq_body := jprint (JObj [(''username'', JStr '' ann ''), (''password'', JStr ''h'')])\<rparr>"

lemma exFreshId_ok: "uuid_in exFreshId = Some exFreshId" "exFreshId \<noteq> exId"
proof -
  show "uuid_in exFreshId = Some exFreshId"
    unfolding exFreshId_def by (intro uuid_in_digits) (auto simp: list_all_iff lower_hex_def hex_val_def hex_char_def code_def)
  show "exFreshId \<noteq> exId" unfolding exFreshId_def exId_def by code_simp
qed

lemma exLogin_granted:
  "\<exists>resp w' ck. login exExtern exAPI exLogin (exVisit\<lparr>vi_uuid := exFreshId, vi_down := Some ''down''\<rparr>) exWorld = (resp, w') \<and> hr_Cookie resp = Some ck"
proof -
  let ?vi = "exVisit\<lparr>vi_uuid := exFreshId, vi_down := Some ''down''\<rparr>"
  have d: "Decode \<lparr>lr_Username = [], lr_Password = []\<rparr> set_login (rq_body exLogin) = Inr \<lparr>lr_Username = '' ann '', lr_Password = ''h''\<rparr>"
    unfolding exLogin_def by code_simp
  have n: "TrimSpace '' ann '' = ''ann''" "text_ok ''ann''" "text_ok []" by code_simp+
  have s: "hd_sessions exAPI = Some (NewSessions 0)" "hd_store exAPI" by (simp_all add: exAPI_def NewHandler_def handlerDefaults_def)
  have l: "limiter_op k 5 (1 / 10) 1 ?vi exWorld = (Inl (RateLimit k ''down''), exWorld)" for k
    by (simp add: limiter_op_def Allow_def)
  obtain d1 where u: "UserRepo_ByUsername mem_pool ''ann'' exPg = (Inr exUser, d1)" "mp_tables d1 = mp_tables exPg"
    by (auto simp: UserRepo_ByUsername_def or_not_found_def query_row_def mem_pool_def sql_user_by_name_def n done_defs exPg_def exUser_def)
  have v: "\<not> us_Disabled exUser" "VerifyPassword (xt_bcrypt exExtern) (us_PasswordHash exUser) ''h''" "uuid_in (us_ID exUser) = Some exId" "us_ID exUser = exId"
    using exId_ok by (simp_all add: exUser_def VerifyPassword_def exExtern_def)
  have "exId \<in> us_ID ` set (tb_users (mp_tables d1))" "exFreshId \<notin> se_ID ` set (tb_sessions (mp_tables d1))"
    using exFreshId_ok(2) by (auto simp: u(2) exPg_def exUser_def)
  then obtain ex d2 where c: "Sessions_Create mem_pool (NewSessions 0) exFreshId 0 exId [] (clientIP exExtern exLogin) d1 = (Inr (exFreshId, ex), d2)"
    using v(3) exFreshId_ok(1)
    by (auto simp: Sessions_Create_def SessionRepo_Create_def exec_def mem_pool_def sql_insert_session_def exId_ok n done_defs Let_def)
  have "rq_header exLogin ''User-Agent'' = []" "vi_uuid ?vi = exFreshId" "vi_now ?vi = 0" by (simp_all add: exLogin_def exAsk_def exVisit_def)
  then show ?thesis by (simp add: login_def s d n l u v c db_op_def del: limiter_op_def)
qed


end
