(* ===== verification/StopResume.thy ===== *)
theory StopResume
  imports Accounts
begin

text \<open>
  Stopping a sandbox through the API and resuming it (\<open>stopSandbox\<close> and \<open>resumeSandbox\<close> of \<open>internal/gateway/sandbox_api.go\<close>): the
  handlers, the supervisor, the snapshots and the history together.
\<close>

section \<open>Statements of a server that is up\<close>

lemma exec_up:
  assumes "pg_laws P view" "pg_up P view" "q (pq_env P d) (view d) = Some (r, T)"
  obtains d' where "exec P q what d = (Inr (q_affected r), d')" "same_rows T (view d')"
proof -
  obtain d' where "pq_run P q d = (Inr r, d')" using assms(2,3) unfolding pg_up_def by blast
  with that pg_run_ok [OF assms(1) this] assms(3) show thesis by (auto simp: exec_def)
qed

lemma query_row_up_same:
  assumes "pg_laws P view" "pg_up P view" "q (pq_env P d) (view d) = Some (r, T)" "q_rows r = row # rows" "scan row = Inr a"
  obtains d' where "query_row P scan q d = (Inr a, d')" "same_rows T (view d')"
proof -
  obtain d' where d': "query_row P scan q d = (Inr a, d')" 
    using query_row_up [of P view q d r T row rows scan a] assms(2-5) by blast
  obtain r' T' row' rows' where "q (pq_env P d) (view d) = Some (r', T')" "q_rows r' = row' # rows'" "scan row' = Inr a" "same_rows T' (view d')"
    by (rule query_row_ok [OF assms(1) d'])
  with that d' assms(3) show thesis by auto
qed

lemma filter_find: "find Q xs = Some y \<Longrightarrow> \<exists>ys. filter Q xs = y # ys"
  by (induction xs) (auto split: if_splits)

lemma ByID_up:
  assumes "pg_laws P view" "pg_up P view" "text_ok k" "row_of (view d) k = Some r"
  obtains d' where "SandboxRepo_ByID P k d = (Inr (to_Sandbox r), d')" "same_rows (view d) (view d')"
proof -
  obtain rs where f: "filter (\<lambda>r. sr_id r = k) (tb_sandboxes (view d)) = r # rs"
    using filter_find assms(4) unfolding row_of_def by fast
  have q: "sql_sandbox_by_id k (pq_env P d) (view d) = Some (\<lparr>q_rows = map sandbox_cells (r # rs), q_affected = int (length (r # rs))\<rparr>, view d)"
    using assms(3) f by (simp add: sql_sandbox_by_id_def done_defs)
  obtain d' where "query_row P scanSandbox (sql_sandbox_by_id k) d = (Inr (to_Sandbox r), d')" "same_rows (view d) (view d')"
    by (rule query_row_up_same [where q = "sql_sandbox_by_id k" and scan = scanSandbox and a = "to_Sandbox r", OF assms(1,2) q]) auto
  then show thesis using that by (simp add: SandboxRepo_ByID_def)
qed

definition may_use :: "Principal option \<Rightarrow> sandbox_row \<Rightarrow> bool" where
  "may_use c r \<longleftrightarrow> (let p = principal_or_zero c in IsAdmin p \<or> sr_owner r = None \<or> sr_owner r = Some (pr_UserID p))"

lemma authorize_up:
  assumes "pg_laws (xt_pool X) view" "pg_up (xt_pool X) view" "text_ok k" "row_of (view (wo_db w)) k = Some r" "may_use c r"
  obtains d' where "authorizeSandbox X c k w = (Inr (to_Sandbox r), w\<lparr>wo_db := d'\<rparr>)" "same_rows (view (wo_db w)) (view d')"
proof -
  obtain d' where "SandboxRepo_ByID (xt_pool X) k (wo_db w) = (Inr (to_Sandbox r), d')" "same_rows (view (wo_db w)) (view d')"
    by (rule ByID_up [OF assms(1-4)])
  then show thesis using that assms(5)
    by (auto simp: authorizeSandbox_def db_op_def may_use_def to_Sandbox_def Let_def)
qed

lemma Create_up:
  assumes "pg_laws P view" "pg_up P view" "list_all text_ok [sn_SandboxID s, pg_Snapshot.sn_MemFilePath s, sn_StateFilePath s, sn_DiskFilePath s, sn_Label s]"
    "int4 (sn_GuestVCPUs s)" "int4 (sn_GuestMemMiB s)" "sn_SandboxID s \<in> sr_id ` set (tb_sandboxes (view d))"
    "ev_uuid (pq_env P d) \<notin> sn_ID ` set (tb_snapshots (view d))"
    and "row = s\<lparr>sn_ID := ev_uuid (pq_env P d), sn_CreatedAt := ev_now (pq_env P d)\<rparr>"
  obtains d' where "SnapshotRepo_Create P s d = (Inr row, d')" "same_rows ((view d)\<lparr>tb_snapshots := tb_snapshots (view d) @ [row]\<rparr>) (view d')"
proof -
  have q: "sql_insert_snapshot s (pq_env P d) (view d) =
      Some (\<lparr>q_rows = [snapshot_cells row], q_affected = 1\<rparr>, (view d)\<lparr>tb_snapshots := tb_snapshots (view d) @ [row]\<rparr>)"
    using assms(3-8) by (simp add: sql_insert_snapshot_def done_defs Let_def)
  obtain d' where "query_row P scanSnapshot (sql_insert_snapshot s) d = (Inr row, d')"
      "same_rows ((view d)\<lparr>tb_snapshots := tb_snapshots (view d) @ [row]\<rparr>) (view d')"
    by (rule query_row_up_same [where q = "sql_insert_snapshot s" and scan = scanSnapshot and a = "row", OF assms(1,2) q]) auto
  then show thesis using that by (simp add: SnapshotRepo_Create_def)
qed

lemma newest_first_unique:
  assumes "s \<in> set (tb_snapshots T)" "sn_SandboxID s = k"
    and "\<And>x. x \<in> set (tb_snapshots T) \<Longrightarrow> sn_SandboxID x = k \<Longrightarrow> x \<noteq> s \<Longrightarrow> sn_CreatedAt x < sn_CreatedAt s"
  shows "\<exists>xs. newest_first k T = s # xs"
proof -
  have mem: "s \<in> set (newest_first k T)" using assms(1,2) by (simp add: newest_first_def)
  obtain y ys where y: "newest_first k T = y # ys" using mem by (cases "newest_first k T") auto
  then have m: "y \<in> set (tb_snapshots T)" "sn_SandboxID y = k"
    using list.set_intros(1) [of y ys] unfolding y [symmetric] by (auto simp: newest_first_def)
  have "sorted (map (\<lambda>s. - sn_CreatedAt s) (y # ys))" using y by (metis newest_first_def sorted_sort_key)
  then have "- sn_CreatedAt y \<le> - sn_CreatedAt s" using mem y by auto
  with assms(3) [OF m] have "y = s" by (meson neg_le_iff_le not_less)
  with y show ?thesis by simp
qed

lemma Latest_up:
  assumes "pg_laws P view" "pg_up P view" "text_ok k" "s \<in> set (tb_snapshots (view d))" "sn_SandboxID s = k"
    and "\<And>x. x \<in> set (tb_snapshots (view d)) \<Longrightarrow> sn_SandboxID x = k \<Longrightarrow> x \<noteq> s \<Longrightarrow> sn_CreatedAt x < sn_CreatedAt s"
  obtains d' where "SnapshotRepo_Latest P k d = (Inr s, d')" "same_rows (view d) (view d')"
proof -
  obtain xs where n: "newest_first k (view d) = s # xs" using newest_first_unique [OF assms(4-6)] by blast
  have q: "sql_latest_snapshot k (pq_env P d) (view d) = Some (\<lparr>q_rows = [snapshot_cells s], q_affected = 1\<rparr>, view d)"
    using assms(3) n by (simp add: sql_latest_snapshot_def done_defs)
  obtain d' where "query_row P scanSnapshot (sql_latest_snapshot k) d = (Inr s, d')" "same_rows (view d) (view d')"
    by (rule query_row_up_same [where q = "sql_latest_snapshot k" and scan = scanSnapshot and a = "s", OF assms(1,2) q]) auto
  then show thesis using that by (simp add: SnapshotRepo_Latest_def)
qed

text \<open>Of a snapshot, a restore looks at the files and the sizes of the machine only.\<close>

lemma LoadSnapshot_cong:
  assumes "ss_Paths a = ss_Paths b" "ss_GuestMemMiB a = ss_GuestMemMiB b" "ss_GuestVCPUs a = ss_GuestVCPUs b"
  shows "LoadSnapshot h a sp s t = LoadSnapshot h b sp s t"
proof -
  have "restoreDisk h cfg sid a t = restoreDisk h cfg sid b t" "restoreConfig cfg sid cid a = restoreConfig cfg sid cid b" for cfg sid cid t
    by (simp_all only: restoreDisk_def restoreConfig_def assms)
  then have "restoreHost h cfg a = restoreHost h cfg b" for cfg
    unfolding restoreHost_def fun_eq_iff by (simp only:) simp
  then show ?thesis by (simp add: LoadSnapshot_launchWith)
qed

section \<open>Stopping\<close>

lemma stop_snap:
  assumes "StopWithSnapshot h eng k s t = (Inr snap, s1, t1)" "Get s k = Some i"
  shows "ss_GuestVCPUs snap = ls_VCPUs (in_Spec i)" "ss_GuestMemMiB snap = ls_MemMiB (in_Spec i)"
    "ss_Paths snap = \<lparr>sf_MemFile = Join [snapDir h eng t, ''mem.img''], sf_StateFile = Join [snapDir h eng t, ''state.img''],
       sf_DiskFile = Join [snapDir h eng t, ''disk.img'']\<rparr>"
  using assms by (auto simp: StopWithSnapshot_def Get_def CreatePausedWithDisk_def Let_def split: prod.splits sum.splits option.splits)

text \<open>What is asked of the server for a snapshot to be stored: texts it can hold, a new identifier, and a clock ahead of the older ones.\<close>

definition fresh_rows :: "'d pool \<Rightarrow> ('d \<Rightarrow> tables) \<Rightarrow> string \<Rightarrow> 'd \<Rightarrow> bool" where
  "fresh_rows P view k d \<longleftrightarrow>
     (\<forall>d'. same_rows (view d) (view d') \<longrightarrow> ev_uuid (pq_env P d') \<notin> sn_ID ` set (tb_snapshots (view d')) \<and>
        (\<forall>x \<in> set (tb_snapshots (view d')). sn_SandboxID x = k \<longrightarrow> sn_CreatedAt x < ev_now (pq_env P d')))"

definition storable :: "'d pool \<Rightarrow> ('d \<Rightarrow> tables) \<Rightarrow> string \<Rightarrow> 'd \<Rightarrow> Snapshot \<Rightarrow> bool" where
  "storable P view k d snap \<longleftrightarrow>
     list_all text_ok [k, sf_MemFile (ss_Paths snap), sf_StateFile (ss_Paths snap), sf_DiskFile (ss_Paths snap)] \<and>
     int4 (ss_GuestVCPUs snap) \<and> int4 (ss_GuestMemMiB snap) \<and> fresh_rows P view k d"

definition stopped_row :: "pgtime \<Rightarrow> sandbox_row \<Rightarrow> sandbox_row" where
  "stopped_row now r = r\<lparr>sr_status := SandboxStopped, sr_stopped := Some now, sr_cid := None\<rparr>"

lemma mark_stopped_row: "sql_mark_stopped k ev T = update_sandbox k (stopped_row (ev_now ev)) T"
  by (simp add: sql_mark_stopped_def stopped_row_def [abs_def])

definition newest :: "string \<Rightarrow> pg_Snapshot \<Rightarrow> tables \<Rightarrow> bool" where
  "newest k sn T \<longleftrightarrow> sn \<in> set (tb_snapshots T) \<and> sn_SandboxID sn = k \<and>
     (\<forall>x \<in> set (tb_snapshots T). sn_SandboxID x = k \<and> x \<noteq> sn \<longrightarrow> sn_CreatedAt x < sn_CreatedAt sn)"

lemma newest_same_rows: "same_rows T T' \<Longrightarrow> newest k sn T' = newest k sn T"
  unfolding newest_def by (simp add: same_rows_sets(4))

lemma record_up:
  assumes "pg_laws P view" "pg_up P view" "pg_ok (view d)" "row_of (view d) k = Some r" "storable P view k d snap"
    and "s = \<lparr>sn_ID = [], sn_SandboxID = k, pg_Snapshot.sn_MemFilePath = sf_MemFile (ss_Paths snap), sn_StateFilePath = sf_StateFile (ss_Paths snap),
       sn_DiskFilePath = sf_DiskFile (ss_Paths snap), sn_SizeBytes = bytes, sn_GuestVCPUs = ss_GuestVCPUs snap, sn_GuestMemMiB = ss_GuestMemMiB snap,
       sn_Label = [], sn_CreatedAt = 0\<rparr>"
  obtains n d1 d2 row now where "SnapshotRepo_Create P s d = (Inr row, d1)" "SandboxRepo_MarkStopped P k d1 = (Inr n, d2)"
    "pg_ok (view d2)" "row_of (view d2) k = Some (stopped_row now r)" "newest k row (view d2)"
    "row = s\<lparr>sn_ID := sn_ID row, sn_CreatedAt := sn_CreatedAt row\<rparr>"
proof -
  let ?row = "s\<lparr>sn_ID := ev_uuid (pq_env P d), sn_CreatedAt := ev_now (pq_env P d)\<rparr>"
  have empty: "text_ok []" by code_simp
  have "same_rows (view d) (view d)" by (simp add: same_rows_def)
  then have st: "list_all text_ok [sn_SandboxID s, pg_Snapshot.sn_MemFilePath s, sn_StateFilePath s, sn_DiskFilePath s, sn_Label s]"
    "int4 (sn_GuestVCPUs s)" "int4 (sn_GuestMemMiB s)" "ev_uuid (pq_env P d) \<notin> sn_ID ` set (tb_snapshots (view d))"
    "\<forall>x \<in> set (tb_snapshots (view d)). sn_SandboxID x = k \<longrightarrow> sn_CreatedAt x < ev_now (pq_env P d)" "text_ok k"
    using assms(5) empty by (simp_all add: storable_def fresh_rows_def assms(6))
  have mem: "sn_SandboxID s \<in> sr_id ` set (tb_sandboxes (view d))" using assms(3,4,6) by (auto simp: row_of_Some)
  obtain d1 where d1: "SnapshotRepo_Create P s d = (Inr ?row, d1)" "same_rows ((view d)\<lparr>tb_snapshots := tb_snapshots (view d) @ [?row]\<rparr>) (view d1)"
    by (rule Create_up [OF assms(1,2) st(1-3) mem st(4) refl])
  have ok1: "pg_ok (view d1)"
    using keeps_query_row [OF assms(1,3) keeps_rest(1), of scanSnapshot s] d1(1) by (simp add: SnapshotRepo_Create_def)
  have "row_of ((view d)\<lparr>tb_snapshots := tb_snapshots (view d) @ [?row]\<rparr>) k = Some r" using assms(4) by (simp add: row_of_def)
  then have r1: "row_of (view d1) k = Some r" using row_of_same_rows [OF _ d1(2)] pg_ok_same_rows [OF d1(2)] ok1 by simp
  let ?f = "stopped_row (ev_now (pq_env P d1))"
  have q: "sql_mark_stopped k (pq_env P d1) (view d1) = Some (\<lparr>q_rows = [], q_affected = int (length (filter (\<lambda>r. sr_id r = k) (tb_sandboxes (view d1))))\<rparr>,
      (view d1)\<lparr>tb_sandboxes := map (\<lambda>r. if sr_id r = k then ?f r else r) (tb_sandboxes (view d1))\<rparr>)"
    using st(6) by (simp add: mark_stopped_row update_sandbox_def done_defs)
  obtain n d2 where d2: "exec P (sql_mark_stopped k) ''pg: mark stopped'' d1 = (Inr n, d2)"
    "same_rows ((view d1)\<lparr>tb_sandboxes := map (\<lambda>r. if sr_id r = k then ?f r else r) (tb_sandboxes (view d1))\<rparr>) (view d2)"
    by (rule exec_up [where q = "sql_mark_stopped k", OF assms(1,2) q])
  have "pg_ok (view d2)" using keeps_exec [OF assms(1) ok1 keeps_sandboxes(2), of k "''pg: mark stopped''"] d2(1) by simp
  moreover have "row_of (view d2) k = Some (?f r)"
    using exec_update_row [OF assms(1) ok1 keeps_sandboxes(2) d2(1), of k ?f] r1 by (simp add: mark_stopped_row) (simp add: stopped_row_def)
  moreover have "newest k ?row (view d2)"
    using same_rows_sets(4) [OF d1(2)] same_rows_sets(4) [OF d2(2)] st(5) by (auto simp: newest_def assms(6))
  ultimately show thesis using that [OF d1(1), of _ d2] d2(1) by (simp add: SandboxRepo_MarkStopped_def)
qed

lemma audit_history:
  assumes "pg_laws (xt_pool X) view" "pg_ok (view (wo_db w))"
  shows "pg_ok (view (wo_db (audit X h uid action target detail w)))" "row_of (view (wo_db (audit X h uid action target detail w))) = row_of (view (wo_db w))"
    "newest k sn (view (wo_db (audit X h uid action target detail w))) = newest k sn (view (wo_db w))"
proof -
  note a = audit_rows [OF assms(1), of w h uid action target detail]
  show "pg_ok (view (wo_db (audit X h uid action target detail w)))" by (rule audit_pg_ok [OF assms])
  have "pg_ok ((view (wo_db w))\<lparr>tb_audit := []\<rparr>)" using assms(2) by (simp add: pg_ok_def)
  from row_of_same_rows [OF this a] show "row_of (view (wo_db (audit X h uid action target detail w))) = row_of (view (wo_db w))"
    by (simp add: row_of_def fun_eq_iff)
  from newest_same_rows [OF a] show "newest k sn (view (wo_db (audit X h uid action target detail w))) = newest k sn (view (wo_db w))"
    by (simp add: newest_def)
qed

lemma stop_api:
  assumes "pg_laws (xt_pool X) view" "pg_up (xt_pool X) view" "pg_ok (view (wo_db w))" "hd_db h" "hd_sup h" "hd_snap h = Some eng"
    "row_of (view (wo_db w)) k = Some r" "may_use c r" "Get (wo_sup w) k \<noteq> None"
    "StopWithSnapshot (xt_host X) eng k (wo_sup w) (wo_trace w) = (Inr snap, s1, t1)" "storable (xt_pool X) view k (wo_db w) snap"
  obtains resp w1 sn now where "stopSandbox X h c k vi w = (resp, w1)" "hr_Status resp = 200" "wo_sup w1 = s1" "wo_trace w1 = t1"
    "pg_ok (view (wo_db w1))" "row_of (view (wo_db w1)) k = Some (stopped_row now r)" "newest k sn (view (wo_db w1))"
    "pg_Snapshot.sn_MemFilePath sn = sf_MemFile (ss_Paths snap)" "sn_StateFilePath sn = sf_StateFile (ss_Paths snap)"
    "sn_DiskFilePath sn = sf_DiskFile (ss_Paths snap)" "sn_GuestVCPUs sn = ss_GuestVCPUs snap" "sn_GuestMemMiB sn = ss_GuestMemMiB snap"
proof -
  have k: "text_ok k" using assms(11) by (simp add: storable_def)
  obtain d0 where a: "authorizeSandbox X c k w = (Inr (to_Sandbox r), w\<lparr>wo_db := d0\<rparr>)" "same_rows (view (wo_db w)) (view d0)"
    by (rule authorize_up [OF assms(1,2) k assms(7,8)])
  have ok0: "pg_ok (view d0)" and r0: "row_of (view d0) k = Some r"
    using pg_ok_same_rows [OF a(2)] row_of_same_rows [OF assms(3) a(2)] assms(3,7) by simp_all
  have st: "storable (xt_pool X) view k d0 snap" using assms(11) a(2) same_rows_trans unfolding storable_def fresh_rows_def by blast
  let ?s = "\<lparr>sn_ID = [], sn_SandboxID = k, pg_Snapshot.sn_MemFilePath = sf_MemFile (ss_Paths snap), sn_StateFilePath = sf_StateFile (ss_Paths snap),
       sn_DiskFilePath = sf_DiskFile (ss_Paths snap), sn_SizeBytes = total_size vi [sf_MemFile (ss_Paths snap), sf_StateFile (ss_Paths snap), sf_DiskFile (ss_Paths snap)],
       sn_GuestVCPUs = ss_GuestVCPUs snap, sn_GuestMemMiB = ss_GuestMemMiB snap, sn_Label = [], sn_CreatedAt = 0\<rparr>"
  obtain n d1 d2 row now where d: "SnapshotRepo_Create (xt_pool X) ?s d0 = (Inr row, d1)" "SandboxRepo_MarkStopped (xt_pool X) k d1 = (Inr n, d2)"
    "pg_ok (view d2)" "row_of (view d2) k = Some (stopped_row now r)" "newest k row (view d2)" "row = ?s\<lparr>sn_ID := sn_ID row, sn_CreatedAt := sn_CreatedAt row\<rparr>"
    by (rule record_up [OF assms(1,2) ok0 r0 st refl])
  let ?w4 = "w\<lparr>wo_sup := s1, wo_trace := t1, wo_db := d2\<rparr>"
  let ?w5 = "audit X h (pr_UserID (principal_or_zero c)) ''sandbox.stop'' k [(''snapshot'', ss_ID snap)] ?w4"
  let ?resp = "writeJSON 200 (JObj [(''id'', JStr k), (''snapshot'', JStr (ss_ID snap)), (''status'', JStr ''stopped'')])"
  have run: "stopSandbox X h c k vi w = (?resp, ?w5)"
    using assms(4,5,6,9,10) a(1) d(1,2) by (auto simp: stopSandbox_def sup_op_def db_op_def Let_def)
  have h: "pg_ok (view (wo_db ?w4))" using d(3) by simp
  have row: "pg_Snapshot.sn_MemFilePath row = sf_MemFile (ss_Paths snap)" "sn_StateFilePath row = sf_StateFile (ss_Paths snap)"
    "sn_DiskFilePath row = sf_DiskFile (ss_Paths snap)" "sn_GuestVCPUs row = ss_GuestVCPUs snap" "sn_GuestMemMiB row = ss_GuestMemMiB snap"
    by (subst d(6), simp)+
  show thesis
    by (rule that [OF run _ _ _ _ _ _ row, of now]) (simp_all add: audit_history [OF assms(1) h] d(3-5) writeJSON_def)
qed

section \<open>Resuming\<close>

definition spec_of :: "string \<Rightarrow> sandbox_row \<Rightarrow> LaunchSpec" where
  "spec_of k r = \<lparr>ls_ID = k, ls_VCPUs = sr_vcpus r, ls_MemMiB = sr_mem r, ls_CPUPercent = sr_cpu r, ls_PidsMax = sr_pids r\<rparr>"

definition row_fits :: "sandbox_row \<Rightarrow> bool" where
  "row_fits r \<longleftrightarrow> text_ok (sr_name r) \<and> list_all int4 [sr_vcpus r, sr_mem r, sr_cpu r, sr_pids r]"

lemma Upsert_up:
  assumes "pg_laws P view" "pg_up P view" "pg_ok (view d)" "row_of (view d) k = Some r" "text_ok k" "row_fits r"
    and "e = history_entry k (sb_OwnerID (to_Sandbox r)) (sr_name r) (sr_vcpus r) (sr_mem r) (sr_cpu r) (sr_pids r) cid"
  obtains n d' now where "SandboxRepo_Upsert P e d = (Inr n, d')" "pg_ok (view d')" "row_of (view d') k = Some (upsert_row now e (Some r))"
proof -
  have run: "text_ok SandboxRunning" by code_simp
  have owner: "x \<noteq> [] \<and> uuid_in x \<noteq> None" if "sr_owner r = Some x" for x
  proof -
    have "r \<in> set (tb_sandboxes (view d))" using assms(3,4) by (simp add: row_of_Some)
    then have "pred_option (\<lambda>k. k \<in> us_ID ` set (tb_users (view d))) (sr_owner r)" using assms(3) by (simp add: pg_ok_def list_all_iff)
    then have "uuid_in x = Some x" using that pg_ok_user_id [OF assms(3)] by auto
    moreover have "uuid_in [] = None" by code_simp
    ultimately show ?thesis by auto
  qed
  have "sql_upsert_sandbox e (pq_env P d) (view d) \<noteq> None"
    using assms(5,6) run owner assms(3,4)
    by (auto simp: sql_upsert_sandbox_def assms(7) history_entry_def nullStr_def to_Sandbox_def row_fits_def done_defs row_of_Some split: option.splits)
  then obtain q T where q: "sql_upsert_sandbox e (pq_env P d) (view d) = Some (q, T)" by auto
  obtain n d' where d': "exec P (sql_upsert_sandbox e) ''pg: upsert sandbox'' d = (Inr n, d')" "same_rows T (view d')"
    by (rule exec_up [where q = "sql_upsert_sandbox e", OF assms(1,2) q])
  have "pg_ok (view d')" using keeps_exec [OF assms(1,3) keeps_sandboxes(1), of e "''pg: upsert sandbox''"] d'(1) by simp
  moreover have "sb_ID e = k" by (simp add: assms(7) history_entry_def)
  then have "row_of (view d') k = Some (upsert_row (ev_now (pq_env P d)) e (Some r))"
    using row_of_upsert [OF q] row_of_same_rows [OF _ d'(2)] pg_ok_same_rows [OF d'(2)] calculation assms(4) by simp
  ultimately show thesis using that d'(1) by (simp add: SandboxRepo_Upsert_def)
qed

lemma resume_api:
  assumes "pg_laws (xt_pool X) view" "pg_up (xt_pool X) view" "pg_ok (view (wo_db w))" "hd_db h" "hd_sup h" "hd_snap h = Some eng"
    "row_of (view (wo_db w)) k = Some r" "may_use c r" "text_ok k" "row_fits r" "Get (wo_sup w) k = None" "newest k sn (view (wo_db w))"
    "LoadSnapshot (xt_host X) snap (spec_of k r) (wo_sup w) (wo_trace w) = (Inr j, s1, t1)"
    "ss_Paths snap = \<lparr>sf_MemFile = pg_Snapshot.sn_MemFilePath sn, sf_StateFile = sn_StateFilePath sn, sf_DiskFile = sn_DiskFilePath sn\<rparr>"
    "ss_GuestMemMiB snap = sn_GuestMemMiB sn" "ss_GuestVCPUs snap = sn_GuestVCPUs sn"
  obtains resp w1 r1 where "resumeSandbox X h c k w = (resp, w1)" "hr_Status resp = 200" "hr_Body resp = Some (instanceToView j)" "wo_sup w1 = s1" "wo_trace w1 = t1"
    "pg_ok (view (wo_db w1))" "row_of (view (wo_db w1)) k = Some r1" "sr_status r1 = SandboxRunning" "sr_cid r1 = nullInt64 (uint (in_CID j))"
proof -
  obtain d0 where a: "authorizeSandbox X c k w = (Inr (to_Sandbox r), w\<lparr>wo_db := d0\<rparr>)" "same_rows (view (wo_db w)) (view d0)"
    by (rule authorize_up [OF assms(1,2,9,7,8)])
  have n0: "newest k sn (view d0)" using newest_same_rows [OF a(2)] assms(12) by simp
  obtain d1 where l: "SnapshotRepo_Latest (xt_pool X) k d0 = (Inr sn, d1)" "same_rows (view d0) (view d1)"
    by (rule Latest_up [OF assms(1,2,9), of sn d0]) (use n0 in \<open>auto simp: newest_def\<close>)
  have ok1: "pg_ok (view d1)" and r1: "row_of (view d1) k = Some r"
    using pg_ok_same_rows [OF a(2)] pg_ok_same_rows [OF l(2)] row_of_same_rows [OF assms(3) a(2)] row_of_same_rows [OF _ l(2)] assms(3,7) by simp_all
  let ?e = "history_entry k (sb_OwnerID (to_Sandbox r)) (sr_name r) (sr_vcpus r) (sr_mem r) (sr_cpu r) (sr_pids r) (uint (in_CID j))"
  obtain n d2 now where u: "SandboxRepo_Upsert (xt_pool X) ?e d1 = (Inr n, d2)" "pg_ok (view d2)" "row_of (view d2) k = Some (upsert_row now ?e (Some r))"
    by (rule Upsert_up [OF assms(1,2) ok1 r1 assms(9,10) refl])
  let ?os = "\<lparr>ss_ID = sn_ID sn, ss_SandboxID = k, ss_Paths = \<lparr>sf_MemFile = pg_Snapshot.sn_MemFilePath sn, sf_StateFile = sn_StateFilePath sn, sf_DiskFile = sn_DiskFilePath sn\<rparr>,
    ss_CreatedAt = ''0001-01-01T00:00:00Z'', ss_GuestMemMiB = sn_GuestMemMiB sn, ss_GuestVCPUs = sn_GuestVCPUs sn\<rparr>"
  have load: "LoadSnapshot (xt_host X) ?os (spec_of k r) (wo_sup w) (wo_trace w) = (Inr j, s1, t1)"
    using LoadSnapshot_cong [of ?os snap] assms(13-16) by simp
  let ?w4 = "w\<lparr>wo_sup := s1, wo_trace := t1, wo_db := d2\<rparr>"
  let ?w5 = "audit X h (pr_UserID (principal_or_zero c)) ''sandbox.resume'' k [(''snapshot'', sn_ID sn)] ?w4"
  have sp: "\<lparr>ls_ID = k, ls_VCPUs = sb_VCPUs (to_Sandbox r), ls_MemMiB = sb_MemMiB (to_Sandbox r), ls_CPUPercent = sb_CPUPercent (to_Sandbox r), ls_PidsMax = sb_PidsMax (to_Sandbox r)\<rparr> = spec_of k r"
    "sb_Name (to_Sandbox r) = sr_name r" "sb_VCPUs (to_Sandbox r) = sr_vcpus r" "sb_MemMiB (to_Sandbox r) = sr_mem r" "sb_CPUPercent (to_Sandbox r) = sr_cpu r" "sb_PidsMax (to_Sandbox r) = sr_pids r"
    by (simp_all add: spec_of_def to_Sandbox_def)
  have run: "resumeSandbox X h c k w = (writeJSON 200 (instanceToView j), ?w5)"
    using assms(4,5,6,11) a(1) l(1) u(1) load
    unfolding resumeSandbox_def by (simp add: sup_op_def db_op_def Let_def sp [unfolded spec_of_def] spec_of_def)
  have h: "pg_ok (view (wo_db ?w4))" using u(2) by simp
  have r2: "sr_status (upsert_row now ?e (Some r)) = SandboxRunning" "sr_cid (upsert_row now ?e (Some r)) = nullInt64 (uint (in_CID j))"
    by (simp_all add: upsert_row_def history_entry_def)
  show thesis
    by (rule that [OF run _ _ _ _ _ _ r2]) (simp_all add: audit_history [OF assms(1) h] u writeJSON_def)
qed

section \<open>The round trip\<close>

text \<open>
  C8: A sandbox stopped through the API comes back. On a host that refuses nothing and with a database that is up: a caller who may use the
  sandbox stops it and resumes it, and both requests answer 200. In between the sandbox is not tracked and its row says stopped; after, it is tracked
  under its id with the specification it had, every other sandbox is as it was, its row says running, the supervisor's
  invariant and the limits of the host hold, and its disk went into the snapshot and came back from the very same file.
\<close>

theorem api_stop_resume:
  assumes "pg_laws (xt_pool X) view" "pg_up (xt_pool X) view" "pg_ok (view (wo_db w))"
    and "generous (xt_host X)" "sup_ok (wo_sup w)" "limits_ok (wo_sup w)" "memTotal (wo_sup w) < 2 ^ 63"
    and "hd_db h" "hd_sup h" "hd_snap h = Some eng"
    and "Get (wo_sup w) k = Some i" "k \<noteq> []" "row_of (view (wo_db w)) k = Some r" "may_use c r"
    and "in_Spec i = spec_of k r" "applySpecDefaults (in_Spec i) = in_Spec i" "row_fits r"
    and "list_all text_ok (k # map (\<lambda>f. Join [snapDir (xt_host X) eng (wo_trace w), f]) [''mem.img'', ''state.img'', ''disk.img''])"
    and "fresh_rows (xt_pool X) view k (wo_db w)"
  shows "\<exists>resp1 w1 resp2 w2 j disk. stopSandbox X h c k vi w = (resp1, w1) \<and> hr_Status resp1 = 200 \<and>
      Get (wo_sup w1) k = None \<and> map_option sr_status (row_of (view (wo_db w1)) k) = Some SandboxStopped \<and>
      resumeSandbox X h c k w1 = (resp2, w2) \<and> hr_Status resp2 = 200 \<and>
      Get (wo_sup w2) k = Some j \<and> in_Spec j = in_Spec i \<and> (\<forall>k'. k' \<noteq> k \<longrightarrow> Get (wo_sup w2) k' = Get (wo_sup w) k') \<and>
      map_option sr_status (row_of (view (wo_db w2)) k) = Some SandboxRunning \<and>
      sup_ok (wo_sup w2) \<and> limits_ok (wo_sup w2) \<and> pg_ok (view (wo_db w2)) \<and>
      (CopyData (Join [oc_StateDir (sv_cfg (wo_sup w)), k, ''rootfs.ext4'']) disk, None) \<in> set (wo_trace w1) \<and>
      (CopyData disk (Join [Join [oc_StateDir (sv_cfg (wo_sup w)), k], ''rootfs.ext4'']), None) \<in> set (wo_trace w2)"
proof -
  from stop_resume_roundtrip [OF assms(4-7,11,16,12), of eng "wo_trace w"]
  obtain snap s1 u j s2 v where rt: "StopWithSnapshot (xt_host X) eng k (wo_sup w) (wo_trace w) = (Inr snap, s1, wo_trace w @ u)" "Get s1 k = None"
    "LoadSnapshot (xt_host X) snap (in_Spec i) s1 (wo_trace w @ u) = (Inr j, s2, wo_trace w @ u @ v)"
    "Get s2 k = Some j" "in_Spec j = in_Spec i" "\<forall>k'. k' \<noteq> k \<longrightarrow> Get s2 k' = Get (wo_sup w) k'" "sup_ok s2" "limits_ok s2"
    "(CopyData (Join [oc_StateDir (sv_cfg (wo_sup w)), k, ''rootfs.ext4'']) (sf_DiskFile (ss_Paths snap)), None) \<in> set u"
    "(CopyData (sf_DiskFile (ss_Paths snap)) (Join [Join [oc_StateDir (sv_cfg (wo_sup w)), k], ''rootfs.ext4'']), None) \<in> set v"
    by (elim exE conjE) (rule that, assumption+)
  note sn = stop_snap [OF rt(1) assms(11)]
  have sto: "storable (xt_pool X) view k (wo_db w) snap"
    using assms(17-19) by (simp add: storable_def sn assms(15) spec_of_def row_fits_def)
  have live: "Get (wo_sup w) k \<noteq> None" using assms(11) by simp
  obtain resp1 w1 row now where st: "stopSandbox X h c k vi w = (resp1, w1)" "hr_Status resp1 = 200" "wo_sup w1 = s1" "wo_trace w1 = wo_trace w @ u"
    "pg_ok (view (wo_db w1))" "row_of (view (wo_db w1)) k = Some (stopped_row now r)" "newest k row (view (wo_db w1))"
    and row: "pg_Snapshot.sn_MemFilePath row = sf_MemFile (ss_Paths snap)" "sn_StateFilePath row = sf_StateFile (ss_Paths snap)"
    "sn_DiskFilePath row = sf_DiskFile (ss_Paths snap)" "sn_GuestVCPUs row = ss_GuestVCPUs snap" "sn_GuestMemMiB row = ss_GuestMemMiB snap"
    by (rule stop_api [OF assms(1-3,8-10,13,14) live rt(1) sto, of vi])
  have r1: "may_use c (stopped_row now r)" "text_ok k" "row_fits (stopped_row now r)" "spec_of k (stopped_row now r) = in_Spec i" "sr_status (stopped_row now r) = SandboxStopped"
    using assms(14,15,17,18) by (simp_all add: may_use_def row_fits_def spec_of_def stopped_row_def)
  have load: "LoadSnapshot (xt_host X) snap (spec_of k (stopped_row now r)) (wo_sup w1) (wo_trace w1) = (Inr j, s2, wo_trace w @ u @ v)"
    using rt(3) r1(4) st(3,4) by simp
  have paths: "ss_Paths snap = \<lparr>sf_MemFile = pg_Snapshot.sn_MemFilePath row, sf_StateFile = sn_StateFilePath row, sf_DiskFile = sn_DiskFilePath row\<rparr>"
    using row by simp
  obtain resp2 w2 r2 where re: "resumeSandbox X h c k w1 = (resp2, w2)" "hr_Status resp2 = 200" "wo_sup w2 = s2" "wo_trace w2 = wo_trace w @ u @ v"
    "pg_ok (view (wo_db w2))" "row_of (view (wo_db w2)) k = Some r2" "sr_status r2 = SandboxRunning"
    by (rule resume_api [OF assms(1,2) st(5) assms(8-10) st(6) r1(1-3) _ st(7) load paths row(5,4) [symmetric]]) (use rt(2) st(3) in simp)
  show ?thesis
    using st(1-4,6) re rt(2,4-10) r1(5) 
    by (intro exI [of _ resp1] exI [of _ w1] exI [of _ resp2] exI [of _ w2] exI [of _ j] exI [of _ "sf_DiskFile (ss_Paths snap)"]) simp
qed

text \<open>The example: \<open>ann\<close> stops and resumes the sandbox launched on the example supervisor.\<close>

definition exRunRow :: sandbox_row where
  "exRunRow = exRow\<lparr>sr_status := SandboxRunning, sr_vcpus := ls_VCPUs (applySpecDefaults exSpec), sr_mem := ls_MemMiB (applySpecDefaults exSpec),
     sr_cpu := ls_CPUPercent (applySpecDefaults exSpec), sr_pids := ls_PidsMax (applySpecDefaults exSpec)\<rparr>"

definition exRunPg :: mem_pg where
  "exRunPg = exPg\<lparr>mp_tables := (mp_tables exPg)\<lparr>tb_sandboxes := [exRunRow]\<rparr>\<rparr>"

theorem api_stop_resume_witness:
  "\<exists>i s t resp1 w1 resp2 w2 j. Launch exHost None exSpec exSup [] = (Inr i, s, t) \<and>
     stopSandbox exExtern exAPI (Some (principal_of exUser)) ''sb-1'' exVisit (exWorld\<lparr>wo_sup := s, wo_trace := t, wo_db := exRunPg\<rparr>) = (resp1, w1) \<and>
     hr_Status resp1 = 200 \<and> Get (wo_sup w1) ''sb-1'' = None \<and>
     resumeSandbox exExtern exAPI (Some (principal_of exUser)) ''sb-1'' w1 = (resp2, w2) \<and> hr_Status resp2 = 200 \<and>
     Get (wo_sup w2) ''sb-1'' = Some j \<and> in_Spec j = in_Spec i"
proof -
  obtain i s t where l: "Launch exHost None exSpec exSup [] = (Inr i, s, t)" "sup_ok s" "limits_ok s" "Get s ''sb-1'' = Some i"
    "in_Spec i = applySpecDefaults exSpec" "memTotal s = 512"
    using exRunning by blast
  let ?w = "exWorld\<lparr>wo_sup := s, wo_trace := t, wo_db := exRunPg\<rparr>"
  have x: "xt_host exExtern = exHost" by (simp add: exExtern_def)
  have p: "pg_laws (xt_pool exExtern) mp_tables" "pg_up (xt_pool exExtern) mp_tables" using mem_pool_laws mem_pool_up by simp_all
  have ok: "pg_ok (mp_tables (wo_db ?w))"
    by (simp add: exRunPg_def exRunRow_def exPg_def pg_ok_def no_rows_def exUser_def exRow_def exId_ok)
  have g: "generous (xt_host exExtern)" using exGenerous x by simp
  have s: "sup_ok (wo_sup ?w)" "limits_ok (wo_sup ?w)" "memTotal (wo_sup ?w) < 2 ^ 63" "Get (wo_sup ?w) ''sb-1'' = Some i" using l by simp_all
  have r: "row_of (mp_tables (wo_db ?w)) ''sb-1'' = Some exRunRow" by (simp add: row_of_def exRunPg_def exRunRow_def exRow_def)
  have m: "may_use (Some (principal_of exUser)) exRunRow"
    by (simp add: may_use_def principal_or_zero_def principal_of_def exRunRow_def exRow_def exUser_def)
  have sp: "in_Spec i = spec_of ''sb-1'' exRunRow" "applySpecDefaults (in_Spec i) = in_Spec i"
    by (simp_all add: l(5) spec_of_def exRunRow_def applySpecDefaults_def exSpec_def)
  have f: "row_fits exRunRow"
  proof -
    have "text_ok ''mine''" by code_simp
    then show ?thesis by (simp add: row_fits_def exRunRow_def exRow_def applySpecDefaults_def exSpec_def int4_def)
  qed
  have d: "snapDir exHost exEngine u = ''/srv/snapshots/snap-ab''" for u
  proof -
    have "Join [''/srv/snapshots'', ''snap-ab''] = ''/srv/snapshots/snap-ab''" by code_simp
    then show ?thesis by (simp add: snapDir_def exEngine_def exHost_def)
  qed
  have j: "Join [''/srv/snapshots/snap-ab'', ''mem.img''] = ''/srv/snapshots/snap-ab/mem.img''"
    "Join [''/srv/snapshots/snap-ab'', ''state.img''] = ''/srv/snapshots/snap-ab/state.img''"
    "Join [''/srv/snapshots/snap-ab'', ''disk.img''] = ''/srv/snapshots/snap-ab/disk.img''" by code_simp+
  have t: "list_all text_ok (''sb-1'' # map (\<lambda>f. Join [''/srv/snapshots/snap-ab'', f]) [''mem.img'', ''state.img'', ''disk.img''])"
    by (simp add: j text_ok_def code_def ascii_valid_utf8)
  have n: "fresh_rows (xt_pool exExtern) mp_tables ''sb-1'' (wo_db ?w)"
    by (auto simp: fresh_rows_def exRunPg_def exPg_def no_rows_def same_rows_def)
  have a: "hd_db exAPI" "hd_sup exAPI" "hd_snap exAPI = Some exEngine" by simp_all
  have t': "list_all text_ok (''sb-1'' # map (\<lambda>f. Join [snapDir (xt_host exExtern) exEngine (wo_trace ?w), f]) [''mem.img'', ''state.img'', ''disk.img''])"
    unfolding x d by (rule t)
  from api_stop_resume [OF p ok g s(1-3) a s(4) list.distinct(2) r m sp f t' n, of exVisit] show ?thesis
    by (elim exE conjE) (intro exI conjI, rule l(1), assumption+)
qed

section \<open>A snapshot that is not recorded\<close>

text \<open>
  When the database does not take the row of the snapshot, the request is still answered 200 with status \<open>stopped\<close>, although the
  machine is gone and there is nothing to resume from.
\<close>

theorem stop_hides_lost_snapshot:
  assumes "hd_db h" "hd_sup h" "hd_snap h = Some eng" "authorizeSandbox X c k w = (Inr sb, w0)" "Get (wo_sup w0) k = Some i"
    "StopWithSnapshot (xt_host X) eng k (wo_sup w0) (wo_trace w0) = (Inr snap, s1, t1)"
    "\<And>s. SnapshotRepo_Create (xt_pool X) s (wo_db w0) = (Inl e, d1)"
  shows "\<exists>resp w1. stopSandbox X h c k vi w = (resp, w1) \<and> hr_Status resp = 200 \<and> Get (wo_sup w1) k = None"
proof -
  have "Get s1 k = None"
    using assms(5,6) by (auto simp: StopWithSnapshot_def Get_def Terminate_def map_of_inst_delete split: option.splits prod.splits sum.splits)
  then show ?thesis using assms by (auto simp: stopSandbox_def sup_op_def db_op_def Let_def writeJSON_def case_prod_beta)
qed

end
