(* ===== verification/Spec2Isabelle.thy ===== *)
theory Spec2Isabelle
  imports AgentMain VsockClient Launches WarmPool Gate StateStore PgStore Auth Terminal Http Gateway Requests ControlPlane Accounts StopResume
begin

text \<open>
  This library models the control plane of the sandbox platform and proves what makes it correct. The program
  is a Go daemon (\<open>cmd/controlplane\<close>) that runs untrusted scripts in Firecracker microVMs: the orchestrator
  boots, snapshots, pools and reclaims microVMs; each VM runs a guest agent (\<open>cmd/guest-agent\<close>) that
  executes one script per connection; the gateway speaks to the agent over vsock with the wire
  protocol; a human-in-the-loop gate classifies scripts and holds sensitive ones for approval; Redis keeps live state and
  Postgres accounts, login sessions, the history of sandboxes, transcripts and an audit log; operators use a REST and WebSocket API.

  \<^bold>\<open>Theories.\<close> Each theory names its operations as the Go code does.

  \<^item> \<open>Prelude\<close>, \<open>Json\<close>, \<open>Regex\<close>, \<open>Paths\<close>, \<open>Redis\<close>: what the code uses of Go's standard library (64-bit arithmetic,
    \<open>strconv\<close>, \<open>encoding/json\<close> on bytes with UTF-8 repair, RE2 regular expressions, \<open>path/filepath\<close>) and the
    Redis server as a parameter with its documented laws (\<open>redis_laws\<close>) and an in-memory instance of them.
  \<^item> \<open>Protocol\<close> (\<open>internal/protocol/protocol.go\<close>): length-prefixed JSON frames. Round trips of requests and of
    streams of frames, the frame cap on both sides, refusal of truncated frames.
  \<^item> \<open>GuestAgent\<close> (\<open>cmd/guest-agent/guest_agent.go\<close>): a connection from its request to its terminal frame, with the
    command handed to the kernel as a value and the kernel's outcome as a parameter. Well-formed
    replies, exact output under the cap, capped timeouts, unprivileged commands, the environment.
  \<^item> \<open>AgentMain\<close> (the same file): the process of the agent as a step relation of accept loop, handlers and signal; it
    drains every accepted connection, and can always stop when told to.
  \<^item> \<open>VsockClient\<close> (\<open>internal/gateway/vsockclient.go\<close>): handshake, retries with backoff, the reading loop of
    \<open>Exec\<close>, \<open>Ping\<close>. The theorem of the present theory composes client, protocol and agent.
  \<^item> \<open>Sandbox\<close>, \<open>CidAlloc\<close>, \<open>Supervisor\<close>, \<open>Launches\<close> (\<open>internal/sandbox/record.go\<close>,
    \<open>internal/orchestrator/orchestrator.go\<close>): the supervisor's state is a record; what it asks of the host (files,
    cgroups, processes, VMM, recorder) is a trace of operations with the answers of a host parameter. The
    invariant of the bookkeeping, the effect and the roll back of a launch, limits before start, admission,
    termination, reconciliation after a restart, reaping; \<open>Launches\<close> is the step relation of overlapping
    launches and terminations, which the sequential operations refine. The locale \<open>launcher\<close> states what a way to boot a
    machine promises; \<open>Launch\<close> and \<open>LoadSnapshot\<close> are its interpretations.
  \<^item> \<open>Snapshots\<close> (\<open>snapshot.go\<close>) and \<open>WarmPool\<close> (\<open>pool.go\<close>): stop with a snapshot, restore, overlays; the pool as
    operations and as a step relation with the refill goroutine.
  \<^item> \<open>Classifier\<close> and \<open>Gate\<close> (\<open>internal/hitl/gate.go\<close>): the rules with the patterns of the source, matched as RE2
    does; the life of an approval in Redis.
  \<^item> \<open>StateStore\<close> (\<open>internal/state/redis.go\<close>): records, heartbeats, sessions and the token bucket.
  \<^item> \<open>PgServer\<close> and \<open>PgStore\<close> (\<open>internal/store/pg\<close>): Postgres as a parameter with its documented behaviour
    (\<open>pg_laws\<close>: a statement that succeeds has its effect, one that fails has all of it or none) and an in-memory instance; each SQL text of the
    repositories as a function on the tables. The constraints of the schema are an invariant, sessions resolve to
    exactly the enabled owner, the history refines a map, transcripts replay, migrations run once and in order.
  \<^item> \<open>Auth\<close> (\<open>internal/auth/auth.go\<close>) and \<open>Http\<close>: passwords, sessions, cookies and principals; requests, responses, the
    method and path matching of \<open>net/http\<close> and JSON bodies.
  \<^item> \<open>Terminal\<close> (\<open>internal/gateway/proxy.go\<close>): a WebSocket session turn by turn. A sensitive script runs only after its
    approval; the transcript records what was shown; what the reader goroutine can notice during a turn.
  \<^item> \<open>Gateway\<close> (\<open>api.go\<close>, \<open>auth_api.go\<close>, \<open>sandbox_api.go\<close>) and \<open>Requests\<close>: every handler as a step on the world
    (supervisor, host trace, database, Redis, buckets). The locale \<open>world_invariant\<close> proves once that the handlers keep what the components
    keep; access needs credentials, and the sandboxes of others are protected.
  \<^item> \<open>Accounts\<close> and \<open>StopResume\<close>: what a login needs and leaves; a sandbox stopped through the API and resumed, across handlers,
    supervisor, snapshots and history.
  \<^item> \<open>ControlPlane\<close> (\<open>cmd/controlplane/main.go\<close>): configuration, start-up, the loops and shutdown; the relation \<open>platform\<close>
    interleaves requests with the loops. Consistency from start to stop, what start-up wires, the first account, shutdown.

  \<^bold>\<open>Bounds and fuel.\<close> The JSON parser and the regular-expression parser recurse on a fuel that is a function of the
  input's length; round-trip and compilation theorems show that it is enough. The matcher of a
  starred expression iterates at most as often as there is input left, which the equivalence with the
  declarative semantics justifies. Loops over the network, polls and retries recurse on data that
  shrinks (the bytes left, the attempts left, the list of polls) and are total functions. Integers are unbounded in
  the model with Go's wrap-around written out (\<open>wrap64\<close>) where the code multiplies or adds values from
  outside; CIDs are 32-bit words.

  \<^bold>\<open>Parameters.\<close> The kernel and Firecracker (\<open>host\<close>, \<open>outcome\<close>), Redis, Postgres, bcrypt, clocks, random sources, the
  lower-casing of non-ASCII letters, the parsing of addresses and of origins, how times are written, the
  WebSocket upgrade. Theorems hold for every value of a parameter, or name the documented behaviour they need as a hypothesis. What the
  supervisor's recorder writes is an operation asked of the host; in the relation \<open>platform\<close> the contents of Redis may therefore change between any two steps.

  \<^bold>\<open>Granularity.\<close> In the relation \<open>platform\<close> a request and a tick of a loop are one step each. What happens when operations overlap is the
  subject of finer step relations: launches and terminations in \<open>Launches\<close>, the pool and its refill goroutine in \<open>WarmPool\<close>,
  the reader goroutine in \<open>Terminal\<close>, the connections of the agent in \<open>AgentMain\<close>.

  \<^bold>\<open>Not modelled.\<close> Log output, the closing of pools and listeners, \<open>ListenAndServe\<close> and the delivery of
  signals, which are calls into the runtime without a decision of the program; the getters \<open>Pool\<close> and \<open>Close\<close> of the store, which only
  tests and the exit of the process use; the web front end, scripts, deployment files and tests, which hold none of the daemon's logic.
\<close>

section \<open>One execution, end to end\<close>

lemma frame_json_length:
  "length (jprint (frameJSON (outputFrame i b))) \<le> 6 * (length i + length b) + 50"
proof -
  have "jprint (frameJSON (outputFrame i b)) = ''{'' @ enc_str ''id'' @ '':'' @ enc_str i @ '','' @
      enc_str ''kind'' @ '':'' @ enc_str FrameOutput @ (if b = [] then [] else '','' @ enc_str ''data'' @ '':'' @ enc_str b) @ ''}''"
    by (simp add: frameJSON_def outputFrame_def zeroFrame_def omit_str_def omit_int_def)
  moreover have "length (enc_str ''id'') = 4" "length (enc_str ''kind'') = 6" "length (enc_str FrameOutput) = 8"
    "length (enc_str ''data'') = 6"
    unfolding kind_defs by code_simp+
  ultimately show ?thesis
    using length_enc_str [of i] length_enc_str [of b] by simp
qed

lemma output_fits: "6 * (length i + length b) + 50 \<le> MaxFrameSize \<Longrightarrow> wire_fits (outputFrame i b)"
  using frame_json_length [of i b]
  by (simp add: wire_fits_def frame_ok_def outputFrame_def zeroFrame_def int64_range_def)

lemma normFrame_output:
  "valid_utf8 i \<Longrightarrow> \<forall>c \<in> set b. code c < 128 \<Longrightarrow> normFrame (outputFrame i b) = outputFrame i b"
  by (intro normFrame_id)
    (auto simp: frame_utf8_def outputFrame_def zeroFrame_def kind_defs code_def intro!: ascii_valid_utf8)

lemma itoa_ascii: "c \<in> set (itoa i) \<Longrightarrow> code c < 128"
  by (auto simp: itoa_def code_def dest: digits_in_dec_digits split: if_splits)

lemma normFrame_notice: "valid_utf8 i \<Longrightarrow> normFrame (truncNotice cfg i) = truncNotice cfg i"
  unfolding truncNotice_def
  by (rule normFrame_output) (auto simp: code_def dest: itoa_ascii)

lemma normFrame_kind:
  "rf_Kind f \<in> {FrameOutput, FrameExit, FrameError, FramePong} \<Longrightarrow> rf_Kind (normFrame f) = rf_Kind f"
  by (auto simp: normFrame_def kind_defs code_def intro!: to_valid_id ascii_valid_utf8)

lemma finalFrame_kind: "rf_Kind (finalFrame cfg req wres tmo) =
    (if tmo \<or> (\<exists>e. wres = WaitError e) then FrameError else FrameExit)"
  by (cases wres) (simp_all add: finalFrame_def)

lemma Exec_accepted:
  assumes "0 \<le> vc_RetryMax (cl_cfg c)" and "CHR 0x0A \<notin> set line"
    and "length (jprint (requestJSON req)) \<le> MaxFrameSize"
  shows "Exec c cx buf_write (\<lambda>_. Inr ([], \<lparr>rd_buf = ''OK '' @ line @ CHR 0x0A # b, rd_end = e\<rparr>)) req =
    (case exec_loop cx \<lparr>rd_buf = b, rd_end = e\<rparr> of (res, fs) \<Rightarrow>
       (res, fs, Some (connectLine (vc_Port (cl_cfg c)) @ frame_bytes (jprint (requestJSON req)))))"
proof -
  have "fst (dialWithRetry c cx buf_write
      (\<lambda>_. Inr ([], \<lparr>rd_buf = ''OK '' @ line @ CHR 0x0A # b, rd_end = e\<rparr>))) =
      Inr (connectLine (vc_Port (cl_cfg c)), \<lparr>rd_buf = b, rd_end = e\<rparr>)"
    using connect_ok_line [OF assms(2), of c "[]" b e] by (intro dial_first_ok [OF assms(1)]) simp
  moreover have "WriteMessage marshalRequest buf_write (connectLine (vc_Port (cl_cfg c))) req =
      (None, connectLine (vc_Port (cl_cfg c)) @ frame_bytes (jprint (requestJSON req)))"
    using assms(3) by (simp add: WriteMessage_buf [where p = "jprint (requestJSON req)"] marshalRequest_def)
  ultimately show ?thesis unfolding Exec_def by (simp only: sum.case prod.case option.case)
qed

text \<open>
  C2: Host and guest agree end to end. The host sends an exec request of valid UTF-8
  over an accepted vsock connection, the guest agent handles the very bytes it gets, and
  the host reads the very bytes the agent wrote. If the script runs and writes the pieces
  \<open>ps\<close> of ASCII output, the host's callback sees output frames whose data is exactly the
  script's output up to the agent's cap, then the truncation notice exactly when something
  was cut, then the terminal frame; and \<open>Exec\<close> reports an error exactly when the script
  timed out or could not be waited for.
\<close>

theorem end_to_end_output:
  assumes "0 \<le> vc_RetryMax (cl_cfg c)" and "CHR 0x0A \<notin> set line"
    and "request_ok req" and "request_utf8 req" and "length (jprint (requestJSON req)) \<le> MaxFrameSize"
    and "er_Kind req = KindExec" and "er_Script req \<noteq> []"
    and "os (exec_command cfg req) (exec_timeout cfg req) = Ran p ps wres tmo"
    and "\<forall>b \<in> set (concat ps). code b < 128"
    and "0 < ac_ChunkSize cfg" and "6 * (length (er_ID req) + nat (ac_ChunkSize cfg)) + 50 \<le> MaxFrameSize"
    and "wire_fits (truncNotice cfg (er_ID req))" and "wire_fits (finalFrame cfg req wres tmo)"
  shows "\<exists>sent reply effs outs.
    handleConn cfg wire_write os \<lparr>rd_buf = sent, rd_end = None\<rparr> [] = Some (effs, reply) \<and>
    Exec c cx buf_write (\<lambda>_. Inr ([], \<lparr>rd_buf = ''OK '' @ line @ CHR 0x0A # reply, rd_end = None\<rparr>)) req =
      (if tmo \<or> (\<exists>e. wres = WaitError e)
       then Some (GuestError (rf_Error (normFrame (finalFrame cfg req wres tmo)))) else None,
       outs @ (if ac_MaxOutput cfg > 0 \<and> int (length (concat ps)) > ac_MaxOutput cfg
               then [truncNotice cfg (er_ID req)] else [])
            @ [normFrame (finalFrame cfg req wres tmo)],
       Some (connectLine (vc_Port (cl_cfg c)) @ sent)) \<and>
    concat (map rf_Data outs) =
      (if ac_MaxOutput cfg > 0 then take (nat (ac_MaxOutput cfg)) (concat ps) else concat ps)"
proof -
  let ?sent = "frame_bytes (jprint (requestJSON req))"
  let ?n = "if ac_MaxOutput cfg > 0 \<and> int (length (concat ps)) > ac_MaxOutput cfg
               then [truncNotice cfg (er_ID req)] else []"
  have read: "ReadMessage unmarshalRequest \<lparr>rd_buf = ?sent, rd_end = None\<rparr> = (Inr req, \<lparr>rd_buf = [], rd_end = None\<rparr>)"
    using ReadMessage_frame_bytes [OF assms(5), of unmarshalRequest req "[]"] unmarshal_marshal_request [OF assms(3)]
      normRequest_id [OF assms(4)] by simp
  have h: "handleConn cfg wire_write os \<lparr>rd_buf = ?sent, rd_end = None\<rparr> [] = runScript cfg wire_write os req []"
    using assms(6) by (simp add: handleConn_def read kind_defs)
  have id: "valid_utf8 (er_ID req)" using assms(4) by (simp add: request_utf8_def)
  have g: "wire_good []" unfolding wire_good_def by (rule exI [of _ "[]"]) simp
  have fits: "wire_fits (outputFrame (er_ID req) b)"
    if "length b \<le> nat (sw_chunk (newStreamWriter (er_ID req) (ac_MaxOutput cfg) (ac_ChunkSize cfg)))" for b
    using that assms(10,11) by (intro output_fits) (simp add: newStreamWriter_def)
  obtain reply cs where r: "runScript cfg wire_write os req [] =
      Some ([Spawn (exec_command cfg req) (exec_timeout cfg req), KillGroup p], reply)" "wire_good reply"
    "wire_view reply = wire_view [] @ map normFrame (map (outputFrame (er_ID req)) cs @ ?n @ [finalFrame cfg req wres tmo])"
    "concat cs = capped (ac_MaxOutput cfg) (concat ps)"
    using wire_sink.runScript_Ran_view [of req "[]" os cfg p ps wres tmo, OF assms(7) g assms(8) fits assms(12,13)]
    by blast
  have ascii: "\<forall>b \<in> set (concat cs). code b < 128"
    using r(4) assms(9) set_take_subset [of "nat (ac_MaxOutput cfg)" "concat ps"]
    unfolding capped_def by (metis subsetD)
  have norm: "normFrame (outputFrame (er_ID req) b) = outputFrame (er_ID req) b" if "b \<in> set cs" for b
    using that ascii id by (intro normFrame_output) auto
  let ?outs = "map (outputFrame (er_ID req)) cs"
  have n: "map normFrame ?n = ?n" using normFrame_notice [OF id] by simp
  have "wire_view reply = (?outs @ ?n) @ [normFrame (finalFrame cfg req wres tmo)]"
    using r(3) n norm wire_view_concat [of "[]"] by (simp cong: map_cong)
  moreover have "\<forall>f \<in> set (?outs @ ?n). \<not> Terminal f" by auto
  moreover have k: "rf_Kind (normFrame (finalFrame cfg req wres tmo)) = rf_Kind (finalFrame cfg req wres tmo)"
    by (rule normFrame_kind) (simp add: finalFrame_kind)
  moreover from k have "Terminal (normFrame (finalFrame cfg req wres tmo))"
    using finalFrame_terminal(1) [of cfg req wres tmo] by (simp add: Terminal_def)
  ultimately have loop: "exec_loop cx \<lparr>rd_buf = reply, rd_end = None\<rparr> =
      (if rf_Kind (finalFrame cfg req wres tmo) = FrameError
       then Some (GuestError (rf_Error (normFrame (finalFrame cfg req wres tmo)))) else None,
       (?outs @ ?n) @ [normFrame (finalFrame cfg req wres tmo)])"
    using exec_loop_wire [OF r(2), of "?outs @ ?n" "normFrame (finalFrame cfg req wres tmo)" cx None]
    by (simp only: k)
  have "Exec c cx buf_write (\<lambda>_. Inr ([], \<lparr>rd_buf = ''OK '' @ line @ CHR 0x0A # reply, rd_end = None\<rparr>)) req =
     (case exec_loop cx \<lparr>rd_buf = reply, rd_end = None\<rparr> of (res, fs) \<Rightarrow>
        (res, fs, Some (connectLine (vc_Port (cl_cfg c)) @ ?sent)))"
    by (rule Exec_accepted [OF assms(1,2,5)])
  also have "\<dots> = (if tmo \<or> (\<exists>e. wres = WaitError e)
       then Some (GuestError (rf_Error (normFrame (finalFrame cfg req wres tmo)))) else None,
      ?outs @ ?n @ [normFrame (finalFrame cfg req wres tmo)], Some (connectLine (vc_Port (cl_cfg c)) @ ?sent))"
    unfolding loop by (simp add: finalFrame_kind kind_defs)
  finally show ?thesis
    using r(1,4) by (intro exI [of _ ?sent] exI [of _ reply] exI [of _ ?outs] exI conjI)
      (simp add: h, assumption, simp add: comp_def capped_def)
qed

lemma exAgent_fields [simp]:
  "ac_ChunkSize exAgent = 32768" "ac_MaxOutput exAgent = 4194304"
  by (simp_all add: exAgent_def loadConfig_def envInt_def)

theorem end_to_end_output_witness:
  "\<exists>sent reply effs outs.
    handleConn exAgent wire_write (\<lambda>c t. Ran 42 [''hel'', ''lo''] (WaitExit 3) False)
      \<lparr>rd_buf = sent, rd_end = None\<rparr> [] = Some (effs, reply) \<and>
    Exec exClient exCtx buf_write (\<lambda>_. Inr ([], \<lparr>rd_buf = ''OK '' @ ''1024'' @ CHR 0x0A # reply, rd_end = None\<rparr>)) exRequest =
      (None, outs @ [normFrame (exitFrame ''req-1'' 3)], Some (connectLine DefaultPort @ sent)) \<and>
    concat (map rf_Data outs) = ''hello''"
proof -
  have small: "length (jprint (requestJSON exRequest)) \<le> 150"
    "length (jprint (frameJSON (exitFrame ''req-1'' 3))) \<le> 150"
    by code_simp+
  have notice: "wire_fits (truncNotice exAgent ''req-1'')"
  proof -
    have "dec_digits 4194304 = ''4194304''" by (simp add: dec_digits.simps digit_char_def)
    then show ?thesis
      unfolding truncNotice_def
      by (intro output_fits) (simp add: itoa_def MaxFrameSize_def)
  qed
  have req: "request_ok exRequest" "request_utf8 exRequest"
    by (auto simp: exRequest_def zeroRequest_def request_ok_def request_utf8_def int64_range_def kind_defs
        gomap_ok_def code_def intro!: ascii_valid_utf8)
  have fin: "finalFrame exAgent exRequest (WaitExit 3) False = exitFrame ''req-1'' 3" "er_ID exRequest = ''req-1''"
    "er_Kind exRequest = KindExec" "er_Script exRequest \<noteq> []"
    by (simp_all add: finalFrame_def exRequest_def)
  have fit: "wire_fits (exitFrame ''req-1'' 3)"
    using small(2) by (simp add: wire_fits_def MaxFrameSize_def frame_ok_def int64_range_def)
  have "\<forall>b \<in> set (concat [''hel'', ''lo'']). code b < 128" by (simp add: code_def)
  from end_to_end_output [of exClient "''1024''" exRequest "\<lambda>c t. Ran 42 [''hel'', ''lo''] (WaitExit 3) False"
      exAgent 42 "[''hel'', ''lo'']" "WaitExit 3" False exCtx, OF _ _ req _ _ _ _ this]
  show ?thesis
    using small(1) notice fit by (simp add: fin MaxFrameSize_def)
qed

end
